(* ===== verification/Prelude.thy ===== *)
theory Prelude
  imports Main "HOL-Library.Word"
begin

text \<open>
  Shared vocabulary of the WaterBuffalo development: the fixed-width integer types the kernel
  uses, the collections of rewrite rules the component theories extend, and the generic lemmas
  on words (bit fields, masks, page arithmetic) and loops that several components need.

  \<^item> \<open>mask_simps\<close>: a bitwise AND with one of the source's literal masks is a truncation.
  \<^item> \<open>page_arith\<close>: page and frame arithmetic moved from words to naturals.
\<close>

unbundle bit_operations_syntax

named_theorems mask_simps "literal bit masks of the source as truncations"
named_theorems page_arith "page and frame arithmetic on naturals"

section \<open>Integer types\<close>

type_synonym u8 = "8 word"
type_synonym u16 = "16 word"
type_synonym u32 = "32 word"
type_synonym u64 = "64 word"

text \<open>A pointer is its 64-bit address; the null pointer is 0.\<close>

type_synonym ptr = u64

abbreviation (input) UINT64_MAX :: u64 where
  "UINT64_MAX \<equiv> 0xFFFFFFFFFFFFFFFF"

abbreviation (input) nullptr :: ptr where
  "nullptr \<equiv> 0"

text \<open>
  The result of code that either returns a value or stops the machine for good (the kernel's
  \<open>cli; hlt\<close> loops). Both carry the state reached.
\<close>

datatype ('a, 's) exec = Ret 'a 's | Halt 's

section \<open>Bits, fields and masks\<close>

lemma and_0x1 [mask_simps]: "(x :: 'a::len word) AND 1 = take_bit 1 x"
  by (simp add: take_bit_eq_mask mask_eq_exp_minus_1)

lemma and_0xF [mask_simps]: "(x :: 'a::len word) AND 0xF = take_bit 4 x"
  by (simp add: take_bit_eq_mask mask_eq_exp_minus_1)

lemma and_0xFF [mask_simps]: "(x :: 'a::len word) AND 0xFF = take_bit 8 x"
  by (simp add: take_bit_eq_mask mask_eq_exp_minus_1)

lemma and_0x1FF [mask_simps]: "(x :: 'a::len word) AND 0x1FF = take_bit 9 x"
  by (simp add: take_bit_eq_mask mask_eq_exp_minus_1)

lemma and_0xFFF [mask_simps]: "(x :: 'a::len word) AND 0xFFF = take_bit 12 x"
  by (simp add: take_bit_eq_mask mask_eq_exp_minus_1)

lemma and_0xFFFF [mask_simps]: "(x :: 'a::len word) AND 0xFFFF = take_bit 16 x"
  by (simp add: take_bit_eq_mask mask_eq_exp_minus_1)

lemma and_0x1FFFFF [mask_simps]: "(x :: 'a::len word) AND 0x1FFFFF = take_bit 21 x"
  by (simp add: take_bit_eq_mask mask_eq_exp_minus_1)

lemma and_0xFFFFFF [mask_simps]: "(x :: 'a::len word) AND 0xFFFFFF = take_bit 24 x"
  by (simp add: take_bit_eq_mask mask_eq_exp_minus_1)

lemma and_0x3FFFFFFF [mask_simps]: "(x :: 'a::len word) AND 0x3FFFFFFF = take_bit 30 x"
  by (simp add: take_bit_eq_mask mask_eq_exp_minus_1)

lemma and_0xFFFFFFFF [mask_simps]: "(x :: 'a::len word) AND 0xFFFFFFFF = take_bit 32 x"
  by (simp add: take_bit_eq_mask mask_eq_exp_minus_1)

lemma bit_and_one_iff: "(x :: 'a::len word) AND push_bit n 1 \<noteq> 0 \<longleftrightarrow> bit x n"
proof -
  have "x AND push_bit n 1 = (if bit x n then push_bit n 1 else 0)"
    by (rule bit_word_eqI) (auto simp: bit_simps)
  moreover have "bit x n \<Longrightarrow> push_bit n (1 :: 'a word) \<noteq> 0"
    by (metis bit_imp_le_length bit_push_bit_iff bit_1_0 diff_self_eq_0 bit_0_eq bot_apply order_refl
        bot_bool_def possible_bit_word)
  ultimately show ?thesis by simp
qed

lemma join_field:
  "push_bit k (take_bit m (drop_bit k a)) OR take_bit k a = take_bit (k + m) (a :: 'a::len word)"
  by (rule bit_word_eqI) (auto simp: bit_simps)

lemma ucast_ucast_take_bit:
  "m \<le> 16 \<Longrightarrow> ucast (ucast (take_bit m x) :: u16) = take_bit m (x :: u64)"
  by (rule bit_word_eqI) (auto simp: bit_simps)

lemma unat_take_bit: "unat (take_bit n (x :: 'a::len word)) = unat x mod 2 ^ n"
  by (subst unsigned_take_bit_eq) (rule take_bit_eq_mod)

lemma unat_drop_bit: "unat (drop_bit n (x :: 'a::len word)) = unat x div 2 ^ n"
proof -
  have "take_bit (LENGTH('a) - n) (drop_bit n x) = drop_bit n x"
    by (rule bit_word_eqI) (auto simp: bit_simps dest: bit_imp_le_length)
  moreover have "unat (drop_bit n x) = drop_bit n (unat x)"
    by (rule bit_eqI) (auto simp: bit_simps dest: bit_imp_le_length)
  ultimately show ?thesis by (simp only: drop_bit_eq_div)
qed

lemma unat_eqI: "unat (x :: 'a::len word) = unat y \<Longrightarrow> x = y"
  by (simp only: unsigned_word_eqI)

lemma take_bit_less_self:
  "unat (x :: 'a::len word) < 2 ^ n \<Longrightarrow> take_bit n x = x"
  by (rule unat_eqI) (simp only: unat_take_bit mod_less)

lemma unat_exp: "n < LENGTH('a) \<Longrightarrow> unat (2 ^ n :: 'a::len word) = 2 ^ n"
proof -
  assume n: "n < LENGTH('a)"
  have "unat (push_bit n (1 :: 'a word)) = push_bit n 1"
    by (rule bit_eqI) (use n in \<open>auto simp: bit_simps\<close>)
  then show ?thesis by simp
qed

lemma u64_bound: "unat (x :: u64) < 2 ^ 64"
  using unsigned_less [of x] by simp

text \<open>Adding without wrap-around.\<close>

lemma unat_add_nowrap:
  "unat x + unat y < 2 ^ LENGTH('a) \<Longrightarrow> unat (x + y :: 'a::len word) = unat x + unat y"
  by (simp add: unat_add_lem)

lemma unat_mult_nowrap:
  "unat x * unat y < 2 ^ LENGTH('a) \<Longrightarrow> unat (x * y :: 'a::len word) = unat x * unat y"
  by (simp add: unat_mult_lem)

lemma unat_Suc_less: "(i :: 'a::len word) < n \<Longrightarrow> unat (i + 1) = Suc (unat i)"
  by unat_arith

lemma word_le_step: "(i :: 'a::len word) < n \<Longrightarrow> i \<le> j \<longleftrightarrow> j = i \<or> i + 1 \<le> j"
  using unat_Suc_less [of i n] by (auto simp: word_le_nat_alt le_Suc_eq Suc_le_eq intro: unat_eqI)

lemma card_below: "card {f :: 'a::len word. f < n} = unat n"
proof -
  have "unat ` {f :: 'a word. f < n} = {..<unat n}"
  proof
    show "{..<unat n} \<subseteq> unat ` {f :: 'a word. f < n}"
    proof
      fix m
      assume m: "m \<in> {..<unat n}"
      then have "m < 2 ^ LENGTH('a)" using unsigned_less [of n] by (simp add: less_trans)
      then have "unat (of_nat m :: 'a word) = m" by (simp add: unsigned_of_nat take_bit_nat_eq_self)
      with m show "m \<in> unat ` {f :: 'a word. f < n}"
        by (intro image_eqI [of _ _ "of_nat m"]) (simp_all add: word_less_nat_alt)
    qed
  qed (auto simp: word_less_nat_alt)
  moreover have "inj_on unat {f :: 'a word. f < n}" by (rule inj_onI) (rule unat_eqI)
  ultimately show ?thesis by (metis card_image card_lessThan)
qed

section \<open>Page arithmetic\<close>

definition page_aligned :: "u64 \<Rightarrow> bool" where
  "page_aligned a \<longleftrightarrow> take_bit 12 a = 0"

lemma page_aligned_iff [page_arith]: "page_aligned a \<longleftrightarrow> unat a mod 4096 = 0"
proof -
  have "take_bit 12 a = 0 \<longleftrightarrow> unat (take_bit 12 a) = 0"
    by (simp only: unat_eq_0)
  then show ?thesis
    by (simp add: page_aligned_def unat_take_bit)
qed

lemma page_aligned_add_eq_iff:
  assumes "page_aligned P" "page_aligned Q" "x < 4096" "y < 4096"
  shows "P + x = Q + y \<longleftrightarrow> P = Q \<and> x = y"
proof
  assume e: "P + x = Q + y"
  have low: "unat (R + z) mod 4096 = unat z" if "page_aligned R" "z < 4096" for R z :: u64
  proof -
    have "unat (R + z) mod 4096 = (unat R + unat z) mod 4096"
      by (simp add: unat_word_ariths mod_mod_cancel)
    also have "\<dots> = (unat R mod 4096 + unat z) mod 4096"
      by (simp only: mod_add_left_eq)
    finally show ?thesis
      using that by (simp add: page_aligned_iff word_less_nat_alt)
  qed
  have "x = y"
    using low [of P x] low [of Q y] assms e by (intro unat_eqI) simp
  with e show "P = Q \<and> x = y" by simp
qed simp

lemma page_up_le_iff [page_arith]: "(b + 4095) div 4096 \<le> (n :: nat) \<longleftrightarrow> b \<le> 4096 * n"
proof -
  have "(b + 4095) div 4096 \<le> n \<longleftrightarrow> (b + 4095) div 4096 < Suc n" by linarith
  also have "\<dots> \<longleftrightarrow> b + 4095 < Suc n * 4096" by (rule div_less_iff_less_mult) simp
  also have "\<dots> \<longleftrightarrow> b \<le> 4096 * n" by auto
  finally show ?thesis .
qed

lemma less_page_down_iff [page_arith]: "(n :: nat) < e div 4096 \<longleftrightarrow> 4096 * (n + 1) \<le> e"
proof -
  have "n < e div 4096 \<longleftrightarrow> Suc n \<le> e div 4096" by (rule less_eq_Suc_le)
  also have "\<dots> \<longleftrightarrow> Suc n * 4096 \<le> e" by (rule less_eq_div_iff_mult_less_eq) simp
  also have "\<dots> \<longleftrightarrow> 4096 * (n + 1) \<le> e" by (simp add: mult.commute)
  finally show ?thesis .
qed

lemma map_leD: "m \<subseteq>\<^sub>m n \<Longrightarrow> m x = Some y \<Longrightarrow> n x = Some y"
  by (metis domI map_le_def)

end
