(* ===== verification/Freestanding.thy ===== *)
theory Freestanding
  imports Prelude
begin

text \<open>
  The freestanding C library functions of \<open>src/src/lib/string.cpp\<close> on byte memory. Memory is a
  function from addresses to bytes shared by both arguments, so overlapping buffers alias as they
  do in C. An index loop over a \<open>size_t\<close> is a function on words with a termination proof.
\<close>

section \<open>Model\<close>

type_synonym bytes = "ptr \<Rightarrow> u8"

function copy_up :: "ptr \<Rightarrow> ptr \<Rightarrow> u64 \<Rightarrow> u64 \<Rightarrow> bytes \<Rightarrow> bytes" where
  "copy_up pdest psrc n i m =
     (if i < n then copy_up pdest psrc n (i + 1) (m(pdest + i := m (psrc + i))) else m)"
  by pat_completeness auto
termination
  by (relation "measure (\<lambda>(pdest, psrc, n, i, m). unat n - unat i)") (auto simp: unat_Suc_less word_less_nat_alt)

function copy_down :: "ptr \<Rightarrow> ptr \<Rightarrow> u64 \<Rightarrow> bytes \<Rightarrow> bytes" where
  "copy_down pdest psrc i m =
     (if i > 0 then copy_down pdest psrc (i - 1) (m(pdest + (i - 1) := m (psrc + (i - 1)))) else m)"
  by pat_completeness auto
termination
  by (relation "measure (\<lambda>(pdest, psrc, i, m). unat i)")
    (auto simp: word_less_nat_alt unat_minus_one unat_gt_0)

function fill :: "ptr \<Rightarrow> u8 \<Rightarrow> u64 \<Rightarrow> u64 \<Rightarrow> bytes \<Rightarrow> bytes" where
  "fill p c n i m = (if i < n then fill p c n (i + 1) (m(p + i := c)) else m)"
  by pat_completeness auto
termination
  by (relation "measure (\<lambda>(p, c, n, i, m). unat n - unat i)") (auto simp: unat_Suc_less word_less_nat_alt)

function compare_bytes :: "ptr \<Rightarrow> ptr \<Rightarrow> u64 \<Rightarrow> u64 \<Rightarrow> bytes \<Rightarrow> int" where
  "compare_bytes p1 p2 n i m =
     (if i < n then
        if m (p1 + i) \<noteq> m (p2 + i) then (if m (p1 + i) < m (p2 + i) then -1 else 1)
        else compare_bytes p1 p2 n (i + 1) m
      else 0)"
  by pat_completeness auto
termination
  by (relation "measure (\<lambda>(p1, p2, n, i, m). unat n - unat i)") (auto simp: unat_Suc_less word_less_nat_alt)

declare copy_up.simps [simp del] copy_down.simps [simp del] fill.simps [simp del] compare_bytes.simps [simp del]

definition memcpy :: "ptr \<Rightarrow> ptr \<Rightarrow> u64 \<Rightarrow> bytes \<Rightarrow> ptr \<times> bytes" where
  "memcpy dest src n m = (dest, copy_up dest src n 0 m)"

definition memset :: "ptr \<Rightarrow> u32 \<Rightarrow> u64 \<Rightarrow> bytes \<Rightarrow> ptr \<times> bytes" where
  "memset s c n m = (s, fill s (ucast c) n 0 m)"

definition memmove :: "ptr \<Rightarrow> ptr \<Rightarrow> u64 \<Rightarrow> bytes \<Rightarrow> ptr \<times> bytes" where
  "memmove dest src n m =
     (if dest < src then (dest, copy_up dest src n 0 m)
      else if dest > src then (dest, copy_down dest src n m)
      else (dest, m))"

definition memcmp :: "ptr \<Rightarrow> ptr \<Rightarrow> u64 \<Rightarrow> bytes \<Rightarrow> int" where
  "memcmp s1 s2 n m = compare_bytes s1 s2 n 0 m"

section \<open>The loops\<close>

lemma copy_up_eq:
  "(\<And>j k. i \<le> j \<Longrightarrow> j < k \<Longrightarrow> k < n \<Longrightarrow> d + j \<noteq> s + k) \<Longrightarrow>
     copy_up d s n i m = (\<lambda>p. if i \<le> p - d \<and> p - d < n then m (s + (p - d)) else m p)"
proof (induction d s n i m rule: copy_up.induct)
  case (1 d s n i m)
  show ?case
  proof (cases "i < n")
    case False
    then have "\<not> (i \<le> x \<and> x < n)" for x by auto
    then show ?thesis using False by (simp only: copy_up.simps [of d s n i m] if_False)
  next
    case True
    let ?m = "m(d + i := m (s + i))"
    have IH: "copy_up d s n (i + 1) ?m = (\<lambda>p. if i + 1 \<le> p - d \<and> p - d < n then ?m (s + (p - d)) else ?m p)"
    proof (rule "1.IH" [OF True])
      fix j k
      assume "i + 1 \<le> j" "j < k" "k < n"
      then show "d + j \<noteq> s + k" using "1.prems" [of j k] word_le_step [OF True, of j] by blast
    qed
    have keep: "?m (s + x) = m (s + x)" if "i + 1 \<le> x" "x < n" for x
    proof -
      have "i < x" using that(1) unat_Suc_less [OF True] by (simp add: word_le_nat_alt word_less_nat_alt)
      then show ?thesis using "1.prems" [of i x] that(2) by auto
    qed
    have "(if i + 1 \<le> p - d \<and> p - d < n then ?m (s + (p - d)) else ?m p) =
        (if i \<le> p - d \<and> p - d < n then m (s + (p - d)) else m p)" for p
    proof (cases "p = d + i")
      case True
      then show ?thesis using \<open>i < n\<close> unat_Suc_less [OF \<open>i < n\<close>] by (auto simp: word_le_nat_alt)
    next
      case False
      then have "p - d \<noteq> i" by auto
      then show ?thesis using False keep [of "p - d"] word_le_step [OF \<open>i < n\<close>, of "p - d"] by auto
    qed
    then show ?thesis using True by (simp add: copy_up.simps [of d s n i m] IH)
  qed
qed

lemma word_less_pred: "(i :: u64) > 0 \<Longrightarrow> j < i \<longleftrightarrow> j = i - 1 \<or> j < i - 1"
  by (auto simp: word_less_nat_alt unat_minus_one unat_gt_0 intro: unat_eqI)

lemma copy_down_eq:
  "(\<And>j k. k < j \<Longrightarrow> j < i \<Longrightarrow> d + j \<noteq> s + k) \<Longrightarrow>
     copy_down d s i m = (\<lambda>p. if p - d < i then m (s + (p - d)) else m p)"
proof (induction d s i m rule: copy_down.induct)
  case (1 d s i m)
  show ?case
  proof (cases "i > 0")
    case False
    then have "i = 0" by (simp add: word_gt_0)
    then show ?thesis by (simp add: copy_down.simps [of d s 0 m])
  next
    case True
    let ?m = "m(d + (i - 1) := m (s + (i - 1)))"
    have IH: "copy_down d s (i - 1) ?m = (\<lambda>p. if p - d < i - 1 then ?m (s + (p - d)) else ?m p)"
    proof (rule "1.IH" [OF True])
      fix j k
      assume "k < j" "j < i - 1"
      then show "d + j \<noteq> s + k" using "1.prems" [of k j] word_less_pred [OF True, of j] by blast
    qed
    have keep: "?m (s + x) = m (s + x)" if "x < i - 1" for x
      using "1.prems" [of x "i - 1"] that word_less_pred [OF True, of "i - 1"] by auto
    have "(if p - d < i - 1 then ?m (s + (p - d)) else ?m p) =
        (if p - d < i then m (s + (p - d)) else m p)" for p
    proof (cases "p = d + (i - 1)")
      case True
      then have "p - d = i - 1" by simp
      then show ?thesis using True word_less_pred [OF \<open>i > 0\<close>, of "i - 1"] by simp
    next
      case False
      then have "p - d \<noteq> i - 1" by (metis add.commute diff_add_cancel)
      then show ?thesis using False keep [of "p - d"] word_less_pred [OF \<open>i > 0\<close>, of "p - d"] by auto
    qed
    then show ?thesis using True by (simp add: copy_down.simps [of d s i m] IH)
  qed
qed

lemma fill_eq: "fill p c n i m = (\<lambda>q. if i \<le> q - p \<and> q - p < n then c else m q)"
proof (induction p c n i m rule: fill.induct)
  case (1 p c n i m)
  show ?case
  proof (cases "i < n")
    case False
    then have "\<not> (i \<le> x \<and> x < n)" for x by auto
    then show ?thesis using False by (simp only: fill.simps [of p c n i m] if_False)
  next
    case True
    have "(if i + 1 \<le> q - p \<and> q - p < n then c else (m(p + i := c)) q) =
        (if i \<le> q - p \<and> q - p < n then c else m q)" for q
      using word_le_step [OF True, of "q - p"] True by (cases "q = p + i") auto
    then show ?thesis
      unfolding fill.simps [of p c n i m] if_P [OF True] "1.IH" [OF True] by (rule ext)
  qed
qed

lemma compare_bytes_zero:
  "compare_bytes p1 p2 n i m = 0 \<longleftrightarrow> (\<forall>j. i \<le> j \<and> j < n \<longrightarrow> m (p1 + j) = m (p2 + j))"
proof (induction p1 p2 n i m rule: compare_bytes.induct)
  case (1 p1 p2 n i m)
  show ?case
  proof (cases "i < n \<and> m (p1 + i) = m (p2 + i)")
    case True
    then have less: "i < n" and eq: "m (p1 + i) = m (p2 + i)" by simp_all
    have "compare_bytes p1 p2 n i m = 0 \<longleftrightarrow> (\<forall>j. i + 1 \<le> j \<and> j < n \<longrightarrow> m (p1 + j) = m (p2 + j))"
      using "1.IH" [OF less] eq less by (simp add: compare_bytes.simps [of p1 p2 n i m])
    then show ?thesis using word_le_step [OF less] eq by auto
  next
    case False
    then show ?thesis by (auto simp: compare_bytes.simps [of p1 p2 n i m])
  qed
qed

lemma compare_bytes_first:
  "\<lbrakk> i \<le> j; j < n; \<And>k. i \<le> k \<Longrightarrow> k < j \<Longrightarrow> m (p1 + k) = m (p2 + k); m (p1 + j) \<noteq> m (p2 + j) \<rbrakk> \<Longrightarrow>
     compare_bytes p1 p2 n i m = (if m (p1 + j) < m (p2 + j) then -1 else 1)"
proof (induction p1 p2 n i m rule: compare_bytes.induct)
  case (1 p1 p2 n i m)
  have less: "i < n" using "1.prems"(1,2) by simp
  show ?case
  proof (cases "i = j")
    case True
    then show ?thesis using less "1.prems"(4) by (simp add: compare_bytes.simps [of p1 p2 n j m])
  next
    case False
    then have "i < j" using "1.prems"(1) by simp
    then have eq: "m (p1 + i) = m (p2 + i)" using "1.prems"(3) [of i] by simp
    have step: "i + 1 \<le> k \<longleftrightarrow> i \<le> k \<and> k \<noteq> i" for k
      using word_le_step [OF less, of k] word_less_nat_alt unat_Suc_less [OF less] by (auto simp: word_le_nat_alt)
    have "compare_bytes p1 p2 n (i + 1) m = (if m (p1 + j) < m (p2 + j) then -1 else 1)"
      using "1.prems" False by (intro "1.IH" [OF less]) (simp_all add: eq step)
    then show ?thesis using less eq by (simp add: compare_bytes.simps [of p1 p2 n i m])
  qed
qed

lemma sum_neq_nowrap:
  "\<lbrakk> unat d + unat n \<le> 2 ^ 64; unat s + unat n \<le> 2 ^ 64; (j :: u64) < n; k < n; unat d + unat j \<noteq> unat s + unat k \<rbrakk>
     \<Longrightarrow> (d :: u64) + j \<noteq> s + k"
proof
  assume a: "unat d + unat n \<le> 2 ^ 64" "unat s + unat n \<le> 2 ^ 64" "j < n" "k < n"
    "unat d + unat j \<noteq> unat s + unat k" and "d + j = s + k"
  then have "unat (d + j) = unat (s + k)" by simp
  moreover have "unat (d + j) = unat d + unat j" "unat (s + k) = unat s + unat k"
    using a by (auto intro!: unat_add_nowrap simp: word_less_nat_alt)
  ultimately show False using a(5) by simp
qed

section \<open>Properties\<close>

text \<open>
  C40: memmove copies between any two buffers that do not wrap around the address space, however
  they overlap: each destination byte receives the byte the source held before the call, every
  other byte is unchanged, and the destination pointer is returned.
\<close>

theorem memmove_copies:
  assumes "unat dest + unat n \<le> 2 ^ 64" "unat src + unat n \<le> 2 ^ 64"
  shows "memmove dest src n m = (dest, \<lambda>p. if p - dest < n then m (src + (p - dest)) else m p)"
proof -
  consider "dest < src" | "src < dest" | "dest = src" by (rule linorder_cases)
  then show ?thesis
  proof cases
    case 1
    then have "dest + j \<noteq> src + k" if "j < k" "k < n" for j k
      using that by (intro sum_neq_nowrap [OF assms]) (auto simp: word_less_nat_alt)
    then have "copy_up dest src n 0 m = (\<lambda>p. if 0 \<le> p - dest \<and> p - dest < n then m (src + (p - dest)) else m p)"
      by (intro copy_up_eq)
    with 1 show ?thesis by (simp add: memmove_def)
  next
    case 2
    then have "dest + j \<noteq> src + k" if "k < j" "j < n" for j k
      using that by (intro sum_neq_nowrap [OF assms]) (auto simp: word_less_nat_alt)
    then have "copy_down dest src n m = (\<lambda>p. if p - dest < n then m (src + (p - dest)) else m p)"
      by (intro copy_down_eq)
    with 2 show ?thesis by (auto simp: memmove_def)
  next
    case 3
    then show ?thesis by (auto simp: memmove_def)
  qed
qed

theorem memmove_copies_witness:
  "snd (memmove 0x1002 0x1000 4 (\<lambda>p. ucast p)) 0x1005 = 3 \<and> snd (memmove 0x1000 0x1002 4 (\<lambda>p. ucast p)) 0x1000 = 2"
  using memmove_copies [of "0x1002" 4 "0x1000" "\<lambda>p. ucast p"] memmove_copies [of "0x1000" 4 "0x1002" "\<lambda>p. ucast p"]
  by simp

text \<open>
  On buffers without a common byte, which is what its restrict-qualified parameters promise,
  memcpy copies all n bytes, changes nothing else and returns the destination; memset stores the
  low byte of its argument in all n bytes and nowhere else, for every buffer.
\<close>

theorem memcpy_and_memset:
  assumes "\<forall>j < n. \<forall>k < n. dest + j \<noteq> src + k"
  shows "memcpy dest src n m = (dest, \<lambda>p. if p - dest < n then m (src + (p - dest)) else m p) \<and>
    memset dest c n m = (dest, \<lambda>p. if p - dest < n then ucast c else m p)"
proof
  have "copy_up dest src n 0 m = (\<lambda>p. if 0 \<le> p - dest \<and> p - dest < n then m (src + (p - dest)) else m p)"
  proof (rule copy_up_eq)
    fix j k :: u64
    assume "j < k" "k < n"
    then show "dest + j \<noteq> src + k" using assms less_trans by blast
  qed
  then show "memcpy dest src n m = (dest, \<lambda>p. if p - dest < n then m (src + (p - dest)) else m p)"
    by (simp add: memcpy_def)
qed (simp add: memset_def fill_eq)

text \<open>
  Memcmp returns 0 exactly when the two buffers agree byte for byte; otherwise its sign is
  decided by the first byte in which they differ, compared as unsigned bytes.
\<close>

theorem memcmp_first_difference:
  "(memcmp s1 s2 n m = 0 \<longleftrightarrow> (\<forall>j < n. m (s1 + j) = m (s2 + j))) \<and>
   (\<forall>j < n. (\<forall>k < j. m (s1 + k) = m (s2 + k)) \<and> m (s1 + j) \<noteq> m (s2 + j) \<longrightarrow>
      memcmp s1 s2 n m = (if m (s1 + j) < m (s2 + j) then -1 else 1))"
  unfolding memcmp_def by (simp add: compare_bytes_zero compare_bytes_first [of 0])

end
