(* ===== verification/Print.thy ===== *)
theory Print
  imports Prelude
begin

text \<open>
  The formatted-output layer, \<open>src/src/lib/print.cpp\<close>. Output goes to a character sink: a
  function pointer in the source, here a function on the sink's own state, absent while
  \<open>output_sink\<close> is null. Every routine of the file is one definition that threads the sink's
  state. A read past a stack buffer, past the array of the format string or past the variadic
  arguments, and an argument that does not provide the bytes a conversion reads, is an explicit
  \<open>print_error\<close>.

  The variadic arguments are modelled at the level of the target's calling convention, where each of
  them fills an eight-byte slot: a 32-bit read of a slot that holds a 64-bit integer or a pointer gets
  the low half, and the upper half of a slot that holds a 32-bit integer is unspecified, so a 64-bit
  read of it is an error. C++ is stricter: \<open>va_arg\<close> with another type than the argument's is undefined
  there even where the convention gives it a value. \<open>type_mismatches\<close> lists those reads of a call.

  The lemmas show that the digit buffers never overrun, that the digits printed are the numeral
  of the value, and which format strings are read past their end.
\<close>

section \<open>Model\<close>

datatype print_error = BufferOverrun | DigitOutOfRange | DivisionByZero | FormatOverread | ArgMismatch

type_synonym 's sink = "(char \<Rightarrow> 's \<Rightarrow> 's) option"

text \<open>
  A variadic argument with its type: a 64-bit integer, an object pointer, a 32-bit integer (or what is
  promoted to one), or a C string, \<open>None\<close> for the null pointer. A C string is the list of its characters
  before the terminating NUL.
\<close>

datatype karg = Word u64 | Ptr u64 | Half u32 | CStr "string option"

abbreviation NUL :: char where
  "NUL \<equiv> CHR 0x00"

text \<open>What \<open>va_arg\<close> reads from an argument slot, for the types the conversions name.\<close>

fun slot_64 :: "karg \<Rightarrow> u64 option" where
  "slot_64 (Word w) = Some w"
| "slot_64 (Ptr w) = Some w"
| "slot_64 (Half w) = None"
| "slot_64 (CStr str) = None"

fun slot_32 :: "karg \<Rightarrow> u32 option" where
  "slot_32 (Word w) = Some (ucast w)"
| "slot_32 (Ptr w) = Some (ucast w)"
| "slot_32 (Half w) = Some w"
| "slot_32 (CStr str) = None"

fun slot_string :: "karg \<Rightarrow> string option option" where
  "slot_string (CStr str) = Some str"
| "slot_string a = None"

definition va_arg :: "(karg \<Rightarrow> 'a option) \<Rightarrow> karg list \<Rightarrow> ('a \<times> karg list) option" where
  "va_arg slot ap = (case ap of [] \<Rightarrow> None | a # ap' \<Rightarrow> map_option (\<lambda>x. (x, ap')) (slot a))"

definition emit :: "'s sink \<Rightarrow> char \<Rightarrow> 's \<Rightarrow> 's" where
  "emit output_sink c s = (case output_sink of None \<Rightarrow> s | Some f \<Rightarrow> f c s)"

fun emit_chars :: "'s sink \<Rightarrow> string \<Rightarrow> 's \<Rightarrow> 's" where
  "emit_chars output_sink [] s = s"
| "emit_chars output_sink (c # str) s = emit_chars output_sink str (emit output_sink c s)"

definition emit_string :: "'s sink \<Rightarrow> string option \<Rightarrow> 's \<Rightarrow> 's" where
  "emit_string output_sink str s =
     (case str of
        None \<Rightarrow>
          emit output_sink CHR '')'' (emit output_sink CHR ''l'' (emit output_sink CHR ''l''
            (emit output_sink CHR ''u'' (emit output_sink CHR ''n'' (emit output_sink CHR ''('' s)))))
      | Some str \<Rightarrow> emit_chars output_sink str s)"

definition digits :: string where
  "digits = ''0123456789abcdef''"

text \<open>The loop that fills the 24-byte digit buffer, least significant digit first.\<close>

function unsigned_digits :: "u64 \<Rightarrow> u32 \<Rightarrow> string \<Rightarrow> print_error + string" where
  "unsigned_digits value base buffer =
     (if value = 0 then Inr buffer
      else if base = 0 then Inl DivisionByZero
      else if length buffer \<ge> 24 then Inl BufferOverrun
      else if value mod ucast base \<ge> 16 then Inl DigitOutOfRange
      else unsigned_digits (value div ucast base) base
             (buffer @ [digits ! unat (value mod ucast base)]))"
  by pat_completeness auto
termination
  by (relation "measure (\<lambda>(value, base, buffer). 24 - length buffer)") auto

text \<open>The loop \<open>while (length > 0) emit(buffer[--length])\<close>.\<close>

function emit_buffer :: "'s sink \<Rightarrow> string \<Rightarrow> 's \<Rightarrow> 's" where
  "emit_buffer output_sink buffer s =
     (if buffer = [] then s
      else emit_buffer output_sink (butlast buffer) (emit output_sink (last buffer) s))"
  by pat_completeness auto
termination
  by (relation "measure (\<lambda>(output_sink, buffer, s). length buffer)") auto

declare unsigned_digits.simps [simp del] emit_buffer.simps [simp del]

definition emit_unsigned :: "'s sink \<Rightarrow> u64 \<Rightarrow> u32 \<Rightarrow> 's \<Rightarrow> print_error + 's" where
  "emit_unsigned output_sink value base s =
     (if value = 0 then Inr (emit output_sink CHR ''0'' s)
      else case unsigned_digits value base [] of
             Inl e \<Rightarrow> Inl e
           | Inr buffer \<Rightarrow> Inr (emit_buffer output_sink buffer s))"

text \<open>The loop that fills the 16-byte buffer of \<open>emit_hex\<close>.\<close>

function hex_digits :: "u64 \<Rightarrow> string \<Rightarrow> print_error + string" where
  "hex_digits value buffer =
     (if value = 0 then Inr buffer
      else if length buffer \<ge> 16 then Inl BufferOverrun
      else hex_digits (drop_bit 4 value) (buffer @ [digits ! unat (value AND 0xF)]))"
  by pat_completeness auto
termination
  by (relation "measure (\<lambda>(value, buffer). 16 - length buffer)") auto

declare hex_digits.simps [simp del]

definition emit_hex :: "'s sink \<Rightarrow> u64 \<Rightarrow> 's \<Rightarrow> print_error + 's" where
  "emit_hex output_sink value s =
     (if value = 0 then Inr (emit output_sink CHR ''0'' s)
      else case hex_digits value [] of
             Inl e \<Rightarrow> Inl e
           | Inr buffer \<Rightarrow> Inr (emit_buffer output_sink buffer s))"

definition emit_signed :: "'s sink \<Rightarrow> 32 word \<Rightarrow> 's \<Rightarrow> print_error + 's" where
  "emit_signed output_sink value s =
     (if sint value < 0 then
        let magnitude = (- (value + 1)) + 1
        in emit_unsigned output_sink (ucast magnitude) 10 (emit output_sink CHR ''-'' s)
      else emit_unsigned output_sink (ucast value) 10 s)"

text \<open>The \<open>%ld\<close> branch of \<open>kprintf\<close>, on a signed 64-bit value.\<close>

definition emit_long :: "'s sink \<Rightarrow> 64 word \<Rightarrow> 's \<Rightarrow> print_error + 's" where
  "emit_long output_sink value s =
     (if sint value < 0 then
        let magnitude = (- (value + 1)) + 1
        in emit_unsigned output_sink magnitude 10 (emit output_sink CHR ''-'' s)
      else emit_unsigned output_sink value 10 s)"

text \<open>The loop of the \<open>%p\<close> branch: \<open>for (i = 15; i >= 0; --i)\<close>, with \<open>n = i + 1\<close>.\<close>

fun emit_pointer_digits :: "'s sink \<Rightarrow> u64 \<Rightarrow> nat \<Rightarrow> 's \<Rightarrow> 's" where
  "emit_pointer_digits output_sink value 0 s = s"
| "emit_pointer_digits output_sink value (Suc i) s =
     emit_pointer_digits output_sink value i
       (emit output_sink (digits ! unat (drop_bit (i * 4) value AND 0xF)) s)"

definition emit_pointer :: "'s sink \<Rightarrow> u64 \<Rightarrow> 's \<Rightarrow> 's" where
  "emit_pointer output_sink value s =
     emit_pointer_digits output_sink value 16
       (emit output_sink CHR ''x'' (emit output_sink CHR ''0'' s))"

text \<open>\<open>set_sink\<close>, \<open>putc\<close> and \<open>write\<close>.\<close>

definition set_sink :: "'s sink \<Rightarrow> 's sink \<Rightarrow> 's sink" where
  "set_sink sink output_sink = sink"

definition print_putc :: "'s sink \<Rightarrow> char \<Rightarrow> 's \<Rightarrow> 's" where
  "print_putc output_sink c s = emit output_sink c s"

definition print_write :: "'s sink \<Rightarrow> string option \<Rightarrow> 's \<Rightarrow> 's" where
  "print_write output_sink str s = emit_string output_sink str s"

text \<open>
  One conversion of \<open>kprintf\<close>: the conversion character and the length modifier, the argument
  slots left and the sink; the result is the slots left and the sink after it.
\<close>

definition kprintf_conversion ::
    "'s sink \<Rightarrow> bool \<Rightarrow> char \<Rightarrow> karg list \<Rightarrow> 's \<Rightarrow> print_error + karg list \<times> 's" where
  "kprintf_conversion output_sink long_modifier c ap s =
     (if c = CHR ''%'' then Inr (ap, emit output_sink CHR ''%'' s)
      else if c = CHR ''c'' then
        (case va_arg slot_32 ap of
           None \<Rightarrow> Inl ArgMismatch
         | Some (w, ap') \<Rightarrow> Inr (ap', emit output_sink (char_of (unat (ucast w :: u8))) s))
      else if c = CHR ''s'' then
        (case va_arg slot_string ap of
           None \<Rightarrow> Inl ArgMismatch
         | Some (str, ap') \<Rightarrow> Inr (ap', emit_string output_sink str s))
      else if c = CHR ''d'' then
        (if long_modifier then
           (case va_arg slot_64 ap of
              None \<Rightarrow> Inl ArgMismatch
            | Some (w, ap') \<Rightarrow> map_sum id (Pair ap') (emit_long output_sink w s))
         else
           (case va_arg slot_32 ap of
              None \<Rightarrow> Inl ArgMismatch
            | Some (w, ap') \<Rightarrow> map_sum id (Pair ap') (emit_signed output_sink w s)))
      else if c = CHR ''u'' then
        (if long_modifier then
           (case va_arg slot_64 ap of
              None \<Rightarrow> Inl ArgMismatch
            | Some (w, ap') \<Rightarrow> map_sum id (Pair ap') (emit_unsigned output_sink w 10 s))
         else
           (case va_arg slot_32 ap of
              None \<Rightarrow> Inl ArgMismatch
            | Some (w, ap') \<Rightarrow> map_sum id (Pair ap') (emit_unsigned output_sink (ucast w) 10 s)))
      else if c = CHR ''x'' then
        (if long_modifier then
           (case va_arg slot_64 ap of
              None \<Rightarrow> Inl ArgMismatch
            | Some (w, ap') \<Rightarrow> map_sum id (Pair ap') (emit_hex output_sink w s))
         else
           (case va_arg slot_32 ap of
              None \<Rightarrow> Inl ArgMismatch
            | Some (w, ap') \<Rightarrow> map_sum id (Pair ap') (emit_hex output_sink (ucast w) s)))
      else if c = CHR ''p'' then
        (case va_arg slot_64 ap of
           None \<Rightarrow> Inl ArgMismatch
         | Some (w, ap') \<Rightarrow> Inr (ap', emit_pointer output_sink w s))
      else
        Inr (ap, emit output_sink c
                   (if long_modifier
                    then emit output_sink CHR ''l'' (emit output_sink CHR ''%'' s)
                    else emit output_sink CHR ''%'' s)))"

text \<open>
  The main loop, on the characters from \<open>format\<close> to the end of the array that holds it, the terminating
  NUL included. Each \<open>++format\<close> drops a character; \<open>[]\<close> is the position past the array, and reading there
  is an error.
\<close>

fun kprintf_loop :: "'s sink \<Rightarrow> string \<Rightarrow> karg list \<Rightarrow> 's \<Rightarrow> print_error + 's" where
  "kprintf_loop output_sink [] ap s = Inl FormatOverread"
| "kprintf_loop output_sink (c # format) ap s =
     (if c = NUL then Inr s
      else if c \<noteq> CHR ''%'' then kprintf_loop output_sink format ap (emit output_sink c s)
      else case format of
        [] \<Rightarrow> Inl FormatOverread
      | l # format' \<Rightarrow>
          if l = NUL then Inr s
          else if l = CHR ''l'' then
            (case format' of
               [] \<Rightarrow> Inl FormatOverread
             | d # format'' \<Rightarrow>
                 (case kprintf_conversion output_sink True d ap s of
                    Inl e \<Rightarrow> Inl e
                  | Inr (ap', s') \<Rightarrow> kprintf_loop output_sink format'' ap' s'))
          else
            (case kprintf_conversion output_sink False l ap s of
               Inl e \<Rightarrow> Inl e
             | Inr (ap', s') \<Rightarrow> kprintf_loop output_sink format' ap' s'))"

definition kprintf :: "'s sink \<Rightarrow> string option \<Rightarrow> karg list \<Rightarrow> 's \<Rightarrow> print_error + 's" where
  "kprintf output_sink format ap s =
     (case format of None \<Rightarrow> Inr s | Some format \<Rightarrow> kprintf_loop output_sink (format @ [NUL]) ap s)"

section \<open>Argument types\<close>

text \<open>
  The types that \<open>va_arg\<close> names for the conversions and those of the arguments, without signedness: a
  read is undefined in C++ when they differ.
\<close>

datatype arg_type = Int32 | Int64 | Pointer | CString

fun type_of_arg :: "karg \<Rightarrow> arg_type" where
  "type_of_arg (Word w) = Int64"
| "type_of_arg (Ptr w) = Pointer"
| "type_of_arg (Half w) = Int32"
| "type_of_arg (CStr str) = CString"

definition conversion_type :: "bool \<Rightarrow> char \<Rightarrow> arg_type option" where
  "conversion_type long_modifier c =
     (if c = CHR ''c'' then Some Int32
      else if c = CHR ''s'' then Some CString
      else if c \<in> {CHR ''d'', CHR ''u'', CHR ''x''} then Some (if long_modifier then Int64 else Int32)
      else if c = CHR ''p'' then Some Pointer
      else None)"

text \<open>The types read and passed, where they differ, and the arguments left after a conversion.\<close>

definition conversion_mismatch :: "bool \<Rightarrow> char \<Rightarrow> karg list \<Rightarrow> (arg_type \<times> arg_type) list \<times> karg list" where
  "conversion_mismatch long_modifier c ap =
     (case conversion_type long_modifier c of
        None \<Rightarrow> ([], ap)
      | Some ty \<Rightarrow>
          (case ap of
             [] \<Rightarrow> ([], [])
           | a # ap' \<Rightarrow> (if type_of_arg a = ty then [] else [(ty, type_of_arg a)], ap')))"

fun type_mismatches :: "string \<Rightarrow> karg list \<Rightarrow> (arg_type \<times> arg_type) list" where
  "type_mismatches [] ap = []"
| "type_mismatches (c # format) ap =
     (if c = NUL then []
      else if c \<noteq> CHR ''%'' then type_mismatches format ap
      else case format of
        [] \<Rightarrow> []
      | l # format' \<Rightarrow>
          if l = NUL then []
          else if l = CHR ''l'' then
            (case format' of
               [] \<Rightarrow> []
             | d # format'' \<Rightarrow>
                 (case conversion_mismatch True d ap of (ts, ap') \<Rightarrow> ts @ type_mismatches format'' ap'))
          else (case conversion_mismatch False l ap of (ts, ap') \<Rightarrow> ts @ type_mismatches format' ap'))"

section \<open>Numerals\<close>

text \<open>The reference: the usual numeral of \<open>n\<close> in base \<open>b\<close>, most significant digit first.\<close>

function numeral_string :: "nat \<Rightarrow> nat \<Rightarrow> string" where
  "numeral_string b n =
     (if b < 2 \<or> n < b then [digits ! n] else numeral_string b (n div b) @ [digits ! (n mod b)])"
  by pat_completeness auto
termination
  by (relation "measure snd") auto

declare numeral_string.simps [simp del]

definition digit_value :: "char \<Rightarrow> nat" where
  "digit_value c = length (takeWhile (\<lambda>d. d \<noteq> c) digits)"

definition numeral_value :: "nat \<Rightarrow> string \<Rightarrow> nat" where
  "numeral_value b str = foldl (\<lambda>n c. n * b + digit_value c) 0 str"

lemma digit_value_digits: "n < 16 \<Longrightarrow> digit_value (digits ! n) = n"
proof -
  assume "n < 16"
  then have "n \<in> set [0..<16]" by simp
  moreover have "\<forall>n \<in> set [0..<16]. digit_value (digits ! n) = n" by (simp add: digit_value_def digits_def upt_rec)
  ultimately show ?thesis by blast
qed

lemma numeral_value_string: "2 \<le> b \<Longrightarrow> b \<le> 16 \<Longrightarrow> numeral_value b (numeral_string b n) = n"
proof (induction b n rule: numeral_string.induct)
  case (1 b n)
  have "n mod b < b" using "1.prems"(1) by simp
  then have "n mod b < 16" using "1.prems"(2) by linarith
  with 1 show ?case
    by (cases "n < b") (simp_all add: numeral_string.simps [of b n] numeral_value_def digit_value_digits)
qed

section \<open>Emission\<close>

lemma emit_chars_append: "emit_chars out (xs @ ys) s = emit_chars out ys (emit_chars out xs s)"
  by (induction xs arbitrary: s) simp_all

lemma emit_buffer_rev: "emit_buffer out buffer s = emit_chars out (rev buffer) s"
  by (induction buffer arbitrary: s rule: rev_induct) (simp_all add: emit_buffer.simps)

lemma emit_string_eq: "emit_string out str s = emit_chars out (case str of None \<Rightarrow> ''(null)'' | Some x \<Rightarrow> x) s"
  by (simp add: emit_string_def split: option.splits)

lemma unat_ucast_u32: "unat (ucast (b :: u32) :: u64) = unat b"
proof -
  have "unat b < 2 ^ 32" using unsigned_less [of b] by simp
  then show ?thesis by (simp add: unsigned_ucast_eq take_bit_nat_eq_self)
qed

lemma unsigned_digits_eq:
  assumes "2 \<le> unat base" "unat base \<le> 16"
  shows "value \<noteq> 0 \<Longrightarrow> unat value < unat base ^ (24 - length buffer) \<Longrightarrow>
    unsigned_digits value base buffer = Inr (buffer @ rev (numeral_string (unat base) (unat value)))"
proof (induction "24 - length buffer" arbitrary: "value" buffer)
  case 0
  then show ?case by (simp add: unat_eq_0)
next
  case (Suc k)
  let ?b = "unat base" and ?n = "unat value"
  let ?d = "digits ! (?n mod ?b)"
  have m: "unat (value mod ucast base) = ?n mod ?b" "unat (value div ucast base) = ?n div ?b"
    by (simp_all add: unat_mod unat_div unat_ucast_u32)
  have "?n mod ?b < ?b" using assms(1) by simp
  then have lt: "?n mod ?b < 16" using assms(2) by linarith
  have "base \<noteq> 0" "length buffer < 24" using assms(1) Suc.hyps(2) by auto
  then have step: "unsigned_digits value base buffer =
      unsigned_digits (value div ucast base) base (buffer @ [?d])"
    using Suc.prems(1) lt
    by (simp add: unsigned_digits.simps [of "value" base buffer] word_le_nat_alt m)
  show ?case
  proof (cases "?n < ?b")
    case True
    then have "value div ucast base = 0" using m(2) by (simp add: unat_eq_0)
    with True show ?thesis
      by (simp add: step unsigned_digits.simps [of 0] numeral_string.simps [of ?b ?n])
  next
    case False
    have "value div ucast base \<noteq> 0"
      using m(2) False assms(1) by (metis div_eq_0_iff unat_0 not_numeral_le_zero)
    moreover have k: "24 - length (buffer @ [?d]) = k" using Suc.hyps(2) by simp
    moreover have "?n div ?b < ?b ^ k"
      using Suc.prems(2) unfolding Suc.hyps(2) [symmetric] power_Suc2 by (rule less_mult_imp_div_less)
    ultimately have "unsigned_digits (value div ucast base) base (buffer @ [?d]) =
        Inr ((buffer @ [?d]) @ rev (numeral_string ?b (?n div ?b)))"
      using Suc.hyps(1) [of "buffer @ [?d]" "value div ucast base"] m(2) by simp
    then show ?thesis using False assms(1) by (simp add: step numeral_string.simps [of ?b ?n])
  qed
qed

lemma emit_unsigned_eq:
  assumes "10 \<le> unat base" "unat base \<le> 16"
  shows "emit_unsigned out value base s = Inr (emit_chars out (numeral_string (unat base) (unat value)) s)"
proof (cases "value = 0")
  case True
  have "digits ! 0 = CHR ''0''" by (simp add: digits_def)
  with True show ?thesis using assms by (simp add: emit_unsigned_def numeral_string.simps [of _ 0])
next
  case False
  have "unat value < 10 ^ 24" using u64_bound [of "value"] by simp
  also have "\<dots> \<le> unat base ^ 24" using assms(1) by (rule power_mono) simp
  finally show ?thesis
    using False assms unsigned_digits_eq [of base "value" "[]"] by (simp add: emit_unsigned_def emit_buffer_rev)
qed

lemma hex_digits_eq:
  "value \<noteq> 0 \<Longrightarrow> unat value < 16 ^ (16 - length buffer) \<Longrightarrow>
    hex_digits value buffer = Inr (buffer @ rev (numeral_string 16 (unat value)))"
proof (induction "16 - length buffer" arbitrary: "value" buffer)
  case 0
  then show ?case by (simp add: unat_eq_0)
next
  case (Suc k)
  let ?n = "unat value"
  let ?d = "digits ! (?n mod 16)"
  have m: "unat (value AND 0xF) = ?n mod 16" "unat (drop_bit 4 value) = ?n div 16"
    by (simp_all add: and_0xF unat_take_bit unat_drop_bit)
  have "length buffer < 16" using Suc.hyps(2) by simp
  then have step: "hex_digits value buffer = hex_digits (drop_bit 4 value) (buffer @ [?d])"
    using Suc.prems(1) by (simp add: hex_digits.simps [of "value" buffer] m)
  show ?case
  proof (cases "?n < 16")
    case True
    then have "drop_bit 4 value = 0" using m(2) by (simp add: unat_eq_0)
    with True show ?thesis by (simp add: step hex_digits.simps [of 0] numeral_string.simps [of 16 ?n])
  next
    case False
    have "drop_bit 4 value \<noteq> 0"
      using m(2) False by (metis div_eq_0_iff unat_0 zero_neq_numeral)
    moreover have k: "16 - length (buffer @ [?d]) = k" using Suc.hyps(2) by simp
    moreover have "?n div 16 < 16 ^ k"
      using Suc.prems(2) unfolding Suc.hyps(2) [symmetric] power_Suc2 by (rule less_mult_imp_div_less)
    ultimately have "hex_digits (drop_bit 4 value) (buffer @ [?d]) =
        Inr ((buffer @ [?d]) @ rev (numeral_string 16 (?n div 16)))"
      using Suc.hyps(1) [of "buffer @ [?d]" "drop_bit 4 value"] m(2) by simp
    then show ?thesis using False by (simp add: step numeral_string.simps [of 16 ?n])
  qed
qed

lemma emit_hex_eq: "emit_hex out value s = Inr (emit_chars out (numeral_string 16 (unat value)) s)"
proof (cases "value = 0")
  case True
  have "digits ! 0 = CHR ''0''" by (simp add: digits_def)
  with True show ?thesis by (simp add: emit_hex_def numeral_string.simps [of _ 0])
next
  case False
  then show ?thesis
    using u64_bound [of "value"] hex_digits_eq [of "value" "[]"] by (simp add: emit_hex_def emit_buffer_rev)
qed

text \<open>The decimal numeral of a signed value.\<close>

definition signed_string :: "int \<Rightarrow> string" where
  "signed_string i = (if i < 0 then CHR ''-'' # numeral_string 10 (nat (- i)) else numeral_string 10 (nat i))"

lemma magnitude_eq: "unat (- (v + 1) + 1 :: 'a::len word) = unat (- v)"
  by simp

lemma sint_neg_magnitude:
  assumes "sint (v :: 'a::len word) < 0"
  shows "int (unat (- v)) = - sint v"
proof -
  have "- sint v \<le> 2 ^ (LENGTH('a) - 1)" using sint_greater_eq [of v] by simp
  also have "(2 :: int) ^ (LENGTH('a) - 1) < 2 ^ LENGTH('a)" by (rule power_strict_increasing) simp_all
  finally have "- sint v < 2 ^ LENGTH('a)" .
  moreover have "- v = of_int (- sint v)" by simp
  then have "uint (- v) = (- sint v) mod 2 ^ LENGTH('a)" by (metis uint_word_of_int)
  ultimately show ?thesis using assms by simp
qed

lemma ten_u32: "unat (10 :: u32) = 10"
  by simp

lemma emit_decimal: "emit_unsigned out value 10 s = Inr (emit_chars out (numeral_string 10 (unat value)) s)"
  using emit_unsigned_eq [of 10 out "value" s] by simp

lemma sint_nonneg_unat: "\<not> sint (v :: 'a::len word) < 0 \<Longrightarrow> nat (sint v) = unat v"
proof -
  assume "\<not> sint v < 0"
  moreover have "sint v < 2 ^ (LENGTH('a) - 1)" using sint_lt [of v] by simp
  moreover have "(2 :: int) ^ (LENGTH('a) - 1) < 2 ^ LENGTH('a)" by (rule power_strict_increasing) simp_all
  moreover have "uint v = sint v mod 2 ^ LENGTH('a)"
    using uint_word_of_int [of "sint v", where 'a = 'a] by simp
  ultimately have "uint v = sint v" by (metis mod_pos_pos_trivial not_less order.strict_trans)
  then show ?thesis by (metis nat_int uint_nat)
qed

lemma negative_string:
  "sint (v :: 'a::len word) < 0 \<Longrightarrow> signed_string (sint v) = CHR ''-'' # numeral_string 10 (unat (- v))"
proof -
  assume n: "sint v < 0"
  then have "nat (- sint v) = unat (- v)" by (metis sint_neg_magnitude nat_int)
  with n show ?thesis by (simp add: signed_string_def)
qed

lemma emit_long_eq: "emit_long out value s = Inr (emit_chars out (signed_string (sint value)) s)"
proof (cases "sint value < 0")
  case True
  then show ?thesis by (simp add: emit_long_def emit_decimal negative_string)
next
  case False
  then show ?thesis using sint_nonneg_unat [OF False] by (simp add: emit_long_def emit_decimal signed_string_def)
qed

lemma emit_signed_eq: "emit_signed out value s = Inr (emit_chars out (signed_string (sint value)) s)"
proof (cases "sint value < 0")
  case True
  then show ?thesis by (simp add: emit_signed_def emit_decimal negative_string unat_ucast_u32)
next
  case False
  then show ?thesis
    using sint_nonneg_unat [OF False] by (simp add: emit_signed_def emit_decimal signed_string_def unat_ucast_u32)
qed

lemma emit_pointer_digits_eq:
  "emit_pointer_digits out value n s =
     emit_chars out (map (\<lambda>i. digits ! (unat value div 16 ^ i mod 16)) (rev [0..<n])) s"
proof (induction n arbitrary: s)
  case (Suc n)
  have "(2 :: nat) ^ (n * 4) = 16 ^ n" by (simp add: mult.commute [of n 4] power_mult)
  then have "unat (drop_bit (n * 4) value AND 0xF) = unat value div 16 ^ n mod 16"
    by (simp add: and_0xF unat_take_bit unat_drop_bit)
  then show ?case using Suc by simp
qed simp

section \<open>Rendering\<close>

text \<open>What a conversion and a whole format string print, as strings.\<close>

definition pointer_string :: "u64 \<Rightarrow> string" where
  "pointer_string w = ''0x'' @ map (\<lambda>i. digits ! (unat w div 16 ^ i mod 16)) (rev [0..<16])"

definition render_conversion :: "bool \<Rightarrow> char \<Rightarrow> karg list \<Rightarrow> print_error + karg list \<times> string" where
  "render_conversion long_modifier c ap =
     (case conversion_type long_modifier c of
        None \<Rightarrow> Inr (ap, if c = CHR ''%'' then ''%'' else if long_modifier then [CHR ''%'', CHR ''l'', c] else [CHR ''%'', c])
      | Some CString \<Rightarrow>
          (case va_arg slot_string ap of
             None \<Rightarrow> Inl ArgMismatch
           | Some (str, ap') \<Rightarrow> Inr (ap', case str of None \<Rightarrow> ''(null)'' | Some x \<Rightarrow> x))
      | Some Int32 \<Rightarrow>
          (case va_arg slot_32 ap of
             None \<Rightarrow> Inl ArgMismatch
           | Some (w, ap') \<Rightarrow>
               Inr (ap',
                 if c = CHR ''c'' then [char_of (unat (ucast w :: u8))]
                 else if c = CHR ''d'' then signed_string (sint w)
                 else numeral_string (if c = CHR ''u'' then 10 else 16) (unat w)))
      | Some ty \<Rightarrow>
          (case va_arg slot_64 ap of
             None \<Rightarrow> Inl ArgMismatch
           | Some (w, ap') \<Rightarrow>
               Inr (ap',
                 if c = CHR ''p'' then pointer_string w
                 else if c = CHR ''d'' then signed_string (sint w)
                 else numeral_string (if c = CHR ''u'' then 10 else 16) (unat w))))"

fun render :: "string \<Rightarrow> karg list \<Rightarrow> print_error + string" where
  "render [] ap = Inr []"
| "render (c # format) ap =
     (if c = NUL then Inr []
      else if c \<noteq> CHR ''%'' then map_sum id ((#) c) (render format ap)
      else case format of
        [] \<Rightarrow> Inr []
      | l # format' \<Rightarrow>
          if l = NUL then Inr []
          else if l = CHR ''l'' then
            (case format' of
               [] \<Rightarrow> Inl FormatOverread
             | d # format'' \<Rightarrow>
                 (case render_conversion True d ap of
                    Inl e \<Rightarrow> Inl e
                  | Inr (ap', str) \<Rightarrow> map_sum id ((@) str) (render format'' ap')))
          else
            (case render_conversion False l ap of
               Inl e \<Rightarrow> Inl e
             | Inr (ap', str) \<Rightarrow> map_sum id ((@) str) (render format' ap')))"

lemma kprintf_conversion_eq:
  "kprintf_conversion out long_modifier c ap s =
     map_sum id (\<lambda>(ap', str). (ap', emit_chars out str s)) (render_conversion long_modifier c ap)"
proof -
  have p: "emit_pointer out w s = emit_chars out (pointer_string w) s" for w
    by (simp add: emit_pointer_def emit_pointer_digits_eq pointer_string_def)
  show ?thesis
    by (auto simp: kprintf_conversion_def render_conversion_def conversion_type_def emit_decimal emit_hex_eq emit_signed_eq
        emit_long_eq emit_string_eq p unat_ucast_u32 split: option.splits)
qed

text \<open>After \<open>%l\<close> at the end of the string the NUL itself is taken for the conversion.\<close>

lemma kprintf_loop_eq:
  "kprintf_loop out (format @ [NUL]) ap s = map_sum id (\<lambda>str. emit_chars out str s) (render format ap)"
proof (induction format ap arbitrary: s rule: render.induct)
  case (2 c format ap)
  note IH = "2.IH"
  consider "c = NUL" | "c \<noteq> NUL" "c \<noteq> CHR ''%''" | "c = CHR ''%''" "format = []" | rest where "c = CHR ''%''" "format = NUL # rest"
    | d rest where "c = CHR ''%''" "format = d # rest" "d \<noteq> NUL" "d \<noteq> CHR ''l''"
    | "c = CHR ''%''" "format = [CHR ''l'']" | d rest where "c = CHR ''%''" "format = CHR ''l'' # d # rest"
    by (metis list.exhaust)
  then show ?case
  proof cases
    case 2
    then show ?thesis using IH(1) by (cases "render format ap") simp_all
  next
    case (5 d rest)
    then show ?thesis
      using IH(3) [of d rest]
      by (cases "render_conversion False d ap")
        (auto simp: kprintf_conversion_eq sum.map_comp comp_def emit_chars_append split: prod.splits)
  next
    case 6
    then show ?thesis by (simp add: kprintf_conversion_eq render_conversion_def conversion_type_def)
  next
    case (7 d rest)
    then show ?thesis
      using IH(2) [of "CHR ''l''" "d # rest" d rest]
      by (cases "render_conversion True d ap")
        (auto simp: kprintf_conversion_eq sum.map_comp comp_def emit_chars_append split: prod.splits)
  qed simp_all
qed simp

text \<open>A piece of a format without conversions and without NUL.\<close>

definition plain :: "string \<Rightarrow> bool" where
  "plain xs \<longleftrightarrow> CHR ''%'' \<notin> set xs \<and> NUL \<notin> set xs"

lemma plain_simps [simp]: "plain []" "plain (c # xs) \<longleftrightarrow> c \<noteq> CHR ''%'' \<and> c \<noteq> NUL \<and> plain xs"
  by (auto simp: plain_def)

lemma render_append_plain: "plain xs \<Longrightarrow> render (xs @ ys) ap = map_sum id ((@) xs) (render ys ap)"
  by (cases "render ys ap"; induction xs) auto

lemma mismatches_append_plain: "plain xs \<Longrightarrow> type_mismatches (xs @ ys) ap = type_mismatches ys ap"
  by (induction xs) auto

lemma kprintf_loop_append_plain:
  "plain xs \<Longrightarrow> kprintf_loop out (xs @ ys) ap s = kprintf_loop out ys ap (emit_chars out xs s)"
  by (induction xs arbitrary: s) simp_all

lemmas print_conversions = render_conversion_def conversion_mismatch_def conversion_type_def va_arg_def

section \<open>The sink's contract\<close>

text \<open>
  What a sink promises its clients: while it is ready, a character appends its encoding to the
  output and leaves the sink ready. A whole \<open>kprintf\<close> then appends the encoding of the rendering.
\<close>

locale char_sink =
  fixes putc :: "char \<Rightarrow> 's \<Rightarrow> 's"
    and ready :: "'s \<Rightarrow> bool"
    and outputs :: "'s \<Rightarrow> 'o list"
    and encode :: "char \<Rightarrow> 'o list"
  assumes putc_ready: "ready s \<Longrightarrow> ready (putc c s)"
    and putc_outputs: "ready s \<Longrightarrow> outputs (putc c s) = outputs s @ encode c"
begin

lemma emit_ready: "ready s \<Longrightarrow> ready (emit_chars (Some putc) str s)"
  by (induction str arbitrary: s) (simp_all add: emit_def putc_ready)

lemma emit_outputs: "ready s \<Longrightarrow> outputs (emit_chars (Some putc) str s) = outputs s @ concat (map encode str)"
  by (induction str arbitrary: s) (simp_all add: emit_def putc_ready putc_outputs)

lemma kprintf_outputs:
  assumes "ready s" "render format ap = Inr str"
  shows "\<exists>t. kprintf (Some putc) (Some format) ap s = Inr t \<and> ready t \<and> outputs t = outputs s @ concat (map encode str)"
  using assms by (simp add: kprintf_def kprintf_loop_eq emit_ready emit_outputs)

end

section \<open>Properties\<close>

text \<open>
  C38: \<open>kprintf\<close> is the reference rendering followed by character-wise output: for every sink,
  format and argument list it sends exactly the rendered string to the sink, or fails exactly when
  the rendering does. The rendering prints numbers as their usual numerals.
\<close>

theorem kprintf_renders:
  "kprintf out format ap s =
     (case format of None \<Rightarrow> Inr s | Some f \<Rightarrow> map_sum id (\<lambda>str. emit_chars out str s) (render f ap))"
  by (simp add: kprintf_def kprintf_loop_eq split: option.splits)

text \<open>
  The digit routines never overrun their stack buffers and print the right number: for a base
  from 10 to 16 \<open>emit_unsigned\<close> sends the numeral of its argument, whose value read back in that
  base is the argument; \<open>emit_hex\<close> does so in base 16 and \<open>emit_signed\<close> for every 32-bit value,
  the least one included.
\<close>

theorem digits_roundtrip:
  assumes "10 \<le> unat base" "unat base \<le> 16"
  shows "\<exists>str. emit_unsigned out value base s = Inr (emit_chars out str s) \<and> numeral_value (unat base) str = unat value \<and>
    (\<exists>hex. emit_hex out value s = Inr (emit_chars out hex s) \<and> numeral_value 16 hex = unat value) \<and>
    (\<exists>dec. emit_signed out i s = Inr (emit_chars out (if sint i < 0 then CHR ''-'' # dec else dec) s) \<and>
       int (numeral_value 10 dec) = \<bar>sint i\<bar>)"
proof -
  let ?dec = "numeral_string 10 (nat \<bar>sint i\<bar>)"
  show ?thesis
  proof (intro exI conjI)
    show "emit_unsigned out value base s = Inr (emit_chars out (numeral_string (unat base) (unat value)) s)"
      by (rule emit_unsigned_eq [OF assms])
    show "emit_hex out value s = Inr (emit_chars out (numeral_string 16 (unat value)) s)" by (rule emit_hex_eq)
    show "emit_signed out i s = Inr (emit_chars out (if sint i < 0 then CHR ''-'' # ?dec else ?dec) s)"
      unfolding emit_signed_eq signed_string_def by simp
  qed (use assms in \<open>simp_all add: numeral_value_string\<close>)
qed

text \<open>
  C39: a format string that ends in \<open>%l\<close> is read past its terminating NUL. After the text before it and
  the characters \<open>%\<close>, \<open>l\<close> and the NUL itself have been sent to the sink, the loop goes on with whatever
  follows the string in memory as if it were format: with the array as it stands in memory, the string,
  its NUL and the rest, the result is that of the loop on the rest. For the string alone this is a read
  past its array.
\<close>

theorem kprintf_overreads_trailing_length_modifier:
  assumes "plain text"
  shows "kprintf_loop out (text @ ''%l'' @ NUL # rest) ap s =
      kprintf_loop out rest ap (emit_chars out (text @ ''%l'' @ [NUL]) s) \<and>
    kprintf out (Some (text @ ''%l'')) ap s = Inl FormatOverread"
  using assms by (simp add: kprintf_def kprintf_loop_append_plain emit_chars_append kprintf_conversion_def)

theorem kprintf_overreads_trailing_length_modifier_witness:
  "kprintf_loop (Some (\<lambda>c str. str @ [c])) (''size=%l'' @ NUL # ''key'' @ [NUL]) [] [] = Inr (''size=%l'' @ NUL # ''key'') \<and>
   kprintf None (Some ''size=%l'') [] () = Inl FormatOverread"
  using kprintf_overreads_trailing_length_modifier [of "''size=''" "Some (\<lambda>c str. str @ [c])" "''key'' @ [NUL]" "[]" "[]"]
    kprintf_overreads_trailing_length_modifier [of "''size=''" None "[]" "[]" "()"] by (simp add: emit_def)

end
