(* ===== verification/Paging.thy ===== *)
theory Paging
  imports Prelude
begin

text \<open>
  The page-table vocabulary of \<open>src/src/mm/vmm.hpp\<close>: constants, entry flags, entry encoding,
  virtual-address decomposition and reassembly, the canonical-address check and
  \<open>align_up\<close>. Everything here is a \<open>constexpr\<close> function of the header, so the model is a set
  of pure functions on words of the source's widths.
\<close>

section \<open>Constants and flags\<close>

definition kPageTableEntries :: u64 where
  "kPageTableEntries = 512"

definition kPageSize :: u64 where
  "kPageSize = 4096"

definition kLargePageSize :: u64 where
  "kLargePageSize = 2 * 1024 * 1024"

definition align_up :: "u64 \<Rightarrow> u64 \<Rightarrow> u64" where
  "align_up value alignment = (value + alignment - 1) AND NOT (alignment - 1)"

text \<open>
  \<open>enum class PageFlags : uint64_t\<close>. Combinations of enumerators are values of the type too,
  so the type is the underlying integer and every enumerator a constant.
\<close>

type_synonym PageFlags = u64

definition PF_None :: PageFlags where "PF_None = 0"
definition PF_Present :: PageFlags where "PF_Present = push_bit 0 1"
definition PF_Writable :: PageFlags where "PF_Writable = push_bit 1 1"
definition PF_User :: PageFlags where "PF_User = push_bit 2 1"
definition PF_Accessed :: PageFlags where "PF_Accessed = push_bit 5 1"
definition PF_Dirty :: PageFlags where "PF_Dirty = push_bit 6 1"
definition PF_Huge :: PageFlags where "PF_Huge = push_bit 7 1"
definition PF_Global :: PageFlags where "PF_Global = push_bit 8 1"
definition PF_NoExecute :: PageFlags where "PF_NoExecute = push_bit 63 1"

lemmas PF_defs = PF_None_def PF_Present_def PF_Writable_def PF_User_def PF_Accessed_def
  PF_Dirty_def PF_Huge_def PF_Global_def PF_NoExecute_def

definition flags_or :: "PageFlags \<Rightarrow> PageFlags \<Rightarrow> PageFlags" where
  "flags_or lhs rhs = lhs OR rhs"

definition flags_or_assign :: "PageFlags \<Rightarrow> PageFlags \<Rightarrow> PageFlags" where
  [simp]: "flags_or_assign lhs rhs = flags_or lhs rhs"

definition flags_and :: "PageFlags \<Rightarrow> PageFlags \<Rightarrow> PageFlags" where
  "flags_and lhs rhs = lhs AND rhs"

section \<open>Page-table entries\<close>

definition kPhysicalAddressMask :: u64 where
  "kPhysicalAddressMask = 0x000FFFFFFFFFF000"

definition make_page_entry :: "u64 \<Rightarrow> PageFlags \<Rightarrow> u64" where
  "make_page_entry physical_address flags = (physical_address AND kPhysicalAddressMask) OR flags"

definition page_entry_address :: "u64 \<Rightarrow> u64" where
  "page_entry_address entry = entry AND kPhysicalAddressMask"

definition page_entry_flags :: "u64 \<Rightarrow> PageFlags" where
  "page_entry_flags entry = entry AND NOT kPhysicalAddressMask"

section \<open>Virtual addresses\<close>

record VirtualAddress =
  pml4_index :: u16
  pdpt_index :: u16
  pd_index :: u16
  pt_index :: u16
  offset :: u16

definition decompose_address :: "u64 \<Rightarrow> VirtualAddress" where
  "decompose_address address =
     \<lparr> pml4_index = ucast (drop_bit 39 address AND 0x1FF),
       pdpt_index = ucast (drop_bit 30 address AND 0x1FF),
       pd_index = ucast (drop_bit 21 address AND 0x1FF),
       pt_index = ucast (drop_bit 12 address AND 0x1FF),
       offset = ucast (address AND 0xFFF) \<rparr>"

definition reassemble_address :: "VirtualAddress \<Rightarrow> u64" where
  "reassemble_address address =
     (let result =
        push_bit 39 (ucast (pml4_index address)) OR
        push_bit 30 (ucast (pdpt_index address)) OR
        push_bit 21 (ucast (pd_index address)) OR
        push_bit 12 (ucast (pt_index address)) OR
        ucast (offset address)
      in if result AND push_bit 47 1 \<noteq> 0 then result OR 0xFFFF000000000000 else result)"

definition is_canonical :: "u64 \<Rightarrow> bool" where
  "is_canonical address =
     (let upper = drop_bit 48 address;
          sign = drop_bit 47 address AND 1
      in if sign = 0 then upper = 0 else upper = 0xFFFF)"

section \<open>Entries: bit-level facts\<close>

lemma bit_kPhysicalAddressMask: "bit kPhysicalAddressMask n \<longleftrightarrow> 12 \<le> n \<and> n < 52"
proof -
  have eq: "kPhysicalAddressMask = push_bit 12 (mask 40)"
    by (simp add: kPhysicalAddressMask_def mask_eq_exp_minus_1)
  show ?thesis unfolding eq by (auto simp: bit_simps)
qed

lemma bit_page_entry_address: "bit (page_entry_address e) n \<longleftrightarrow> bit e n \<and> 12 \<le> n \<and> n < 52"
  by (simp add: page_entry_address_def bit_simps bit_kPhysicalAddressMask)

lemma bit_make_page_entry:
  "bit (make_page_entry p f) n \<longleftrightarrow> bit p n \<and> 12 \<le> n \<and> n < 52 \<or> bit f n"
  by (auto simp: make_page_entry_def bit_simps bit_kPhysicalAddressMask)

text \<open>Flags that do not reach into the address field of an entry.\<close>

definition flags_only :: "PageFlags \<Rightarrow> bool" where
  "flags_only f \<longleftrightarrow> f AND kPhysicalAddressMask = 0"

lemma flags_only_bit: "flags_only f \<longleftrightarrow> (\<forall>n. 12 \<le> n \<longrightarrow> n < 52 \<longrightarrow> \<not> bit f n)"
proof
  assume "flags_only f"
  then have no: "\<not> bit (f AND kPhysicalAddressMask) n" for n
    by (simp add: flags_only_def)
  show "\<forall>n. 12 \<le> n \<longrightarrow> n < 52 \<longrightarrow> \<not> bit f n"
    using no unfolding bit_and_iff bit_kPhysicalAddressMask by blast
next
  assume "\<forall>n. 12 \<le> n \<longrightarrow> n < 52 \<longrightarrow> \<not> bit f n"
  then show "flags_only f"
    unfolding flags_only_def by (intro bit_word_eqI) (auto simp: bit_simps bit_kPhysicalAddressMask)
qed

lemma flags_only_or: "flags_only f \<Longrightarrow> flags_only g \<Longrightarrow> flags_only (f OR g)"
  by (simp add: flags_only_bit bit_simps)

lemma bit_PF [simp]:
  "\<not> bit PF_None n" "bit PF_Present n \<longleftrightarrow> n = 0" "bit PF_Writable n \<longleftrightarrow> n = 1"
  "bit PF_User n \<longleftrightarrow> n = 2" "bit PF_Accessed n \<longleftrightarrow> n = 5" "bit PF_Dirty n \<longleftrightarrow> n = 6"
  "bit PF_Huge n \<longleftrightarrow> n = 7" "bit PF_Global n \<longleftrightarrow> n = 8" "bit PF_NoExecute n \<longleftrightarrow> n = 63"
  unfolding PF_defs bit_push_bit_iff bit_1_iff by auto

lemma flags_only_PF [simp]:
  "flags_only PF_None" "flags_only PF_Present" "flags_only PF_Writable" "flags_only PF_User"
  "flags_only PF_Accessed" "flags_only PF_Dirty" "flags_only PF_Huge" "flags_only PF_Global"
  "flags_only PF_NoExecute"
  by (simp_all add: flags_only_bit)

lemma page_entry_address_make:
  assumes "flags_only f"
  shows "page_entry_address (make_page_entry p f) = p AND kPhysicalAddressMask"
  using assms
  by (intro bit_word_eqI)
    (auto simp: flags_only_bit bit_simps bit_page_entry_address bit_make_page_entry bit_kPhysicalAddressMask)

lemma page_aligned_page_entry_address [simp]: "page_aligned (page_entry_address e)"
  unfolding page_aligned_def
  by (rule bit_word_eqI) (simp add: bit_simps bit_page_entry_address)

section \<open>Address fields\<close>

lemma decompose_fields:
  "pml4_index (decompose_address a) = ucast (take_bit 9 (drop_bit 39 a))"
  "pdpt_index (decompose_address a) = ucast (take_bit 9 (drop_bit 30 a))"
  "pd_index (decompose_address a) = ucast (take_bit 9 (drop_bit 21 a))"
  "pt_index (decompose_address a) = ucast (take_bit 9 (drop_bit 12 a))"
  "offset (decompose_address a) = ucast (take_bit 12 a)"
  by (simp_all add: decompose_address_def mask_simps)

lemma index_of_decompose:
  "ucast (pml4_index (decompose_address a)) = take_bit 9 (drop_bit 39 a)"
  "ucast (pdpt_index (decompose_address a)) = take_bit 9 (drop_bit 30 a)"
  "ucast (pd_index (decompose_address a)) = take_bit 9 (drop_bit 21 a)"
  "ucast (pt_index (decompose_address a)) = take_bit 9 (drop_bit 12 a)"
  "ucast (offset (decompose_address a)) = take_bit 12 a"
  by (simp_all add: decompose_fields ucast_ucast_take_bit)

lemma ucast_take_bit_bound: "m < 16 \<Longrightarrow> (ucast (take_bit m (x :: u64)) :: u16) < 2 ^ m"
proof -
  assume m: "m < 16"
  have "unat (ucast (take_bit m x) :: u16) = take_bit LENGTH(16) (unat (take_bit m x))"
    by (rule unsigned_ucast_eq)
  also have "\<dots> = unat x mod 2 ^ m mod 2 ^ 16"
    by (simp only: unat_take_bit take_bit_eq_mod [where 'a = nat]) simp
  also have "\<dots> \<le> unat x mod 2 ^ m" by (rule mod_less_eq_dividend)
  also have "\<dots> < 2 ^ m" by simp
  finally show ?thesis
    using m by (simp add: word_less_nat_alt unat_exp)
qed

lemma index_bounds [simp]:
  "pml4_index (decompose_address a) < 512"
  "pdpt_index (decompose_address a) < 512"
  "pd_index (decompose_address a) < 512"
  "pt_index (decompose_address a) < 512"
  "offset (decompose_address a) < 4096"
  using ucast_take_bit_bound [of 9] ucast_take_bit_bound [of 12]
  by (simp_all add: decompose_fields)

lemma fields_join:
  "push_bit 39 (take_bit 9 (drop_bit 39 a)) OR push_bit 30 (take_bit 9 (drop_bit 30 a)) OR
   push_bit 21 (take_bit 9 (drop_bit 21 a)) OR push_bit 12 (take_bit 9 (drop_bit 12 a)) OR
   take_bit 12 a = take_bit 48 (a :: u64)"
  using join_field [of 12 9 a] join_field [of 21 9 a] join_field [of 30 9 a] join_field [of 39 9 a]
  by (simp add: or.assoc)

lemma drop_bit_48_eq_iff:
  assumes "\<And>n. 16 \<le> n \<Longrightarrow> \<not> bit c n"
  shows "drop_bit 48 (a :: u64) = c \<longleftrightarrow> (\<forall>n. 48 \<le> n \<longrightarrow> n < 64 \<longrightarrow> bit a n = bit c (n - 48))"
proof
  assume eq: "drop_bit 48 a = c"
  show "\<forall>n. 48 \<le> n \<longrightarrow> n < 64 \<longrightarrow> bit a n = bit c (n - 48)"
    by (simp add: eq [symmetric] bit_drop_bit_eq)
next
  assume h: "\<forall>n. 48 \<le> n \<longrightarrow> n < 64 \<longrightarrow> bit a n = bit c (n - 48)"
  show "drop_bit 48 a = c"
  proof (rule bit_word_eqI)
    fix n
    show "bit (drop_bit 48 a) n = bit c n"
    proof (cases "n < 16")
      case True
      with h [rule_format, of "48 + n"] show ?thesis by (simp add: bit_drop_bit_eq)
    next
      case False
      then show ?thesis
        using assms [of n] bit_imp_le_length [of a "48 + n"] by (auto simp: bit_drop_bit_eq)
    qed
  qed
qed

lemma is_canonical_bits:
  "is_canonical a \<longleftrightarrow> (\<forall>n. 48 \<le> n \<longrightarrow> n < 64 \<longrightarrow> bit a n = bit a 47)"
proof -
  have m16: "bit (0xFFFF :: u64) n \<longleftrightarrow> n < 16" for n
  proof -
    have "(0xFFFF :: u64) = mask 16" by (simp add: mask_eq_exp_minus_1)
    then show ?thesis by (simp only: bit_mask_iff) auto
  qed
  have s: "drop_bit 47 a AND 1 = 0 \<longleftrightarrow> \<not> bit a 47"
    by (simp add: and_one_eq even_drop_bit_iff_not_bit mod_2_eq_odd)
  have z: "drop_bit 48 a = 0 \<longleftrightarrow> (\<forall>n. 48 \<le> n \<longrightarrow> n < 64 \<longrightarrow> \<not> bit a n)"
    by (subst drop_bit_48_eq_iff) simp_all
  have o: "drop_bit 48 a = 0xFFFF \<longleftrightarrow> (\<forall>n. 48 \<le> n \<longrightarrow> n < 64 \<longrightarrow> bit a n)"
    using drop_bit_48_eq_iff [of "0xFFFF" a] unfolding m16 by auto
  show ?thesis
    unfolding is_canonical_def Let_def s z o by auto
qed

lemma reassemble_eq:
  "reassemble_address v =
     (let low = push_bit 39 (ucast (pml4_index v)) OR push_bit 30 (ucast (pdpt_index v)) OR
                push_bit 21 (ucast (pd_index v)) OR push_bit 12 (ucast (pt_index v)) OR
                ucast (offset v)
      in if bit low 47 then low OR push_bit 48 (mask 16) else low)"
proof -
  have "(0xFFFF000000000000 :: u64) = push_bit 48 (mask 16)"
    by (simp add: mask_eq_exp_minus_1)
  then show ?thesis
    by (simp only: reassemble_address_def Let_def bit_and_one_iff)
qed

lemma reassemble_decompose:
  assumes "is_canonical a"
  shows "reassemble_address (decompose_address a) = a"
proof -
  have "reassemble_address (decompose_address a) =
          (if bit a 47 then take_bit 48 a OR push_bit 48 (mask 16) else take_bit 48 a)"
    by (simp only: reassemble_eq Let_def index_of_decompose fields_join bit_take_bit_iff) simp
  also have "\<dots> = a"
  proof (rule bit_word_eqI)
    fix n
    assume "n < LENGTH(64)"
    then show "bit (if bit a 47 then take_bit 48 a OR push_bit 48 (mask 16) else take_bit 48 a) n = bit a n"
      using assms by (cases "n < 48") (auto simp: is_canonical_bits bit_simps)
  qed
  finally show ?thesis .
qed

text \<open>Reassembly of in-range fields: the fields do not overlap.\<close>

definition va_in_range :: "VirtualAddress \<Rightarrow> bool" where
  "va_in_range v \<longleftrightarrow> pml4_index v < 512 \<and> pdpt_index v < 512 \<and> pd_index v < 512 \<and>
     pt_index v < 512 \<and> offset v < 4096"

lemma u16_high_bits:
  assumes "(x :: u16) < 2 ^ m" "m < 16" "m \<le> n"
  shows "\<not> bit x n"
proof -
  have "unat x < 2 ^ m"
    using assms(1,2) by (simp add: word_less_nat_alt unat_exp)
  then have "take_bit m x = x" by (rule take_bit_less_self)
  then have "bit x n = (n < m \<and> bit x n)"
    by (metis bit_take_bit_iff)
  with assms(3) show ?thesis by simp
qed

lemma va_in_range_bits:
  assumes "va_in_range v"
  shows "9 \<le> n \<Longrightarrow> \<not> bit (pml4_index v) n" "9 \<le> n \<Longrightarrow> \<not> bit (pdpt_index v) n"
    "9 \<le> n \<Longrightarrow> \<not> bit (pd_index v) n" "9 \<le> n \<Longrightarrow> \<not> bit (pt_index v) n"
    "12 \<le> n \<Longrightarrow> \<not> bit (offset v) n"
  using assms u16_high_bits [of _ 9 n] u16_high_bits [of _ 12 n] by (simp_all add: va_in_range_def)

definition va_low :: "VirtualAddress \<Rightarrow> u64" where
  "va_low v = push_bit 39 (ucast (pml4_index v)) OR push_bit 30 (ucast (pdpt_index v)) OR
     push_bit 21 (ucast (pd_index v)) OR push_bit 12 (ucast (pt_index v)) OR ucast (offset v)"

lemma bit_va_low:
  assumes "va_in_range v"
  shows "bit (va_low v) n \<longleftrightarrow>
     (if n < 12 then bit (offset v) n else if n < 21 then bit (pt_index v) (n - 12)
      else if n < 30 then bit (pd_index v) (n - 21) else if n < 39 then bit (pdpt_index v) (n - 30)
      else bit (pml4_index v) (n - 39) \<and> n < 48)"
proof -
  note hi = va_in_range_bits [OF assms]
  have base: "bit (va_low v) n \<longleftrightarrow>
     n < 64 \<and> (39 \<le> n \<and> bit (pml4_index v) (n - 39) \<or> 30 \<le> n \<and> bit (pdpt_index v) (n - 30) \<or>
       21 \<le> n \<and> bit (pd_index v) (n - 21) \<or> 12 \<le> n \<and> bit (pt_index v) (n - 12) \<or>
       bit (offset v) n)"
    unfolding va_low_def by (auto simp: bit_simps dest: bit_imp_le_length)
  consider "n < 12" | "12 \<le> n" "n < 21" | "21 \<le> n" "n < 30" | "30 \<le> n" "n < 39"
    | "39 \<le> n" "n < 48" | "48 \<le> n" by linarith
  then show ?thesis
    by cases (simp_all add: base hi)
qed

lemma reassemble_va_low:
  "reassemble_address v = (if bit (va_low v) 47 then va_low v OR push_bit 48 (mask 16) else va_low v)"
  by (simp only: reassemble_eq va_low_def Let_def)

lemma bit_reassemble:
  assumes "va_in_range v" "n < 64"
  shows "bit (reassemble_address v) n \<longleftrightarrow> (if n < 48 then bit (va_low v) n else bit (va_low v) 47)"
  using assms(2) bit_va_low [OF assms(1), of n]
  by (auto simp: reassemble_va_low bit_simps)

lemma canonical_reassemble: "va_in_range v \<Longrightarrow> is_canonical (reassemble_address v)"
  by (simp add: is_canonical_bits bit_reassemble)

lemma bit_imp_u16: "bit (x :: u16) n \<Longrightarrow> n < 16"
  using bit_imp_le_length [of x n] by simp

lemma u16_field_eqI:
  assumes "\<And>n. n < m \<Longrightarrow> bit w (k + n) = bit (x :: u16) n" "\<And>n. m \<le> n \<Longrightarrow> \<not> bit x n" "m \<le> 16"
  shows "ucast (take_bit m (drop_bit k (w :: u64))) = x"
proof (rule bit_word_eqI)
  fix n
  assume "n < LENGTH(16)"
  then show "bit (ucast (take_bit m (drop_bit k w)) :: u16) n = bit x n"
    using assms by (cases "n < m") (auto simp: bit_simps)
qed

lemma decompose_reassemble:
  assumes "va_in_range v"
  shows "decompose_address (reassemble_address v) = v"
proof -
  note hi = va_in_range_bits [OF assms]
  note bits = bit_reassemble [OF assms] bit_va_low [OF assms]
  have "ucast (take_bit 9 (drop_bit 39 (reassemble_address v))) = pml4_index v"
    by (rule u16_field_eqI) (simp_all add: bits hi)
  moreover have "ucast (take_bit 9 (drop_bit 30 (reassemble_address v))) = pdpt_index v"
    by (rule u16_field_eqI) (simp_all add: bits hi)
  moreover have "ucast (take_bit 9 (drop_bit 21 (reassemble_address v))) = pd_index v"
    by (rule u16_field_eqI) (simp_all add: bits hi)
  moreover have "ucast (take_bit 9 (drop_bit 12 (reassemble_address v))) = pt_index v"
    by (rule u16_field_eqI) (simp_all add: bits hi)
  moreover have "ucast (take_bit 12 (drop_bit 0 (reassemble_address v))) = offset v"
    by (rule u16_field_eqI) (simp_all add: bits hi)
  ultimately show ?thesis
    by (simp add: decompose_address_def mask_simps)
qed

lemma field_bits:
  assumes "take_bit 9 (drop_bit k (v :: u64)) = take_bit 9 (drop_bit k w)" "m < 9"
  shows "bit v (k + m) = bit w (k + m)"
  using arg_cong [OF assms(1), of "\<lambda>x. bit x m"] assms(2) by (simp add: bit_simps)

text \<open>Two canonical addresses have the same four table indices exactly when they share a page.\<close>

lemma same_page_iff:
  assumes "is_canonical v" "is_canonical w"
  shows "drop_bit 12 v = drop_bit 12 w \<longleftrightarrow>
     pml4_index (decompose_address v) = pml4_index (decompose_address w) \<and>
     pdpt_index (decompose_address v) = pdpt_index (decompose_address w) \<and>
     pd_index (decompose_address v) = pd_index (decompose_address w) \<and>
     pt_index (decompose_address v) = pt_index (decompose_address w)" (is "?l \<longleftrightarrow> ?r")
proof
  assume ?l
  then have d: "drop_bit (k + 12) v = drop_bit (k + 12) w" for k
    by (metis drop_bit_drop_bit)
  show ?r
    using d [of 27] d [of 18] d [of 9] d [of 0] by (simp add: decompose_fields)
next
  assume r: ?r
  have eq: "bit v n = bit w n" if n: "12 \<le> n" "n < 64" for n
  proof -
    have low: "bit v n = bit w n" if "12 \<le> n" "n < 48" for n
    proof -
      have "take_bit 9 (drop_bit 39 v) = take_bit 9 (drop_bit 39 w)"
        "take_bit 9 (drop_bit 30 v) = take_bit 9 (drop_bit 30 w)"
        "take_bit 9 (drop_bit 21 v) = take_bit 9 (drop_bit 21 w)"
        "take_bit 9 (drop_bit 12 v) = take_bit 9 (drop_bit 12 w)"
        using r by (metis index_of_decompose)+
      note f = this [THEN field_bits]
      consider "n < 21" | "21 \<le> n" "n < 30" | "30 \<le> n" "n < 39" | "39 \<le> n" by linarith
      then show ?thesis
        using that f(1) [of "n - 39"] f(2) [of "n - 30"] f(3) [of "n - 21"] f(4) [of "n - 12"]
        by cases auto
    qed
    show ?thesis
    proof (cases "n < 48")
      case True
      with n low show ?thesis by simp
    next
      case False
      then have "bit v n = bit v 47" "bit w n = bit w 47"
        using assms n by (simp_all add: is_canonical_bits)
      then show ?thesis using low [of 47] by simp
    qed
  qed
  show ?l
  proof (rule bit_word_eqI)
    fix n
    show "bit (drop_bit 12 v) n = bit (drop_bit 12 w) n"
      using eq [of "12 + n"] bit_imp_le_length [of v "12 + n"] bit_imp_le_length [of w "12 + n"]
      by (auto simp: bit_drop_bit_eq)
  qed
qed

section \<open>Alignment\<close>

lemma unat_and_not_mask:
  "unat ((x :: u64) AND NOT (mask k)) = unat x div 2 ^ k * 2 ^ k"
proof -
  have "unat (x AND NOT (mask k)) = push_bit k (drop_bit k (unat x))"
    by (rule bit_eqI) (auto simp: bit_simps dest: bit_imp_le_length)
  then show ?thesis by (simp only: push_bit_eq_mult drop_bit_eq_div)
qed

lemma unat_align_up:
  assumes "k < 64" "unat v + 2 ^ k \<le> 2 ^ 64"
  shows "unat (align_up v (2 ^ k)) = (unat v + 2 ^ k - 1) div 2 ^ k * 2 ^ k"
proof -
  have p: "(0::nat) < 2 ^ k" by simp
  have m: "(2 ^ k - 1 :: u64) = mask k" by (simp add: mask_eq_exp_minus_1)
  have "unat (2 ^ k - 1 :: u64) = 2 ^ k - 1"
    using assms(1) by (simp add: unat_sub_if' unat_exp)
  then have "unat (v + (2 ^ k - 1)) = unat v + (2 ^ k - 1)"
    using assms(2) p by (subst unat_add_nowrap) simp_all
  then show ?thesis
    using p unfolding align_up_def add_diff_eq [symmetric] m unat_and_not_mask by simp
qed

lemma align_up_kPageSize: "align_up v kPageSize = align_up v (2 ^ 12)"
  by (simp add: kPageSize_def)

lemma align_up_kLargePageSize: "align_up v kLargePageSize = align_up v (2 ^ 21)"
  by (simp add: kLargePageSize_def)

section \<open>Properties\<close>

text \<open>
  Decomposing a canonical virtual address into its four table indices and page offset and
  reassembling the parts gives the address back.
\<close>

theorem decompose_then_reassemble:
  "is_canonical a \<Longrightarrow> reassemble_address (decompose_address a) = a"
  by (rule reassemble_decompose)

text \<open>
  For table indices below 512 and an offset below 4096, reassembly yields a canonical address
  and decomposing it gives exactly the parts it was built from.
\<close>

theorem reassemble_then_decompose:
  "va_in_range v \<Longrightarrow>
     is_canonical (reassemble_address v) \<and> decompose_address (reassemble_address v) = v"
  by (simp add: canonical_reassemble decompose_reassemble)

text \<open>
  The canonical check accepts exactly the addresses whose value as a signed 64-bit integer
  fits in 48 bits, that is, the sign extensions of bit 47.
\<close>

theorem is_canonical_signed:
  "is_canonical a \<longleftrightarrow> - (2 ^ 47) \<le> sint a \<and> sint a < 2 ^ 47"
proof -
  have b: "bit (sint a) n = bit a (min n 63)" for n
    using bit_imp_le_length [of a n] by (auto simp: bit_sint_iff min_def)
  have "- (2 ^ 47) \<le> sint a \<and> sint a < 2 ^ 47 \<longleftrightarrow> signed_take_bit 47 (sint a) = sint a"
    by (simp add: signed_take_bit_int_eq_self_iff)
  also have "\<dots> \<longleftrightarrow> (\<forall>n. bit a (min (min 47 n) 63) = bit a (min n 63))"
    by (simp add: bit_eq_iff bit_signed_take_bit_iff b min.commute)
  also have "\<dots> \<longleftrightarrow> is_canonical a"
  proof
    assume h: "\<forall>n. bit a (min (min 47 n) 63) = bit a (min n 63)"
    have "bit a n = bit a 47" if "48 \<le> n" "n < 64" for n
      using h [rule_format, of n] that by (simp add: min_def)
    then show "is_canonical a" by (simp add: is_canonical_bits)
  next
    assume "is_canonical a"
    then have e: "bit a n = bit a 47" if "47 \<le> n" "n < 64" for n
      using that by (cases "n = 47") (simp_all add: is_canonical_bits)
    show "\<forall>n. bit a (min (min 47 n) 63) = bit a (min n 63)"
    proof
      fix n
      show "bit a (min (min 47 n) 63) = bit a (min n 63)"
        using e [of 63] e [of n] by (cases "n < 47") (auto simp: min_def)
    qed
  qed
  finally show ?thesis by simp
qed

text \<open>
  A page-table entry built from a frame address and flags decodes to that address and those
  flags, for every 4 KiB-aligned address below 2^52 and every flag word outside the address field;
  conversely re-encoding the decoded parts of any entry gives the entry back.
\<close>

theorem page_entry_roundtrip:
  assumes p: "p AND NOT kPhysicalAddressMask = 0" and f: "f AND kPhysicalAddressMask = 0"
  shows "page_entry_address (make_page_entry p f) = p \<and> page_entry_flags (make_page_entry p f) = f \<and>
    make_page_entry (page_entry_address e) (page_entry_flags e) = e"
proof (intro conjI)
  have pb: "bit p n \<Longrightarrow> 12 \<le> n \<and> n < 52" for n
    using arg_cong [OF p, of "\<lambda>x. bit x n"] bit_imp_le_length [of p n]
    by (auto simp: bit_simps bit_kPhysicalAddressMask)
  have "page_entry_address (make_page_entry p f) = p AND kPhysicalAddressMask"
    using f by (intro page_entry_address_make) (simp add: flags_only_def)
  also have "\<dots> = p"
    by (rule bit_word_eqI) (auto simp: bit_simps bit_kPhysicalAddressMask dest: pb)
  finally show "page_entry_address (make_page_entry p f) = p" .
next
  have fb: "bit f n \<Longrightarrow> \<not> (12 \<le> n \<and> n < 52)" for n
    using f by (auto simp: flags_only_def [symmetric] flags_only_bit)
  show "page_entry_flags (make_page_entry p f) = f"
    by (rule bit_word_eqI)
      (auto simp: page_entry_flags_def bit_simps bit_make_page_entry bit_kPhysicalAddressMask dest: fb)
next
  show "make_page_entry (page_entry_address e) (page_entry_flags e) = e"
    by (rule bit_word_eqI)
      (auto simp: bit_make_page_entry bit_page_entry_address page_entry_flags_def bit_simps
        bit_kPhysicalAddressMask)
qed

text \<open>
  For a power-of-two alignment and no wrap-around past 2^64, \<open>align_up\<close> returns the least
  multiple of the alignment that is at least the value.
\<close>

theorem align_up_least_multiple:
  assumes "k < 64" "unat v + 2 ^ k \<le> 2 ^ 64"
  shows "2 ^ k dvd unat (align_up v (2 ^ k)) \<and> v \<le> align_up v (2 ^ k) \<and>
    unat (align_up v (2 ^ k)) < unat v + 2 ^ k"
proof -
  let ?r = "(unat v + 2 ^ k - 1) div 2 ^ k * 2 ^ k"
  have "?r = unat v + 2 ^ k - 1 - (unat v + 2 ^ k - 1) mod 2 ^ k"
    by (simp add: minus_mod_eq_div_mult)
  moreover have "(unat v + 2 ^ k - 1) mod 2 ^ k < 2 ^ k" "(1::nat) \<le> 2 ^ k"
    by simp_all
  ultimately have "unat v \<le> ?r" "?r < unat v + 2 ^ k"
    by linarith+
  then show ?thesis
    unfolding word_le_nat_alt unat_align_up [OF assms] by simp
qed

end
