(* ===== verification/Machine.thy ===== *)
theory Machine
  imports Print Paging
begin

text \<open>
  The state the memory managers work on: memory as the kernel reaches it through the
  higher-half direct map, the static variables of \<open>src/src/mm/pmm.cpp\<close>, the two CPU resources
  the virtual memory manager touches (model-specific registers and CR3), and the console calls
  made so far.

  Memory is a function from the virtual address of an 8-byte cell to its value: every access of
  the memory managers is an aligned 64-bit access (bitmap words and page-table entries), so two
  accesses touch either the same cell or disjoint ones. The bitmap and the page tables share
  this memory, so a table placed on top of the bitmap would corrupt it in the model as it would
  in the kernel.
\<close>

datatype kcall = Kprintf string "karg list" | SerialWrite string

record machine =
  mem :: "ptr \<Rightarrow> u64"
  bitmap :: ptr
  bitmap_phys :: u64
  bitmap_words :: u64
  bitmap_bytes :: u64
  frame_count :: u64
  free_frame_count :: u64
  g_hhdm_offset :: u64
  msrs :: "u32 \<Rightarrow> u64"
  cr3 :: u64
  klog :: "kcall list"

text \<open>
  A console call is \<open>print::kprintf\<close> with its format and arguments, or \<open>serial::write\<close>. The calls only
  write to the serial device, which nothing here reads back, so they are recorded in order and
  \<open>Console\<close> plays them on the device.
\<close>

definition log_printf :: "string \<Rightarrow> karg list \<Rightarrow> machine \<Rightarrow> machine" where
  "log_printf format args s = s\<lparr>klog := klog s @ [Kprintf format args]\<rparr>"

definition log_serial :: "string \<Rightarrow> machine \<Rightarrow> machine" where
  "log_serial str s = s\<lparr>klog := klog s @ [SerialWrite str]\<rparr>"

lemma log_printf_fields [simp]:
  "mem (log_printf f a s) = mem s" "bitmap (log_printf f a s) = bitmap s"
  "bitmap_phys (log_printf f a s) = bitmap_phys s" "bitmap_words (log_printf f a s) = bitmap_words s"
  "bitmap_bytes (log_printf f a s) = bitmap_bytes s" "frame_count (log_printf f a s) = frame_count s"
  "free_frame_count (log_printf f a s) = free_frame_count s"
  "g_hhdm_offset (log_printf f a s) = g_hhdm_offset s"
  "msrs (log_printf f a s) = msrs s" "cr3 (log_printf f a s) = cr3 s"
  by (simp_all add: log_printf_def)

lemma log_serial_fields [simp]:
  "mem (log_serial x s) = mem s" "bitmap (log_serial x s) = bitmap s"
  "bitmap_phys (log_serial x s) = bitmap_phys s" "bitmap_words (log_serial x s) = bitmap_words s"
  "bitmap_bytes (log_serial x s) = bitmap_bytes s" "frame_count (log_serial x s) = frame_count s"
  "free_frame_count (log_serial x s) = free_frame_count s"
  "g_hhdm_offset (log_serial x s) = g_hhdm_offset s"
  "msrs (log_serial x s) = msrs s" "cr3 (log_serial x s) = cr3 s"
  by (simp_all add: log_serial_def)

lemma klog_append [simp]:
  "klog (log_printf f a s) = klog s @ [Kprintf f a]" "klog (log_serial x s) = klog s @ [SerialWrite x]"
  by (simp_all add: log_printf_def log_serial_def)

end
