(* ===== verification/Pmm.thy ===== *)
theory Pmm
  imports Machine
begin

text \<open>
  The physical frame allocator, \<open>src/src/mm/pmm.cpp\<close>: a bitmap with one bit per 4 KiB frame,
  set for a used frame, that lives in the first usable region large enough for it.

  The abstraction is the set \<open>free_frames\<close> of frame numbers below \<open>frame_count\<close> whose bit is
  clear. The lemmas show what \<open>init\<close> leaves in that set, that \<open>alloc_frame\<close> takes out its
  least element, that \<open>free_frame\<close> puts a frame back and refuses misaligned, out-of-range and
  double frees, and that the counter follows the set. The locale \<open>frame_allocator\<close> is the
  contract the paging code relies on.
\<close>

section \<open>Model\<close>

datatype RegionType =
  Usable | Reserved | AcpiReclaimable | AcpiNvs | Bad | BootloaderReclaimable
  | KernelAndModules | Framebuffer

record MemoryRegion =
  base :: u64
  length_of :: u64
  type_of :: RegionType

definition kWordBits :: u64 where
  "kWordBits = 64"

fun region_type_name :: "RegionType \<Rightarrow> string" where
  "region_type_name Usable = ''USABLE''"
| "region_type_name Reserved = ''RESERVED''"
| "region_type_name AcpiReclaimable = ''ACPI_RECLAIMABLE''"
| "region_type_name AcpiNvs = ''ACPI_NVS''"
| "region_type_name Bad = ''BAD_MEMORY''"
| "region_type_name BootloaderReclaimable = ''BOOTLOADER_RECLAIMABLE''"
| "region_type_name KernelAndModules = ''KERNEL_AND_MODULES''"
| "region_type_name Framebuffer = ''FRAMEBUFFER''"

text \<open>\<open>bitmap[i]\<close>, read and written through the pointer \<open>bitmap\<close>.\<close>

definition bitmap_get :: "machine \<Rightarrow> u64 \<Rightarrow> u64" where
  "bitmap_get s i = mem s (bitmap s + 8 * i)"

definition bitmap_set :: "u64 \<Rightarrow> u64 \<Rightarrow> machine \<Rightarrow> machine" where
  "bitmap_set i v s = s\<lparr>mem := (mem s)(bitmap s + 8 * i := v)\<rparr>"

definition frame_valid :: "machine \<Rightarrow> u64 \<Rightarrow> bool" where
  "frame_valid s frame \<longleftrightarrow> frame < frame_count s"

definition set_frame_used :: "u64 \<Rightarrow> machine \<Rightarrow> machine" where
  "set_frame_used frame s =
     (if \<not> frame_valid s frame then s
      else let word = frame div kWordBits; bit = frame mod kWordBits
           in bitmap_set word (bitmap_get s word OR push_bit (unat bit) 1) s)"

definition set_frame_free :: "u64 \<Rightarrow> machine \<Rightarrow> machine" where
  "set_frame_free frame s =
     (if \<not> frame_valid s frame then s
      else let word = frame div kWordBits; bit = frame mod kWordBits
           in bitmap_set word (bitmap_get s word AND NOT (push_bit (unat bit) 1)) s)"

lemma bitmap_set_fields [simp]:
  "bitmap (bitmap_set i v s) = bitmap s" "bitmap_phys (bitmap_set i v s) = bitmap_phys s"
  "bitmap_words (bitmap_set i v s) = bitmap_words s" "bitmap_bytes (bitmap_set i v s) = bitmap_bytes s"
  "frame_count (bitmap_set i v s) = frame_count s"
  "free_frame_count (bitmap_set i v s) = free_frame_count s"
  "g_hhdm_offset (bitmap_set i v s) = g_hhdm_offset s"
  "msrs (bitmap_set i v s) = msrs s" "cr3 (bitmap_set i v s) = cr3 s" "klog (bitmap_set i v s) = klog s"
  by (simp_all add: bitmap_set_def)

lemma set_frame_fields [simp]:
  "bitmap (set_frame_used f s) = bitmap s" "bitmap (set_frame_free f s) = bitmap s"
  "bitmap_phys (set_frame_used f s) = bitmap_phys s" "bitmap_phys (set_frame_free f s) = bitmap_phys s"
  "bitmap_words (set_frame_used f s) = bitmap_words s" "bitmap_words (set_frame_free f s) = bitmap_words s"
  "bitmap_bytes (set_frame_used f s) = bitmap_bytes s" "bitmap_bytes (set_frame_free f s) = bitmap_bytes s"
  "frame_count (set_frame_used f s) = frame_count s" "frame_count (set_frame_free f s) = frame_count s"
  "free_frame_count (set_frame_used f s) = free_frame_count s"
  "free_frame_count (set_frame_free f s) = free_frame_count s"
  "g_hhdm_offset (set_frame_used f s) = g_hhdm_offset s"
  "g_hhdm_offset (set_frame_free f s) = g_hhdm_offset s"
  "msrs (set_frame_used f s) = msrs s" "msrs (set_frame_free f s) = msrs s"
  "cr3 (set_frame_used f s) = cr3 s" "cr3 (set_frame_free f s) = cr3 s"
  "klog (set_frame_used f s) = klog s" "klog (set_frame_free f s) = klog s"
  by (simp_all add: set_frame_used_def set_frame_free_def Let_def)

subsection \<open>Initialisation\<close>

text \<open>The first loop of \<open>init\<close>: print the map, add up usable bytes, find the highest usable end.\<close>

fun init_scan :: "MemoryRegion list \<Rightarrow> u64 \<Rightarrow> u64 \<Rightarrow> machine \<Rightarrow> u64 \<times> u64 \<times> machine" where
  "init_scan [] highest_usable_end usable_bytes s = (highest_usable_end, usable_bytes, s)"
| "init_scan (region # regions) highest_usable_end usable_bytes s =
     (let s = log_printf ''  %p - %p  length=%lu  type=%s\<newline>''
                [Ptr (base region), Ptr (base region + length_of region),
                 Word (length_of region), CStr (Some (region_type_name (type_of region)))] s
      in if type_of region = Usable then
           let usable_bytes = usable_bytes + length_of region;
               end = base region + length_of region
           in init_scan regions (if end > highest_usable_end then end else highest_usable_end)
                usable_bytes s
         else init_scan regions highest_usable_end usable_bytes s)"

text \<open>The search for a usable region that can hold the bitmap.\<close>

fun find_bitmap_region :: "MemoryRegion list \<Rightarrow> u64 \<Rightarrow> u64 option" where
  "find_bitmap_region [] bitmap_pages = None"
| "find_bitmap_region (region # regions) bitmap_pages =
     (if type_of region \<noteq> Usable then find_bitmap_region regions bitmap_pages
      else let bitmap_storage_bytes = bitmap_pages * kPageSize
           in if length_of region \<ge> bitmap_storage_bytes then Some (base region)
              else find_bitmap_region regions bitmap_pages)"

text \<open>Phase 1: \<open>for (i = 0; i < bitmap_words; ++i) bitmap[i] = UINT64_MAX\<close>.\<close>

function init_all_used :: "u64 \<Rightarrow> machine \<Rightarrow> machine" where
  "init_all_used i s =
     (if i < bitmap_words s then init_all_used (i + 1) (bitmap_set i UINT64_MAX s) else s)"
  by pat_completeness auto
termination
  by (relation "measure (\<lambda>(i, s). unat (bitmap_words s) - unat i)")
    (auto simp: unat_Suc_less word_less_nat_alt)

text \<open>Phase 2: free the frames of one usable region.\<close>

function free_region_frames :: "u64 \<Rightarrow> u64 \<Rightarrow> machine \<Rightarrow> machine" where
  "free_region_frames frame frame_end s =
     (if frame < frame_end then
        if \<not> frame_valid s frame then free_region_frames (frame + 1) frame_end s
        else let s = set_frame_free frame s
             in free_region_frames (frame + 1) frame_end
                  (s\<lparr>free_frame_count := free_frame_count s + 1\<rparr>)
      else s)"
  by pat_completeness auto
termination
  by (relation "measure (\<lambda>(frame, frame_end, s). unat frame_end - unat frame)")
    (auto simp: unat_Suc_less word_less_nat_alt)

fun init_free_regions :: "MemoryRegion list \<Rightarrow> machine \<Rightarrow> machine" where
  "init_free_regions [] s = s"
| "init_free_regions (region # regions) s =
     (if type_of region \<noteq> Usable then init_free_regions regions s
      else let first_frame = (base region + kPageSize - 1) div kPageSize;
               frame_end = (base region + length_of region) div kPageSize
           in init_free_regions regions (free_region_frames first_frame frame_end s))"

text \<open>Phase 3: the bitmap's own frames are used.\<close>

function reserve_frames :: "u64 \<Rightarrow> u64 \<Rightarrow> machine \<Rightarrow> machine" where
  "reserve_frames frame last_frame s =
     (if frame < last_frame then
        if \<not> frame_valid s frame then reserve_frames (frame + 1) last_frame s
        else let word = frame div kWordBits; bit = frame mod kWordBits;
                 s = (if bitmap_get s word AND push_bit (unat bit) 1 = 0
                      then s\<lparr>free_frame_count := free_frame_count s - 1\<rparr> else s)
             in reserve_frames (frame + 1) last_frame (set_frame_used frame s)
      else s)"
  by pat_completeness auto
termination
  by (relation "measure (\<lambda>(frame, last_frame, s). unat last_frame - unat frame)")
    (auto simp: unat_Suc_less word_less_nat_alt)

declare init_all_used.simps [simp del] free_region_frames.simps [simp del] reserve_frames.simps [simp del]

text \<open>The three phases, from the first write to the bitmap to the end of \<open>init\<close>.\<close>

definition init_fill_bitmap :: "MemoryRegion list \<Rightarrow> u64 \<Rightarrow> machine \<Rightarrow> machine" where
  "init_fill_bitmap regions bitmap_pages s =
     (let s = init_all_used 0 s;
          s = s\<lparr>free_frame_count := 0\<rparr>;
          s = init_free_regions regions s;
          bitmap_first_frame = bitmap_phys s div kPageSize;
          bitmap_last_frame = bitmap_first_frame + bitmap_pages;
          s = reserve_frames bitmap_first_frame bitmap_last_frame s;
          s = log_printf ''  free frames:    %lu\<newline>'' [Word (free_frame_count s)] s;
          s = log_printf ''  free memory:    %lu bytes\<newline>'' [Word (free_frame_count s * kPageSize)] s
      in log_printf ''  bitmap initialized\<newline>'' [] s)"

definition pmm_init :: "MemoryRegion list \<Rightarrow> u64 \<Rightarrow> machine \<Rightarrow> (unit, machine) exec" where
  "pmm_init regions hhdm_offset s =
     (let s = s\<lparr>g_hhdm_offset := hhdm_offset\<rparr>;
          s = log_printf ''\<newline>Memory map:\<newline>'' [] s;
          (highest_usable_end, usable_bytes, s) = init_scan regions 0 0 s;
          s = log_printf ''Total usable memory: %lu bytes\<newline>'' [Word usable_bytes] s
      in if highest_usable_end = 0 then Halt (log_printf ''fatal: no usable memory\<newline>'' [] s)
         else
           let s = s\<lparr>frame_count := (highest_usable_end + kPageSize - 1) div kPageSize\<rparr>;
               s = s\<lparr>bitmap_words := (frame_count s + kWordBits - 1) div kWordBits\<rparr>;
               s = s\<lparr>bitmap_bytes := bitmap_words s * 8\<rparr>;
               bitmap_pages = (bitmap_bytes s + kPageSize - 1) div kPageSize
           in case find_bitmap_region regions bitmap_pages of
                None \<Rightarrow> Halt (log_printf ''fatal: no usable region large enough for bitmap\<newline>'' [] s)
              | Some phys \<Rightarrow>
                  let s = s\<lparr>bitmap_phys := phys\<rparr>;
                      s = s\<lparr>bitmap := hhdm_offset + bitmap_phys s\<rparr>;
                      s = log_printf
                        (''PMM:\<newline>'' @ ''  highest usable: %p\<newline>'' @ ''  frame count:    %lu\<newline>'' @
                         ''  bitmap phys:    %p\<newline>'' @ ''  bitmap virt:    %p\<newline>'' @
                         ''  bitmap bytes:   %lu\<newline>'' @ ''  bitmap words:   %lu\<newline>'' @
                         ''  bitmap pages:   %lu\<newline>'')
                        [Ptr highest_usable_end, Word (frame_count s), Ptr (bitmap_phys s),
                         Ptr (hhdm_offset + bitmap_phys s), Word (bitmap_bytes s),
                         Word (bitmap_words s), Word bitmap_pages] s
                  in Ret () (init_fill_bitmap regions bitmap_pages s))"

subsection \<open>Allocation and release\<close>

text \<open>\<open>__builtin_ctzll\<close>: the number of trailing zero bits, for a non-zero argument.\<close>

definition builtin_ctzll :: "u64 \<Rightarrow> u64" where
  "builtin_ctzll x = of_nat (length (takeWhile (\<lambda>n. \<not> bit x n) [0..<64]))"

function alloc_scan :: "u64 \<Rightarrow> machine \<Rightarrow> u64 \<times> machine" where
  "alloc_scan word_index s =
     (if word_index < bitmap_words s then
        let word = bitmap_get s word_index
        in if word = UINT64_MAX then alloc_scan (word_index + 1) s
           else
             let free_bits = NOT word;
                 bit = builtin_ctzll free_bits;
                 frame = word_index * kWordBits + bit
             in if \<not> frame_valid s frame then alloc_scan (word_index + 1) s
                else let s = set_frame_used frame s
                     in (frame * kPageSize, s\<lparr>free_frame_count := free_frame_count s - 1\<rparr>)
      else (0, s))"
  by pat_completeness auto
termination
  by (relation "measure (\<lambda>(word_index, s). unat (bitmap_words s) - unat word_index)")
    (auto simp: unat_Suc_less word_less_nat_alt)

declare alloc_scan.simps [simp del]

definition alloc_frame :: "machine \<Rightarrow> u64 \<times> machine" where
  "alloc_frame s = alloc_scan 0 s"

definition free_frame :: "u64 \<Rightarrow> machine \<Rightarrow> machine" where
  "free_frame address s =
     (if address mod kPageSize \<noteq> 0 then
        log_printf ''fatal: pmm::free_frame: misaligned address %p\<newline>'' [Word address] s
      else
        let frame = address div kPageSize
        in if \<not> frame_valid s frame then
             log_printf ''fatal: pmm::free_frame: frame out of range: %lu\<newline>'' [Word frame] s
           else
             let word = frame div kWordBits; bit = frame mod kWordBits; mask = push_bit (unat bit) 1
             in if bitmap_get s word AND mask = 0 then
                  log_printf ''fatal: pmm::free_frame: double free: %p\<newline>'' [Word address] s
                else
                  let s = bitmap_set word (bitmap_get s word AND NOT mask) s
                  in s\<lparr>free_frame_count := free_frame_count s + 1\<rparr>)"

definition physical_to_virtual :: "machine \<Rightarrow> u64 \<Rightarrow> u64" where
  "physical_to_virtual s address = g_hhdm_offset s + address"

definition virtual_to_physical :: "machine \<Rightarrow> u64 \<Rightarrow> u64" where
  "virtual_to_physical s address = address - g_hhdm_offset s"

section \<open>Abstraction and invariant\<close>

definition frame_used :: "machine \<Rightarrow> u64 \<Rightarrow> bool" where
  "frame_used s f \<longleftrightarrow> bit (bitmap_get s (f div kWordBits)) (unat (f mod kWordBits))"

definition free_frames :: "machine \<Rightarrow> u64 set" where
  "free_frames s = {f. frame_valid s f \<and> \<not> frame_used s f}"

text \<open>The bitmap has a word for every frame, and frame numbers stay below \<open>2 ^ 52\<close>.\<close>

definition bitmap_shape :: "machine \<Rightarrow> bool" where
  "bitmap_shape s \<longleftrightarrow> unat (frame_count s) \<le> 2 ^ 52 \<and>
     bitmap_words s = (frame_count s + kWordBits - 1) div kWordBits"

definition pmm_wf :: "machine \<Rightarrow> bool" where
  "pmm_wf s \<longleftrightarrow> bitmap_shape s \<and> free_frame_count s = of_nat (card (free_frames s))"

lemma frame_mod_less: "unat (f mod kWordBits) < 64"
  by (simp add: kWordBits_def unat_mod)

lemma unat_frame_div: "unat (f div kWordBits) = unat f div 64"
  by (simp add: kWordBits_def unat_div)

lemma bitmap_cell_inj [simp]:
  "8 * (f div kWordBits) = 8 * (g div kWordBits) \<longleftrightarrow> f div kWordBits = g div kWordBits"
proof
  have u: "unat (8 * (x div kWordBits)) = 8 * (unat x div 64)" for x :: u64
    using u64_bound [of x]
    by (subst unat_mult_nowrap) (simp_all add: unat_frame_div)
  assume "8 * (f div kWordBits) = 8 * (g div kWordBits)"
  then have "8 * (unat f div 64) = 8 * (unat g div 64)" by (metis u)
  then show "f div kWordBits = g div kWordBits"
    by (intro unat_eqI) (simp add: unat_frame_div)
qed simp

lemma frame_eq_iff: "f = g \<longleftrightarrow> f div kWordBits = g div kWordBits \<and> unat (f mod kWordBits) = unat (g mod kWordBits)"
  by (metis div_mult_mod_eq unat_eqI)

lemma bitmap_get_set: "bitmap_get (bitmap_set (f div kWordBits) v s) (g div kWordBits) =
    (if g div kWordBits = f div kWordBits then v else bitmap_get s (g div kWordBits))"
  by (simp add: bitmap_get_def bitmap_set_def)

lemma frame_used_set_used:
  "frame_used (set_frame_used f s) g \<longleftrightarrow> frame_valid s f \<and> g = f \<or> frame_used s g"
  using frame_mod_less [of f]
  by (auto simp: frame_used_def set_frame_used_def Let_def bitmap_get_set bit_simps frame_eq_iff [of g f])

lemma frame_used_set_free:
  "frame_used (set_frame_free f s) g \<longleftrightarrow> frame_used s g \<and> \<not> (frame_valid s f \<and> g = f)"
  using frame_mod_less [of f] frame_mod_less [of g]
  by (auto simp: frame_used_def set_frame_free_def Let_def bitmap_get_set bit_simps frame_eq_iff [of g f])

lemma frame_used_test:
  "bitmap_get s (f div kWordBits) AND push_bit (unat (f mod kWordBits)) 1 = 0 \<longleftrightarrow> \<not> frame_used s f"
  using bit_and_one_iff [of "bitmap_get s (f div kWordBits)"] by (auto simp: frame_used_def)

lemma frame_used_cong:
  "mem t = mem s \<Longrightarrow> bitmap t = bitmap s \<Longrightarrow> frame_used t f = frame_used s f"
  by (simp add: frame_used_def bitmap_get_def)

lemma frame_used_update [simp]:
  "frame_used (s\<lparr>free_frame_count := n\<rparr>) f = frame_used s f"
  "frame_used (log_printf fmt args s) f = frame_used s f"
  by (simp_all add: frame_used_def bitmap_get_def)

lemma frame_valid_update [simp]:
  "frame_valid (s\<lparr>free_frame_count := n\<rparr>) f = frame_valid s f"
  "frame_valid (set_frame_used g s) f = frame_valid s f"
  "frame_valid (set_frame_free g s) f = frame_valid s f"
  "frame_valid (log_printf fmt args s) f = frame_valid s f"
  by (simp_all add: frame_valid_def)

lemma mem_free_frames_iff: "f \<in> free_frames s \<longleftrightarrow> frame_valid s f \<and> \<not> frame_used s f"
  by (simp add: free_frames_def)

lemma free_frames_set_used: "free_frames (set_frame_used f s) = free_frames s - {f}"
  by (auto simp: free_frames_def frame_used_set_used)

lemma free_frames_set_free:
  "free_frames (set_frame_free f s) = (if frame_valid s f then insert f (free_frames s) else free_frames s)"
  by (auto simp: free_frames_def frame_used_set_free)

lemma free_frames_update [simp]:
  "free_frames (s\<lparr>free_frame_count := n\<rparr>) = free_frames s"
  "free_frames (log_printf fmt args s) = free_frames s"
  by (simp_all add: free_frames_def)

lemma finite_free_frames [simp]: "finite (free_frames s)"
  by (rule finite_subset [OF subset_UNIV finite])

section \<open>The allocation scan\<close>

lemma ctz_props:
  assumes "x \<noteq> 0"
  shows "unat (builtin_ctzll x) < 64" "bit x (unat (builtin_ctzll x))"
    "n < unat (builtin_ctzll x) \<Longrightarrow> \<not> bit x n"
proof -
  let ?t = "takeWhile (\<lambda>n. \<not> bit x n) [0..<64]"
  have "\<not> (\<forall>n\<in>set [0..<64]. \<not> bit x n)"
  proof
    assume "\<forall>n\<in>set [0..<64]. \<not> bit x n"
    then have "x = 0" by (intro bit_word_eqI) simp
    with assms show False ..
  qed
  then have "?t \<noteq> [0..<64]" by (simp only: takeWhile_eq_all_conv) simp
  then have l: "length ?t < 64"
    using length_takeWhile_le [of "\<lambda>n. \<not> bit x n" "[0..<64]"]
      takeWhile_eq_take [of "\<lambda>n. \<not> bit x n" "[0..<64]"]
    by (cases "length ?t = 64") simp_all
  then have u: "unat (builtin_ctzll x) = length ?t"
    by (simp add: builtin_ctzll_def unat_of_nat)
  show "unat (builtin_ctzll x) < 64" using l u by simp
  show "bit x (unat (builtin_ctzll x))"
    using nth_length_takeWhile [of "\<lambda>n. \<not> bit x n" "[0..<64]"] l u by simp
  show "\<not> bit x n" if "n < unat (builtin_ctzll x)"
  proof -
    from that u have "n < length ?t" by simp
    then have "?t ! n \<in> set ?t" by (rule nth_mem)
    moreover have "?t ! n = n"
      using that u l by (simp add: takeWhile_nth)
    ultimately show ?thesis by (metis set_takeWhileD)
  qed
qed

lemma unat_bitmap_words:
  "bitmap_shape s \<Longrightarrow> unat (bitmap_words s) = (unat (frame_count s) + 63) div 64"
proof -
  assume "bitmap_shape s"
  then have b: "unat (frame_count s) \<le> 2 ^ 52" and w: "bitmap_words s = (frame_count s + 63) div 64"
    by (simp_all add: bitmap_shape_def kWordBits_def add.commute)
  have "unat (frame_count s + 63) = unat (frame_count s) + 63"
    using b by (subst unat_add_nowrap) simp_all
  then show ?thesis by (simp add: w unat_div)
qed

lemma scan_index_bound:
  assumes "bitmap_shape s" "i < bitmap_words s"
  shows "unat i * 64 + 63 < 2 ^ 64"
proof -
  have "unat i < (unat (frame_count s) + 63) div 64" "unat (frame_count s) \<le> 2 ^ 52"
    using assms unat_bitmap_words [OF assms(1)] by (simp_all add: word_less_nat_alt bitmap_shape_def)
  moreover have "(unat (frame_count s) + 63) div 64 * 64 \<le> unat (frame_count s) + 63"
    by (rule div_times_less_eq_dividend)
  ultimately show ?thesis by simp
qed

lemma frame_of_parts:
  assumes "unat i * 64 + 63 < 2 ^ 64" "unat b < 64"
  shows "unat (i * kWordBits + b) = unat i * 64 + unat b"
    "(i * kWordBits + b) div kWordBits = i" "unat ((i * kWordBits + b) mod kWordBits) = unat b"
proof -
  have m: "unat (i * kWordBits) = unat i * 64"
    using assms(1) by (subst unat_mult_nowrap) (simp_all add: kWordBits_def)
  then show u: "unat (i * kWordBits + b) = unat i * 64 + unat b"
    using assms by (subst unat_add_nowrap) simp_all
  show "(i * kWordBits + b) div kWordBits = i"
    by (rule unat_eqI) (use assms(2) in \<open>simp add: unat_frame_div u\<close>)
  show "unat ((i * kWordBits + b) mod kWordBits) = unat b"
    using assms(2) u by (simp add: kWordBits_def unat_mod)
qed

lemma unat_frame_mod: "unat (f mod kWordBits) = unat f mod 64"
  by (simp add: kWordBits_def unat_mod)

text \<open>The frames a scan from bitmap word \<open>i\<close> on can still hand out.\<close>

definition free_from :: "u64 \<Rightarrow> machine \<Rightarrow> u64 set" where
  "free_from i s = {f \<in> free_frames s. i \<le> f div kWordBits}"

definition take_frame :: "u64 \<Rightarrow> machine \<Rightarrow> machine" where
  "take_frame f s = (set_frame_used f s)\<lparr>free_frame_count := free_frame_count s - 1\<rparr>"

lemma free_from_end:
  assumes "bitmap_shape s" "\<not> i < bitmap_words s"
  shows "free_from i s = {}"
proof -
  have "unat f div 64 < (unat (frame_count s) + 63) div 64" if "f < frame_count s" for f
    using that by (simp add: word_less_nat_alt) 
  then show ?thesis
    using assms(2) unat_bitmap_words [OF assms(1)]
    by (auto simp: free_from_def free_frames_def frame_valid_def word_less_nat_alt word_le_nat_alt unat_frame_div)
qed

lemma free_from_step:
  assumes "i < bitmap_words s"
  shows "free_from i s = {f \<in> free_frames s. f div kWordBits = i} \<union> free_from (i + 1) s"
  using unat_Suc_less [OF assms]
  by (auto simp: free_from_def word_le_nat_alt intro!: unat_eqI)

lemma no_free_in_full_word:
  assumes "bitmap_get s i = UINT64_MAX"
  shows "{f \<in> free_frames s. f div kWordBits = i} = {}"
proof -
  have "(UINT64_MAX :: u64) = mask 64" by (simp add: mask_eq_exp_minus_1)
  then have "bit (UINT64_MAX :: u64) n" if "n < 64" for n
    using that by (simp only: bit_mask_iff) simp
  then show ?thesis
    using assms frame_mod_less by (auto simp: free_frames_def frame_used_def)
qed

text \<open>The first clear bit of a word that is not full is its least frame that is not used.\<close>

lemma first_clear_bit:
  assumes "unat i * 64 + 63 < 2 ^ 64" "bitmap_get s i \<noteq> UINT64_MAX"
  defines "f \<equiv> i * kWordBits + builtin_ctzll (NOT (bitmap_get s i))"
  shows "f div kWordBits = i" "\<not> frame_used s f"
    "\<not> frame_used s g \<Longrightarrow> i \<le> g div kWordBits \<Longrightarrow> f \<le> g"
proof -
  have "NOT (bitmap_get s i) \<noteq> 0"
  proof
    assume "NOT (bitmap_get s i) = 0"
    then have "bitmap_get s i = NOT 0" by (metis bit.double_compl)
    with assms(2) show False by simp
  qed
  note ctz = ctz_props [OF this]
  note parts = frame_of_parts [OF assms(1) ctz(1), folded f_def]
  show d: "f div kWordBits = i" by (rule parts(2))
  show "\<not> frame_used s f"
    using ctz(2) by (simp add: frame_used_def d parts(3) bit_simps)
  show "f \<le> g" if "\<not> frame_used s g" "i \<le> g div kWordBits"
  proof (cases "g div kWordBits = i")
    case True
    with that have "bit (NOT (bitmap_get s i)) (unat (g mod kWordBits))"
      using frame_mod_less [of g] by (simp add: frame_used_def bit_simps)
    then have "\<not> unat (g mod kWordBits) < unat (builtin_ctzll (NOT (bitmap_get s i)))"
      using ctz(3) by blast
    moreover have "unat g div 64 = unat i"
      using True by (metis unat_frame_div)
    ultimately show ?thesis
      using div_mult_mod_eq [of "unat g" 64] by (simp add: word_le_nat_alt parts(1) unat_frame_mod) 
  next
    case False
    with that(2) have "unat i < unat g div 64"
      by (metis order_le_imp_less_or_eq unat_frame_div word_less_nat_alt)
    then show ?thesis
      using ctz(1) by (simp add: word_le_nat_alt parts(1))
  qed
qed

lemma alloc_scan_spec:
  "bitmap_shape s \<Longrightarrow> alloc_scan i s =
     (if free_from i s = {} then (0, s)
      else (Min (free_from i s) * kPageSize, take_frame (Min (free_from i s)) s))"
proof (induction i s rule: alloc_scan.induct)
  case (1 i s)
  show ?case
  proof (cases "i < bitmap_words s")
    case False
    then show ?thesis
      using free_from_end [OF "1.prems"] by (simp add: alloc_scan.simps [of i s])
  next
    case less: True
    have i: "unat i * 64 + 63 < 2 ^ 64"
      using less by (rule scan_index_bound [OF "1.prems"])
    show ?thesis
    proof (cases "bitmap_get s i = UINT64_MAX")
      case True
      then have "free_from i s = free_from (i + 1) s"
        using free_from_step [OF less] no_free_in_full_word by simp
      then show ?thesis
        using less True "1.IH"(1) [OF less refl True "1.prems"] by (simp add: alloc_scan.simps [of i s])
    next
      case notfull: False
      let ?f = "i * kWordBits + builtin_ctzll (NOT (bitmap_get s i))"
      note f = first_clear_bit [OF i notfull]
      have low: "?f \<le> g" if "g \<in> free_from i s" for g
        using that f(3) [of g] by (simp add: free_from_def free_frames_def)
      show ?thesis
      proof (cases "frame_valid s ?f")
        case False
        then have "free_from i s = {}"
          using low by (force simp: free_from_def free_frames_def frame_valid_def)
        moreover from this have "free_from (i + 1) s = {}"
          using free_from_step [OF less] by simp
        ultimately show ?thesis
          using less notfull False "1.IH"(2) [OF less refl notfull refl refl refl False "1.prems"]
          by (simp add: alloc_scan.simps [of i s] Let_def)
      next
        case True
        then have "?f \<in> free_from i s"
          using f by (simp add: free_from_def free_frames_def)
        then have "Min (free_from i s) = ?f"
          using low by (intro Min_eqI) (auto simp: free_from_def)
        then show ?thesis
          using less notfull True \<open>?f \<in> free_from i s\<close>
          by (auto simp: alloc_scan.simps [of i s] Let_def take_frame_def)
      qed
    qed
  qed
qed

lemma free_from_0 [simp]: "free_from 0 s = free_frames s"
  by (simp add: free_from_def)

lemma alloc_frame_spec:
  "bitmap_shape s \<Longrightarrow> alloc_frame s =
     (if free_frames s = {} then (0, s)
      else (Min (free_frames s) * kPageSize, take_frame (Min (free_frames s)) s))"
  by (simp add: alloc_frame_def alloc_scan_spec)

section \<open>Effect of taking and returning a frame\<close>

text \<open>The 8-byte cells the bitmap occupies.\<close>

definition bitmap_cells :: "machine \<Rightarrow> ptr set" where
  "bitmap_cells s = {bitmap s + 8 * i | i. i < bitmap_words s}"

lemma frame_word_in_range:
  assumes "bitmap_shape s" "frame_valid s f"
  shows "f div kWordBits < bitmap_words s"
proof (rule ccontr)
  assume "\<not> f div kWordBits < bitmap_words s"
  moreover have "unat f div 64 < (unat (frame_count s) + 63) div 64"
    using assms(2) by (simp add: frame_valid_def word_less_nat_alt)
  ultimately show False
    using unat_bitmap_words [OF assms(1)] by (simp add: word_less_nat_alt unat_frame_div)
qed

lemma mem_bitmap_set_other:
  "a \<notin> bitmap_cells s \<Longrightarrow> i < bitmap_words s \<Longrightarrow> mem (bitmap_set i v s) a = mem s a"
  by (auto simp: bitmap_set_def bitmap_cells_def)

lemma mem_set_frame_other:
  assumes "bitmap_shape s" "a \<notin> bitmap_cells s"
  shows "mem (set_frame_used f s) a = mem s a" "mem (set_frame_free f s) a = mem s a"
  using assms frame_word_in_range [OF assms(1), of f]
  by (simp_all add: set_frame_used_def set_frame_free_def Let_def mem_bitmap_set_other)

lemma take_frame_fields [simp]:
  "bitmap (take_frame f s) = bitmap s" "bitmap_phys (take_frame f s) = bitmap_phys s"
  "bitmap_words (take_frame f s) = bitmap_words s" "bitmap_bytes (take_frame f s) = bitmap_bytes s"
  "frame_count (take_frame f s) = frame_count s" "g_hhdm_offset (take_frame f s) = g_hhdm_offset s"
  "msrs (take_frame f s) = msrs s" "cr3 (take_frame f s) = cr3 s" "klog (take_frame f s) = klog s"
  "free_frame_count (take_frame f s) = free_frame_count s - 1"
  "frame_valid (take_frame f s) g = frame_valid s g"
  "free_frames (take_frame f s) = free_frames s - {f}"
  "bitmap_cells (take_frame f s) = bitmap_cells s"
  "bitmap_shape (take_frame f s) = bitmap_shape s"
  by (simp_all add: take_frame_def free_frames_set_used bitmap_cells_def bitmap_shape_def frame_valid_def)

lemma frame_used_take: "frame_used (take_frame f s) g \<longleftrightarrow> frame_valid s f \<and> g = f \<or> frame_used s g"
  by (simp add: take_frame_def frame_used_set_used)

lemma mem_take_frame_other:
  "bitmap_shape s \<Longrightarrow> a \<notin> bitmap_cells s \<Longrightarrow> mem (take_frame f s) a = mem s a"
  by (simp add: take_frame_def mem_set_frame_other)

lemma pmm_wf_take_frame: "pmm_wf s \<Longrightarrow> f \<in> free_frames s \<Longrightarrow> pmm_wf (take_frame f s)"
  by (simp add: pmm_wf_def card_Diff_singleton of_nat_diff Suc_leI card_gt_0_iff)
    (metis card_gt_0_iff finite_free_frames empty_iff Suc_leI of_nat_diff One_nat_def of_nat_1)

text \<open>Returning a frame that is not free.\<close>

definition return_frame :: "u64 \<Rightarrow> machine \<Rightarrow> machine" where
  "return_frame f s = (set_frame_free f s)\<lparr>free_frame_count := free_frame_count s + 1\<rparr>"

lemma return_frame_fields [simp]:
  "bitmap (return_frame f s) = bitmap s" "bitmap_phys (return_frame f s) = bitmap_phys s"
  "bitmap_words (return_frame f s) = bitmap_words s" "bitmap_bytes (return_frame f s) = bitmap_bytes s"
  "frame_count (return_frame f s) = frame_count s" "g_hhdm_offset (return_frame f s) = g_hhdm_offset s"
  "msrs (return_frame f s) = msrs s" "cr3 (return_frame f s) = cr3 s" "klog (return_frame f s) = klog s"
  "free_frame_count (return_frame f s) = free_frame_count s + 1"
  "frame_valid (return_frame f s) g = frame_valid s g"
  "free_frames (return_frame f s) = (if frame_valid s f then insert f (free_frames s) else free_frames s)"
  "bitmap_cells (return_frame f s) = bitmap_cells s"
  "bitmap_shape (return_frame f s) = bitmap_shape s"
  by (simp_all add: return_frame_def free_frames_set_free bitmap_cells_def bitmap_shape_def frame_valid_def)

lemma frame_address:
  assumes "bitmap_shape s" "frame_valid s f"
  shows "unat (f * kPageSize) = unat f * 4096" "f * kPageSize mod kPageSize = 0"
    "f * kPageSize div kPageSize = f"
proof -
  have "unat f < 2 ^ 52"
    using assms by (simp add: bitmap_shape_def frame_valid_def word_less_nat_alt)
  then show u: "unat (f * kPageSize) = unat f * 4096"
    by (subst unat_mult_nowrap) (simp_all add: kPageSize_def)
  show "f * kPageSize mod kPageSize = 0"
    by (rule unat_eqI) (simp add: unat_mod u kPageSize_def [THEN arg_cong [of _ _ unat]])
  show "f * kPageSize div kPageSize = f"
    by (rule unat_eqI) (simp add: unat_div u kPageSize_def [THEN arg_cong [of _ _ unat]])
qed

lemma free_frame_cases:
  "free_frame a s =
     (if a mod kPageSize \<noteq> 0 then
        log_printf ''fatal: pmm::free_frame: misaligned address %p\<newline>'' [Word a] s
      else if \<not> frame_valid s (a div kPageSize) then
        log_printf ''fatal: pmm::free_frame: frame out of range: %lu\<newline>'' [Word (a div kPageSize)] s
      else if \<not> frame_used s (a div kPageSize) then
        log_printf ''fatal: pmm::free_frame: double free: %p\<newline>'' [Word a] s
      else return_frame (a div kPageSize) s)"
  by (simp add: free_frame_def Let_def frame_used_test [simplified] return_frame_def set_frame_free_def)

lemma pmm_wf_log [simp]: "pmm_wf (log_printf fmt args s) = pmm_wf s"
  by (simp add: pmm_wf_def bitmap_shape_def)

lemma pmm_wf_return_frame:
  "pmm_wf s \<Longrightarrow> f \<notin> free_frames s \<Longrightarrow> frame_valid s f \<Longrightarrow> pmm_wf (return_frame f s)"
  by (simp add: pmm_wf_def add.commute)

lemma return_take_frame:
  assumes v: "frame_valid s f" and nu: "\<not> frame_used s f"
  shows "return_frame f (take_frame f s) = s"
proof -
  let ?w = "bitmap_get s (f div kWordBits)" and ?m = "push_bit (unat (f mod kWordBits)) 1 :: u64"
  have key: "(?w OR ?m) AND NOT ?m = ?w"
  proof (rule bit_word_eqI)
    fix n
    assume "n < LENGTH(64)"
    then show "bit ((?w OR ?m) AND NOT ?m) n = bit ?w n"
      using nu unfolding frame_used_def by (auto simp: bit_simps)
  qed
  have "mem (return_frame f (take_frame f s)) =
      (mem s)(bitmap s + 8 * (f div kWordBits) := (?w OR ?m) AND NOT ?m)"
    using v by (simp add: return_frame_def take_frame_def set_frame_free_def set_frame_used_def Let_def
        frame_valid_def bitmap_get_def bitmap_set_def)
  also have "\<dots> = mem s"
    unfolding key by (simp add: bitmap_get_def)
  finally show ?thesis
    by (intro machine.equality) simp_all
qed

section \<open>The allocator's contract\<close>

text \<open>
  What a client of the frame allocator relies on: \<open>pool\<close> is the set of frame numbers an
  allocation can hand out, \<open>managed\<close> the frame numbers the allocator knows. Addresses are frame
  numbers times the page size.
\<close>

text \<open>A client that allocates \<open>n\<close> frames in a row.\<close>

fun alloc_n :: "('s \<Rightarrow> u64 \<times> 's) \<Rightarrow> nat \<Rightarrow> 's \<Rightarrow> u64 list \<times> 's" where
  "alloc_n alloc 0 s = ([], s)"
| "alloc_n alloc (Suc n) s =
     (let (a, s') = alloc s; (as, s'') = alloc_n alloc n s' in (a # as, s''))"

text \<open>
  A client that interleaves allocations and releases and remembers which addresses it holds.
\<close>

datatype pool_op = Acquire | Release u64

fun client_step :: "('s \<Rightarrow> u64 \<times> 's) \<Rightarrow> (u64 \<Rightarrow> 's \<Rightarrow> 's) \<Rightarrow> pool_op \<Rightarrow> u64 set \<times> 's \<Rightarrow> u64 set \<times> 's" where
  "client_step alloc release Acquire (held, s) = (let (a, s') = alloc s in (insert a held, s'))"
| "client_step alloc release (Release a) (held, s) = (held - {a}, release a s)"

text \<open>No address the client holds is in the pool.\<close>

definition holds :: "('s \<Rightarrow> u64 set) \<Rightarrow> u64 set \<Rightarrow> 's \<Rightarrow> bool" where
  "holds pool held s \<longleftrightarrow> (\<forall>f\<in>pool s. f * kPageSize \<notin> held)"

locale frame_allocator =
  fixes inv :: "'s \<Rightarrow> bool"
    and pool :: "'s \<Rightarrow> u64 set"
    and managed :: "'s \<Rightarrow> u64 set"
    and alloc :: "'s \<Rightarrow> u64 \<times> 's"
    and release :: "u64 \<Rightarrow> 's \<Rightarrow> 's"
  assumes pool_managed: "inv s \<Longrightarrow> pool s \<subseteq> managed s"
    and managed_bound: "inv s \<Longrightarrow> f \<in> managed s \<Longrightarrow> unat f < 2 ^ 52"
    and alloc_empty: "inv s \<Longrightarrow> pool s = {} \<Longrightarrow> alloc s = (0, s)"
    and alloc_least: "inv s \<Longrightarrow> pool s \<noteq> {} \<Longrightarrow> fst (alloc s) = Min (pool s) * kPageSize"
    and alloc_pool: "inv s \<Longrightarrow> pool s \<noteq> {} \<Longrightarrow> pool (snd (alloc s)) = pool s - {Min (pool s)}"
    and alloc_inv: "inv s \<Longrightarrow> inv (snd (alloc s))"
    and alloc_managed: "inv s \<Longrightarrow> managed (snd (alloc s)) = managed s"
    and release_pool: "inv s \<Longrightarrow> f \<in> managed s \<Longrightarrow> pool (release (f * kPageSize) s) = insert f (pool s)"
    and release_refused: "inv s \<Longrightarrow> (\<And>f. f \<in> managed s \<Longrightarrow> a \<noteq> f * kPageSize) \<Longrightarrow> pool (release a s) = pool s"
    and release_inv: "inv s \<Longrightarrow> inv (release a s)"
    and release_managed: "inv s \<Longrightarrow> managed (release a s) = managed s"
begin

lemma address_inj:
  assumes "inv s" "f \<in> managed s" "g \<in> managed s"
  shows "f * kPageSize = g * kPageSize \<longleftrightarrow> f = g"
proof
  have u: "unat (x * kPageSize) = unat x * 4096" if "x \<in> managed s" for x
    using managed_bound [OF assms(1) that] by (subst unat_mult_nowrap) (simp_all add: kPageSize_def)
  assume "f * kPageSize = g * kPageSize"
  then have "unat f * 4096 = unat g * 4096" using u assms(2,3) by metis
  then show "f = g" by (intro unat_eqI) simp
qed simp

lemma Min_in_pool: "pool s \<noteq> {} \<Longrightarrow> Min (pool s) \<in> pool s"
  by (rule Min_in) (auto intro: finite_subset [OF subset_UNIV finite])

lemma card_pool_alloc: "inv s \<Longrightarrow> pool s \<noteq> {} \<Longrightarrow> Suc (card (pool (snd (alloc s)))) = card (pool s)"
  by (subst alloc_pool, assumption, assumption, rule card_Suc_Diff1 [OF finite Min_in_pool])

lemma alloc_n_managed: "inv s \<Longrightarrow> alloc_n alloc n s = (as, s') \<Longrightarrow> managed s' = managed s"
proof (induction n arbitrary: s as)
  case (Suc n)
  then show ?case using alloc_inv alloc_managed by (fastforce split: prod.splits)
qed simp

text \<open>Consecutive allocations hand out distinct frames, all of them from the pool.\<close>

lemma alloc_n_distinct:
  "inv s \<Longrightarrow> n \<le> card (pool s) \<Longrightarrow> alloc_n alloc n s = (as, s') \<Longrightarrow>
     inv s' \<and> pool s' \<subseteq> pool s \<and> length as = n \<and> distinct as \<and>
     set as = (\<lambda>f. f * kPageSize) ` (pool s - pool s')"
proof (induction n arbitrary: s as)
  case 0
  then show ?case by simp
next
  case (Suc n)
  obtain a s1 where a: "alloc s = (a, s1)" by fastforce
  obtain as' where as: "alloc_n alloc n s1 = (as', s')" "as = a # as'"
    using Suc.prems(3) a by (auto split: prod.splits)
  have ne: "pool s \<noteq> {}" using Suc.prems(2) by auto
  let ?m = "Min (pool s)"
  have m: "?m \<in> pool s" by (rule Min_in_pool [OF ne])
  have s1: "inv s1" "pool s1 = pool s - {?m}" "a = ?m * kPageSize"
    using alloc_inv [OF Suc.prems(1)] alloc_pool [OF Suc.prems(1) ne] alloc_least [OF Suc.prems(1) ne]
    by (simp_all add: a)
  have "n \<le> card (pool s1)"
    using card_pool_alloc [OF Suc.prems(1) ne] Suc.prems(2) by (simp add: a)
  note IH = Suc.IH [OF s1(1) this as(1)]
  have man: "pool s \<subseteq> managed s" by (rule pool_managed [OF Suc.prems(1)])
  have "pool s - pool s' = insert ?m (pool s1 - pool s')"
    using IH s1(2) m by blast
  moreover have "a \<notin> (\<lambda>f. f * kPageSize) ` (pool s1 - pool s')"
    using man m s1(2,3) address_inj [OF Suc.prems(1)] by (auto simp: subset_iff)
  ultimately show ?case using IH as(2) s1 by auto
qed

text \<open>As many allocations as there are frames empty the pool, and releases put frames back.\<close>

lemma alloc_n_all:
  assumes "inv s" "alloc_n alloc (card (pool s)) s = (as, s')"
  shows "inv s'" "managed s' = managed s" "pool s' = {}" "distinct as" "length as = card (pool s)"
    "set as = (\<lambda>f. f * kPageSize) ` pool s"
proof -
  note d = alloc_n_distinct [OF assms(1) order_refl assms(2)]
  then show "inv s'" "distinct as" "length as = card (pool s)" by blast+
  have "card (pool s) = card (set as)" using d distinct_card by metis
  also have "\<dots> \<le> card (pool s - pool s')" using d card_image_le [OF finite, of _ "pool s - pool s'"] by simp
  also have "\<dots> = card (pool s) - card (pool s')" by (rule card_Diff_subset) (use d in simp_all)
  finally have "card (pool s') = 0" using card_mono [OF finite, of "pool s'" "pool s"] d by linarith
  then show "pool s' = {}" by simp
  with d show "set as = (\<lambda>f. f * kPageSize) ` pool s" by simp
  show "managed s' = managed s" by (rule alloc_n_managed [OF assms])
qed

lemma release_all:
  "inv s \<Longrightarrow> set fs \<subseteq> managed s \<Longrightarrow> inv (fold (\<lambda>f. release (f * kPageSize)) fs s) \<and>
     pool (fold (\<lambda>f. release (f * kPageSize)) fs s) = set fs \<union> pool s"
  by (induction fs arbitrary: s) (auto simp: release_inv release_managed release_pool)

text \<open>
  Addresses a client holds never go back to the pool behind its back, whatever sequence of
  acquisitions and releases it performs.
\<close>

lemma client_step_inv: "inv s \<Longrightarrow> inv (snd (client_step alloc release op (held, s)))"
  using alloc_inv [of s] release_inv [of s] by (cases op) (auto split: prod.splits)

lemma holds_acquire:
  assumes "inv s" "holds pool held s"
  shows "holds pool (insert (fst (alloc s)) held) (snd (alloc s))"
proof (cases "pool s = {}")
  case True
  with assms show ?thesis by (simp add: alloc_empty holds_def)
next
  case False
  have "f * kPageSize \<noteq> Min (pool s) * kPageSize" if "f \<in> pool s - {Min (pool s)}" for f
    using that address_inj [OF assms(1)] pool_managed [OF assms(1)] Min_in_pool [OF False] by blast
  with assms False show ?thesis by (auto simp: holds_def alloc_pool alloc_least)
qed

lemma holds_release:
  assumes "inv s" "holds pool held s"
  shows "holds pool (held - {a}) (release a s)"
proof (cases "\<exists>f\<in>managed s. a = f * kPageSize")
  case True
  then obtain f where "f \<in> managed s" "a = f * kPageSize" by blast
  with assms show ?thesis by (auto simp: holds_def release_pool)
next
  case False
  then have "pool (release a s) = pool s" by (intro release_refused [OF assms(1)]) blast
  with assms(2) show ?thesis by (simp add: holds_def)
qed

lemma client_run_holds:
  "inv s \<Longrightarrow> holds pool held s \<Longrightarrow> fold (client_step alloc release) ops (held, s) = (held', s') \<Longrightarrow>
     inv s' \<and> holds pool held' s'"
proof (induction ops arbitrary: held s)
  case Nil
  then show ?case by simp
next
  case (Cons op ops)
  obtain held1 s1 where step: "client_step alloc release op (held, s) = (held1, s1)"
    by fastforce
  have "inv s1" using client_step_inv [OF Cons.prems(1), of op held] step by simp
  moreover have "holds pool held1 s1"
  proof (cases op)
    case Acquire
    with step holds_acquire [OF Cons.prems(1,2)] show ?thesis by (auto split: prod.splits)
  next
    case (Release a)
    with step holds_release [OF Cons.prems(1,2)] show ?thesis by auto
  qed
  ultimately show ?case using Cons.IH Cons.prems(3) step by simp
qed

lemma acquire_not_held:
  "inv s \<Longrightarrow> holds pool held s \<Longrightarrow> pool s \<noteq> {} \<Longrightarrow> fst (alloc s) \<notin> held"
  using Min_in_pool by (auto simp: holds_def alloc_least)

end

text \<open>The bitmap allocator meets the contract.\<close>

definition managed_frames :: "machine \<Rightarrow> u64 set" where
  "managed_frames s = {f. frame_valid s f}"

interpretation pmm: frame_allocator pmm_wf free_frames managed_frames alloc_frame free_frame
proof (unfold_locales, goal_cases)
  case (1 s)
  show ?case by (auto simp: free_frames_def managed_frames_def)
next
  case (2 s f)
  then show ?case
    by (auto simp: pmm_wf_def bitmap_shape_def managed_frames_def frame_valid_def word_less_nat_alt)
next
  case (3 s)
  then show ?case by (simp add: alloc_frame_spec pmm_wf_def)
next
  case (4 s)
  then show ?case by (simp add: alloc_frame_spec pmm_wf_def)
next
  case (5 s)
  then show ?case by (simp add: alloc_frame_spec pmm_wf_def)
next
  case (6 s)
  then show ?case
    using pmm_wf_take_frame [of s "Min (free_frames s)"] Min_in [OF finite_free_frames, of s]
    by (simp add: alloc_frame_spec pmm_wf_def)
next
  case (7 s)
  then show ?case by (auto simp: alloc_frame_spec pmm_wf_def managed_frames_def)
next
  case (8 s f)
  then show ?case
    by (auto simp: free_frame_cases frame_address pmm_wf_def managed_frames_def)
      (auto simp: free_frames_def)
next
  case (9 s a)
  have "a = a div kPageSize * kPageSize" if "a mod kPageSize = 0"
    using div_mult_mod_eq [of a kPageSize] that by simp
  with 9(2) [of "a div kPageSize"] have "\<not> (a mod kPageSize = 0 \<and> frame_valid s (a div kPageSize))"
    unfolding managed_frames_def mem_Collect_eq by metis
  then show ?case by (auto simp: free_frame_cases)
next
  case (10 s a)
  then show ?case
    using pmm_wf_return_frame [of s "a div kPageSize"] by (auto simp: free_frame_cases free_frames_def)
next
  case (11 s a)
  then show ?case by (auto simp: free_frame_cases managed_frames_def)
qed

section \<open>A small allocator\<close>

text \<open>Two frames, the first used: a concrete state for the properties' instances.\<close>

definition two_frames :: machine where
  "two_frames = \<lparr> mem = (\<lambda>_. 1), bitmap = 0x8000, bitmap_phys = 0, bitmap_words = 1, bitmap_bytes = 8,
     frame_count = 2, free_frame_count = 1, g_hhdm_offset = 0x8000, msrs = (\<lambda>_. 0), cr3 = 0, klog = [] \<rparr>"

lemma free_two_frames: "free_frames two_frames = {1}"
proof -
  have less: "f < 2 \<longleftrightarrow> f = 0 \<or> f = 1" for f :: u64
  proof
    assume "f < 2"
    then have "unat f = unat (0 :: u64) \<or> unat f = unat (1 :: u64)"
      by (auto simp: word_less_nat_alt)
    then show "f = 0 \<or> f = 1" by (auto simp only: unsigned_word_eqI)
  qed auto
  show ?thesis
    by (auto simp: less free_frames_def frame_valid_def frame_used_def two_frames_def bitmap_get_def kWordBits_def)
qed

lemma pmm_wf_two_frames: "pmm_wf two_frames"
  by (simp add: pmm_wf_def free_two_frames) (simp add: bitmap_shape_def two_frames_def kWordBits_def)

text \<open>Four frames, the first used.\<close>

definition four_frames :: machine where
  "four_frames = two_frames\<lparr>frame_count := 4, free_frame_count := 3\<rparr>"

lemma free_four_frames: "free_frames four_frames = {1, 2, 3}"
proof -
  have less: "f < 4 \<longleftrightarrow> f = 0 \<or> f = 1 \<or> f = 2 \<or> f = 3" for f :: u64
  proof
    assume "f < 4"
    then have "unat f \<in> {0, 1, 2, 3}" by (auto simp: word_less_nat_alt)
    then have "unat f = unat (0 :: u64) \<or> unat f = unat (1 :: u64) \<or> unat f = unat (2 :: u64) \<or> unat f = unat (3 :: u64)" by simp
    then show "f = 0 \<or> f = 1 \<or> f = 2 \<or> f = 3" by (auto simp only: unsigned_word_eqI)
  qed auto
  show ?thesis
    by (auto simp: less free_frames_def frame_valid_def frame_used_def four_frames_def two_frames_def bitmap_get_def kWordBits_def)
qed

lemma pmm_wf_four_frames: "pmm_wf four_frames"
  by (simp add: pmm_wf_def free_four_frames) (simp add: bitmap_shape_def four_frames_def two_frames_def kWordBits_def)

section \<open>Properties\<close>

text \<open>
  C15: in a well-formed allocator with a free frame, \<open>alloc_frame\<close> returns the address of the
  least free frame, marks exactly that frame used, decrements the free counter and keeps the
  allocator well-formed; every cell of memory outside the bitmap is unchanged.
\<close>

theorem alloc_frame_takes_least:
  assumes "pmm_wf s" "free_frames s \<noteq> {}" "alloc_frame s = (a, s')"
  shows "a = Min (free_frames s) * kPageSize \<and> free_frames s' = free_frames s - {Min (free_frames s)} \<and>
    pmm_wf s' \<and> free_frame_count s' = free_frame_count s - 1 \<and>
    (\<forall>p. p \<notin> bitmap_cells s \<longrightarrow> mem s' p = mem s p)"
proof -
  have sh: "bitmap_shape s" using assms(1) by (simp add: pmm_wf_def)
  have "a = Min (free_frames s) * kPageSize" and s': "s' = take_frame (Min (free_frames s)) s"
    using assms(2,3) by (simp_all add: alloc_frame_spec [OF sh])
  moreover have "pmm_wf s'"
    using pmm.alloc_inv [OF assms(1)] assms(3) by simp
  ultimately show ?thesis
    using mem_take_frame_other [OF sh] by simp
qed

theorem alloc_frame_takes_least_witness:
  "fst (alloc_frame two_frames) = 0x1000 \<and> free_frames (snd (alloc_frame two_frames)) = {}"
  using alloc_frame_takes_least [OF pmm_wf_two_frames, of "fst (alloc_frame two_frames)" "snd (alloc_frame two_frames)"]
  by (simp add: free_two_frames kPageSize_def)

text \<open>
  With no free frame left \<open>alloc_frame\<close> returns 0 and changes nothing.
\<close>

theorem alloc_frame_exhausted:
  "pmm_wf s \<Longrightarrow> free_frames s = {} \<Longrightarrow> alloc_frame s = (0, s)"
  by (rule pmm.alloc_empty)

text \<open>
  As many allocations as there are free frames all succeed: they return pairwise distinct
  frame addresses, exactly those of the frames that left the free set.
\<close>

theorem alloc_frame_distinct:
  "pmm_wf s \<Longrightarrow> n \<le> card (free_frames s) \<Longrightarrow> alloc_n alloc_frame n s = (as, s') \<Longrightarrow>
     pmm_wf s' \<and> free_frames s' \<subseteq> free_frames s \<and> length as = n \<and> distinct as \<and>
     set as = (\<lambda>f. f * kPageSize) ` (free_frames s - free_frames s')"
  by (rule pmm.alloc_n_distinct)

text \<open>
  C16: whatever sequence of \<open>alloc_frame\<close> and \<open>free_frame\<close> calls a client makes, starting from holding
  nothing, as long as a frame is free afterwards the next allocation does not return an address the
  client still holds. (When none is free the answer is 0, which says nothing about frame 0.)
\<close>

theorem alloc_frame_never_aliases:
  "pmm_wf s \<Longrightarrow> fold (client_step alloc_frame free_frame) ops ({}, s) = (held, s') \<Longrightarrow>
     free_frames s' \<noteq> {} \<Longrightarrow> fst (alloc_frame s') \<notin> held"
  using pmm.client_run_holds [of s "{}" ops held s'] pmm.acquire_not_held [of s' held]
  by (simp add: holds_def)

theorem alloc_frame_never_aliases_witness:
  "\<exists>s'. fold (client_step alloc_frame free_frame) [Acquire, Acquire] ({}, four_frames) = ({0x1000, 0x2000}, s') \<and>
     fst (alloc_frame s') \<notin> {0x1000, 0x2000}"
proof -
  let ?s = "take_frame 1 four_frames"
  let ?t = "take_frame 2 ?s"
  have w: "pmm_wf ?s" "free_frames ?s = {2, 3}"
    using pmm_wf_take_frame [OF pmm_wf_four_frames] by (auto simp: free_four_frames)
  have a: "alloc_frame four_frames = (0x1000, ?s)" "alloc_frame ?s = (0x2000, ?t)"
    using w pmm_wf_four_frames by (simp_all add: pmm_wf_def alloc_frame_spec free_four_frames kPageSize_def)
  then have f: "fold (client_step alloc_frame free_frame) [Acquire, Acquire] ({}, four_frames) = ({0x1000, 0x2000}, ?t)" by auto
  have "free_frames ?t \<noteq> {}" using w(2) by auto
  from alloc_frame_never_aliases [OF pmm_wf_four_frames f this] f show ?thesis by blast
qed

text \<open>
  C29: \<open>free_frame\<close> on every branch: a misaligned address, a frame out of range and a frame that is
  already free are reported and leave the allocator as it was; any other frame becomes free and
  the counter goes up by one. The allocator stays well-formed.
\<close>

theorem free_frame_behaviour:
  assumes "pmm_wf s"
  shows "pmm_wf (free_frame a s) \<and>
    (a mod kPageSize \<noteq> 0 \<longrightarrow>
       free_frame a s = log_printf ''fatal: pmm::free_frame: misaligned address %p\<newline>'' [Word a] s) \<and>
    (a mod kPageSize = 0 \<and> \<not> frame_valid s (a div kPageSize) \<longrightarrow>
       free_frame a s =
         log_printf ''fatal: pmm::free_frame: frame out of range: %lu\<newline>'' [Word (a div kPageSize)] s) \<and>
    (a mod kPageSize = 0 \<and> a div kPageSize \<in> free_frames s \<longrightarrow>
       free_frame a s = log_printf ''fatal: pmm::free_frame: double free: %p\<newline>'' [Word a] s) \<and>
    (a mod kPageSize = 0 \<and> frame_valid s (a div kPageSize) \<and> a div kPageSize \<notin> free_frames s \<longrightarrow>
       free_frames (free_frame a s) = insert (a div kPageSize) (free_frames s) \<and>
       free_frame_count (free_frame a s) = free_frame_count s + 1 \<and>
       klog (free_frame a s) = klog s)"
  using pmm.release_inv [OF assms, of a]
  by (simp add: free_frame_cases mem_free_frames_iff)

theorem free_frame_behaviour_witness:
  "pmm_wf (free_frame 0x1001 two_frames) \<and>
   free_frame 0x1001 two_frames =
     log_printf ''fatal: pmm::free_frame: misaligned address %p\<newline>'' [Word 0x1001] two_frames"
  using free_frame_behaviour [OF pmm_wf_two_frames, of "0x1001"]
  by (simp add: kPageSize_def pmm_wf_two_frames)

text \<open>
  Allocating a frame and freeing it again restores the whole machine state, bitmap bits,
  counter and console included.
\<close>

theorem alloc_free_roundtrip:
  assumes "pmm_wf s" "free_frames s \<noteq> {}" "alloc_frame s = (a, s')"
  shows "free_frame a s' = s"
proof -
  let ?f = "Min (free_frames s)"
  have sh: "bitmap_shape s" using assms(1) by (simp add: pmm_wf_def)
  have f: "?f \<in> free_frames s" using assms(2) by (simp add: Min_in)
  then have v: "frame_valid s ?f" and nu: "\<not> frame_used s ?f" by (simp_all add: free_frames_def)
  have a: "a = ?f * kPageSize" and s': "s' = take_frame ?f s"
    using assms(2,3) by (simp_all add: alloc_frame_spec [OF sh])
  have "return_frame ?f s' = s" unfolding s' by (rule return_take_frame [OF v nu])
  moreover have "free_frame a s' = return_frame ?f s'"
    using frame_address [OF sh v] v by (simp add: a free_frame_cases s' frame_used_take)
  ultimately show ?thesis by simp
qed

end
