(* ===== verification/Msr.thy ===== *)
theory Msr
  imports Machine
begin

text \<open>
  Model-specific registers, \<open>src/src/arch/x86_64/msr.hpp\<close>. \<open>rdmsr\<close> and \<open>wrmsr\<close> move a register
  as an EDX:EAX pair; the helpers split and join the two halves.
\<close>

section \<open>Model\<close>

definition kEferMsr :: u32 where
  "kEferMsr = 0xC0000080"

definition kEferNxe :: u64 where
  "kEferNxe = push_bit 11 1"

text \<open>The two instructions: the register's halves in EAX and EDX.\<close>

definition rdmsr :: "u32 \<Rightarrow> machine \<Rightarrow> u32 \<times> u32" where
  "rdmsr msr s = (ucast (msrs s msr), ucast (drop_bit 32 (msrs s msr)))"

definition wrmsr :: "u32 \<Rightarrow> u32 \<Rightarrow> u32 \<Rightarrow> machine \<Rightarrow> machine" where
  "wrmsr msr lo hi s = s\<lparr>msrs := (msrs s)(msr := word_cat hi lo)\<rparr>"

definition read_msr :: "u32 \<Rightarrow> machine \<Rightarrow> u64" where
  "read_msr msr s = (let (lo, hi) = rdmsr msr s in push_bit 32 (ucast hi) OR ucast lo)"

definition write_msr :: "u32 \<Rightarrow> u64 \<Rightarrow> machine \<Rightarrow> machine" where
  "write_msr msr value s =
     (let lo = ucast value; hi = ucast (drop_bit 32 value) in wrmsr msr lo hi s)"

definition enable_nx :: "machine \<Rightarrow> machine" where
  "enable_nx s =
     (let efer = read_msr kEferMsr s
      in if efer AND kEferNxe = 0 then write_msr kEferMsr (efer OR kEferNxe) s else s)"

section \<open>Lemmas\<close>

lemma bit_kEferNxe: "bit kEferNxe n \<longleftrightarrow> n = 11"
  unfolding kEferNxe_def by (simp only: bit_push_bit_iff possible_bit_word bit_1_iff) auto

lemma read_msr_eq: "read_msr m s = msrs s m"
  by (rule bit_word_eqI) (auto simp: read_msr_def rdmsr_def bit_simps)

lemma write_msr_eq: "write_msr m v s = s\<lparr>msrs := (msrs s)(m := v)\<rparr>"
proof -
  have "word_cat (ucast (drop_bit 32 v) :: u32) (ucast v :: u32) = v"
    by (rule bit_word_eqI) (auto simp: bit_word_cat_iff bit_simps)
  then show ?thesis by (simp add: write_msr_def wrmsr_def)
qed

lemma enable_nx_eq: "enable_nx s = s\<lparr>msrs := (msrs s)(kEferMsr := msrs s kEferMsr OR kEferNxe)\<rparr>"
proof (cases "msrs s kEferMsr AND kEferNxe = 0")
  case True
  then show ?thesis by (simp add: enable_nx_def read_msr_eq write_msr_eq)
next
  case False
  then have b: "bit (msrs s kEferMsr) 11" by (simp only: kEferNxe_def bit_and_one_iff)
  then have "msrs s kEferMsr OR kEferNxe = msrs s kEferMsr"
    by (intro bit_word_eqI) (auto simp: bit_kEferNxe bit_simps)
  with False show ?thesis by (simp add: enable_nx_def read_msr_eq)
qed

lemma enable_nx_fields [simp]:
  "mem (enable_nx s) = mem s" "bitmap (enable_nx s) = bitmap s"
  "bitmap_phys (enable_nx s) = bitmap_phys s" "bitmap_words (enable_nx s) = bitmap_words s"
  "bitmap_bytes (enable_nx s) = bitmap_bytes s" "frame_count (enable_nx s) = frame_count s"
  "free_frame_count (enable_nx s) = free_frame_count s"
  "g_hhdm_offset (enable_nx s) = g_hhdm_offset s"
  "cr3 (enable_nx s) = cr3 s" "klog (enable_nx s) = klog s"
  by (simp_all add: enable_nx_eq)

section \<open>Properties\<close>

text \<open>
  Writing a register and reading it back through the EDX:EAX halves gives the value written,
  other registers keep theirs, and \<open>enable_nx\<close> sets the no-execute enable bit of EFER, keeps its
  other bits and every other register, and changes nothing when the bit is already set.
\<close>

theorem msr_roundtrip_and_nx:
  "read_msr m (write_msr n v s) = (if m = n then v else read_msr m s) \<and>
   read_msr m (enable_nx s) = (if m = kEferMsr then read_msr m s OR kEferNxe else read_msr m s) \<and>
   bit (read_msr kEferMsr (enable_nx s)) 11 \<and> enable_nx (enable_nx s) = enable_nx s"
  by (auto simp: read_msr_eq write_msr_eq enable_nx_eq bit_simps bit_kEferNxe or.assoc)

end
