(* ===== verification/Vmm.thy ===== *)
theory Vmm
  imports Pmm Msr "HOL-Library.Monad_Syntax"
begin

text \<open>
  The virtual memory manager, \<open>src/src/mm/vmm.cpp\<close>: page-table allocation, mapping of one 4 KiB
  or 2 MiB page and of ranges of them, translation, and the construction of the kernel's own
  address space. This theory holds the model; the theories \<open>Page_Tables\<close>, \<open>Vmm_Map\<close>,
  \<open>Vmm_Range\<close>, \<open>Vmm_Exhaustion\<close>, \<open>Vmm_Steps\<close> and \<open>Vmm_Kernel\<close> hold what is proved about it.

  A page table is reached through its address in the direct map. Entry \<open>i\<close> of the table at \<open>t\<close> is
  the memory cell \<open>t + 8 * i\<close>, and a C++ reference to an entry is that cell's address. Functions
  that return a C++ \<open>bool\<close> or pointer return it with the machine state; a pointer result 0 is
  \<open>nullptr\<close>.
\<close>

section \<open>Data\<close>

record AddressSpace =
  pml4 :: ptr
  pml4_physical :: u64

record AllocatedTable =
  physical :: u64
  virtual_address :: ptr

record KernelLayout =
  virtual_base :: u64
  physical_base :: u64
  image_start :: u64
  text_start :: u64
  rodata_start :: u64
  data_start :: u64
  data_end :: u64

definition entry_cell :: "ptr \<Rightarrow> u16 \<Rightarrow> ptr" where
  "entry_cell table index = table + 8 * ucast index"

definition store :: "ptr \<Rightarrow> u64 \<Rightarrow> machine \<Rightarrow> machine" where
  "store p v s = s\<lparr>mem := (mem s)(p := v)\<rparr>"

section \<open>Tables\<close>

text \<open>\<open>for (size_t i = 0; i < kPageTableEntries; ++i) virtual_address->entries[i] = 0\<close>.\<close>

function zero_entries :: "ptr \<Rightarrow> u64 \<Rightarrow> machine \<Rightarrow> machine" where
  "zero_entries table i s =
     (if i < kPageTableEntries then zero_entries table (i + 1) (store (table + 8 * i) 0 s) else s)"
  by pat_completeness auto
termination
  by (relation "measure (\<lambda>(table, i, s). 512 - unat i)")
    (auto simp: kPageTableEntries_def word_less_nat_alt unat_Suc_less [of _ 512])

declare zero_entries.simps [simp del]

definition allocate_table :: "machine \<Rightarrow> AllocatedTable option \<times> machine" where
  "allocate_table s =
     (let (phys, s) = alloc_frame s
      in if phys = UINT64_MAX then (None, s)
         else let virt = physical_to_virtual s phys;
                  s = zero_entries virt 0 s
              in (Some \<lparr>physical = phys, virtual_address = virt\<rparr>, s))"

definition create_address_space :: "AddressSpace \<Rightarrow> machine \<Rightarrow> bool \<times> AddressSpace \<times> machine" where
  "create_address_space out s =
     (case allocate_table s of
        (None, s) \<Rightarrow> (False, out, s)
      | (Some table, s) \<Rightarrow>
          (True, \<lparr>pml4 = virtual_address table, pml4_physical = physical table\<rparr>, s))"

definition intermediate_flags :: "PageFlags \<Rightarrow> PageFlags" where
  "intermediate_flags leaf_flags =
     (let result = flags_or PF_Present PF_Writable
      in if leaf_flags AND PF_User \<noteq> 0 then flags_or_assign result PF_User else result)"

definition ensure_table :: "ptr \<Rightarrow> PageFlags \<Rightarrow> machine \<Rightarrow> ptr \<times> machine" where
  "ensure_table entry middle_flags s =
     (if mem s entry AND PF_Huge \<noteq> 0 then (nullptr, s)
      else if mem s entry AND PF_Present = 0 then
        (case allocate_table s of
           (None, s) \<Rightarrow> (nullptr, s)
         | (Some table, s) \<Rightarrow>
             (virtual_address table, store entry (make_page_entry (physical table) middle_flags) s))
      else
        let s = store entry (mem s entry OR middle_flags) s
        in (physical_to_virtual s (page_entry_address (mem s entry)), s))"

section \<open>Mapping\<close>

definition map_page :: "ptr \<Rightarrow> u64 \<Rightarrow> u64 \<Rightarrow> PageFlags \<Rightarrow> machine \<Rightarrow> bool \<times> machine" where
  "map_page pml4_table virt phys flags s =
     (if pml4_table = nullptr then (False, s)
      else if \<not> is_canonical virt then (False, s)
      else if virt AND (kPageSize - 1) \<noteq> 0 then (False, s)
      else if phys AND (kPageSize - 1) \<noteq> 0 then (False, s)
      else if phys AND NOT kPhysicalAddressMask \<noteq> 0 then (False, s)
      else if flags AND PF_Huge \<noteq> 0 then (False, s)
      else
        let address = decompose_address virt;
            middle_flags = intermediate_flags flags;
            (pdpt, s) = ensure_table (entry_cell pml4_table (pml4_index address)) middle_flags s
        in if pdpt = nullptr then (False, s)
           else
             let (pd, s) = ensure_table (entry_cell pdpt (pdpt_index address)) middle_flags s
             in if pd = nullptr then (False, s)
                else
                  let (pt, s) = ensure_table (entry_cell pd (pd_index address)) middle_flags s
                  in if pt = nullptr then (False, s)
                     else
                       let pt_entry = entry_cell pt (pt_index address)
                       in if mem s pt_entry AND PF_Present \<noteq> 0 then (False, s)
                          else (True, store pt_entry
                                  (make_page_entry phys (flags_or flags PF_Present)) s))"

definition map_page_large :: "ptr \<Rightarrow> u64 \<Rightarrow> u64 \<Rightarrow> PageFlags \<Rightarrow> machine \<Rightarrow> bool \<times> machine" where
  "map_page_large pml4_table virt phys flags s =
     (if pml4_table = nullptr then (False, s)
      else if \<not> is_canonical virt then (False, s)
      else if virt AND (kLargePageSize - 1) \<noteq> 0 then (False, s)
      else if phys AND (kLargePageSize - 1) \<noteq> 0 then (False, s)
      else if phys AND NOT kPhysicalAddressMask \<noteq> 0 then (False, s)
      else
        let address = decompose_address virt;
            middle_flags = intermediate_flags flags;
            (pdpt, s) = ensure_table (entry_cell pml4_table (pml4_index address)) middle_flags s
        in if pdpt = nullptr then (False, s)
           else
             let (pd, s) = ensure_table (entry_cell pdpt (pdpt_index address)) middle_flags s
             in if pd = nullptr then (False, s)
                else
                  let pd_entry = entry_cell pd (pd_index address)
                  in if mem s pd_entry AND PF_Present \<noteq> 0 then (False, s)
                     else (True, store pd_entry
                             (make_page_entry phys (flags_or (flags_or flags PF_Present) PF_Huge)) s))"

text \<open>
  The range loops. Their counter wraps at \<open>2 ^ 64\<close>, so for an arbitrary \<open>size\<close> nothing bounds the
  number of rounds; the result \<open>None\<close> stands for a loop that does not end.
\<close>

partial_function (option) map_range_loop ::
  "AddressSpace \<Rightarrow> u64 \<Rightarrow> u64 \<Rightarrow> u64 \<Rightarrow> PageFlags \<Rightarrow> u64 \<Rightarrow> machine \<Rightarrow> (bool \<times> machine) option" where
  "map_range_loop space virt phys size_bytes flags page_offset s =
     (if page_offset < size_bytes then
        case map_page (pml4 space) (virt + page_offset) (phys + page_offset) flags s of
          (ok, s) \<Rightarrow>
            if \<not> ok then Some (False, s)
            else map_range_loop space virt phys size_bytes flags (page_offset + kPageSize) s
      else Some (True, s))"

definition map_range ::
  "AddressSpace \<Rightarrow> u64 \<Rightarrow> u64 \<Rightarrow> u64 \<Rightarrow> PageFlags \<Rightarrow> machine \<Rightarrow> (bool \<times> machine) option" where
  "map_range space virt phys size_bytes flags s =
     (if pml4 space = nullptr then Some (False, s)
      else if size_bytes = 0 then Some (False, s)
      else if virt AND (kPageSize - 1) \<noteq> 0 then Some (False, s)
      else if phys AND (kPageSize - 1) \<noteq> 0 then Some (False, s)
      else if size_bytes AND (kPageSize - 1) \<noteq> 0 then Some (False, s)
      else if virt > UINT64_MAX - size_bytes then Some (False, s)
      else if phys > UINT64_MAX - size_bytes then Some (False, s)
      else if \<not> is_canonical virt then Some (False, s)
      else if \<not> is_canonical (virt + size_bytes - 1) then Some (False, s)
      else map_range_loop space virt phys size_bytes flags 0 s)"

partial_function (option) map_range_large_loop ::
  "AddressSpace \<Rightarrow> u64 \<Rightarrow> u64 \<Rightarrow> u64 \<Rightarrow> PageFlags \<Rightarrow> u64 \<Rightarrow> machine \<Rightarrow> (bool \<times> machine) option" where
  "map_range_large_loop space virt phys size_bytes flags page_offset s =
     (if page_offset < size_bytes then
        case map_page_large (pml4 space) (virt + page_offset) (phys + page_offset) flags s of
          (ok, s) \<Rightarrow>
            if \<not> ok then Some (False, s)
            else map_range_large_loop space virt phys size_bytes flags (page_offset + kLargePageSize) s
      else Some (True, s))"

definition map_range_large ::
  "AddressSpace \<Rightarrow> u64 \<Rightarrow> u64 \<Rightarrow> u64 \<Rightarrow> PageFlags \<Rightarrow> machine \<Rightarrow> (bool \<times> machine) option" where
  "map_range_large space virt phys size_bytes flags s =
     (if pml4 space = nullptr then Some (False, s)
      else if size_bytes = 0 then Some (False, s)
      else if virt AND (kLargePageSize - 1) \<noteq> 0 then Some (False, s)
      else if phys AND (kLargePageSize - 1) \<noteq> 0 then Some (False, s)
      else if size_bytes AND (kLargePageSize - 1) \<noteq> 0 then Some (False, s)
      else if virt > UINT64_MAX - size_bytes then Some (False, s)
      else if phys > UINT64_MAX - size_bytes then Some (False, s)
      else if \<not> is_canonical virt then Some (False, s)
      else if \<not> is_canonical (virt + size_bytes - 1) then Some (False, s)
      else map_range_large_loop space virt phys size_bytes flags 0 s)"

section \<open>Translation and activation\<close>

definition translate :: "AddressSpace \<Rightarrow> u64 \<Rightarrow> machine \<Rightarrow> u64" where
  "translate space virt s =
     (if pml4 space = nullptr then 0
      else if \<not> is_canonical virt then 0
      else
        let address = decompose_address virt;
            pml4_entry = mem s (entry_cell (pml4 space) (pml4_index address))
        in if pml4_entry AND PF_Present = 0 then 0
           else
             let pdpt = physical_to_virtual s (page_entry_address pml4_entry);
                 pdpt_entry = mem s (entry_cell pdpt (pdpt_index address))
             in if pdpt_entry AND PF_Present = 0 then 0
                else if pdpt_entry AND PF_Huge \<noteq> 0
                then page_entry_address pdpt_entry OR (virt AND 0x3FFFFFFF)
                else
                  let pd = physical_to_virtual s (page_entry_address pdpt_entry);
                      pd_entry = mem s (entry_cell pd (pd_index address))
                  in if pd_entry AND PF_Present = 0 then 0
                     else if pd_entry AND PF_Huge \<noteq> 0
                     then page_entry_address pd_entry OR (virt AND 0x1FFFFF)
                     else
                       let pt = physical_to_virtual s (page_entry_address pd_entry);
                           pt_entry = mem s (entry_cell pt (pt_index address))
                       in if pt_entry AND PF_Present = 0 then 0
                          else page_entry_address pt_entry OR (virt AND 0xFFF))"

definition load_address_space :: "AddressSpace \<Rightarrow> machine \<Rightarrow> machine" where
  "load_address_space space s = s\<lparr>cr3 := pml4_physical space\<rparr>"

section \<open>The kernel address space\<close>

fun highest_end :: "MemoryRegion list \<Rightarrow> u64 \<Rightarrow> u64" where
  "highest_end [] highest = highest"
| "highest_end (region # regions) highest =
     (let end = base region + length_of region
      in highest_end regions (if end > highest then end else highest))"

definition map_segment ::
  "AddressSpace \<Rightarrow> KernelLayout \<Rightarrow> u64 \<Rightarrow> u64 \<Rightarrow> PageFlags \<Rightarrow> machine \<Rightarrow> (bool \<times> machine) option" where
  "map_segment out layout start end flags s =
     (let phys = start - virtual_base layout + physical_base layout;
          size_bytes = end - start
      in map_range out start phys size_bytes flags s)"

text \<open>The segments of the image in the order the function maps them.\<close>

definition map_image :: "AddressSpace \<Rightarrow> KernelLayout \<Rightarrow> machine \<Rightarrow> (bool \<times> machine) option" where
  "map_image out layout s =
     (let data_end_rounded = align_up (data_end layout) kPageSize
      in do {
        (ok, s) \<leftarrow> map_segment out layout (image_start layout) (text_start layout) PF_NoExecute s;
        if \<not> ok then Some (False, s) else do {
        (ok, s) \<leftarrow> map_segment out layout (text_start layout) (rodata_start layout) PF_None s;
        if \<not> ok then Some (False, s) else do {
        (ok, s) \<leftarrow> map_segment out layout (rodata_start layout) (data_start layout) PF_NoExecute s;
        if \<not> ok then Some (False, s) else do {
        (ok, s) \<leftarrow> map_segment out layout (data_start layout) data_end_rounded
                     (flags_or PF_Writable PF_NoExecute) s;
        if \<not> ok then Some (False, s) else Some (True, s)}}}})"

text \<open>
  \<open>regions\<close> is \<open>None\<close> for a null pointer and otherwise the array's \<open>region_count\<close> elements. The
  second component of the result is the value of \<open>out\<close> on return.
\<close>

definition build_kernel_address_space ::
  "AddressSpace \<Rightarrow> MemoryRegion list option \<Rightarrow> u64 \<Rightarrow> KernelLayout \<Rightarrow> machine \<Rightarrow>
     (bool \<times> AddressSpace \<times> machine) option" where
  "build_kernel_address_space out regions hhdm_offset layout s =
     (case regions of
        None \<Rightarrow> Some (False, out, s)
      | Some regions \<Rightarrow>
          if length regions = 0 then Some (False, out, s)
          else if hhdm_offset AND (kLargePageSize - 1) \<noteq> 0 then Some (False, out, s)
          else
            let s = enable_nx s;
                (ok, out, s) = create_address_space out s
            in if \<not> ok then Some (False, out, s)
               else
                 let highest = highest_end regions 0
                 in if highest = 0 then Some (False, out, s)
                    else
                      let highest = align_up highest kLargePageSize
                      in do {
                        (ok, s) \<leftarrow> map_range_large out hhdm_offset 0 highest
                                     (flags_or PF_Writable PF_NoExecute) s;
                        if \<not> ok then Some (False, out, s)
                        else do {
                          (ok, s) \<leftarrow> map_image out layout s;
                          Some (ok, out, s)}})"

end
