(* ===== verification/Page_Tables.thy ===== *)
theory Page_Tables
  imports Vmm "HOL-Library.Sublist"
begin

text \<open>
  The page-table structure behind the model of \<open>src/src/mm/vmm.cpp\<close>. A table is named by its
  physical address. \<open>walk\<close> follows a path of indices through present, non-huge entries to a table;
  \<open>leaf\<close> follows the four indices of an address to the entry that maps it. The invariant \<open>vm_wf\<close>
  says that the tables reachable from a root form a tree of frames that are allocated, pairwise
  different and apart from the allocator's bitmap, and that permissions are decided by leaves.

  The lemmas describe what one store to an entry does to paths and leaves (refreshing the flags of
  a link, hanging in a fresh zeroed table, installing a leaf) and lift this to \<open>ensure_table\<close>.
\<close>

section \<open>Structure\<close>

abbreviation present :: "u64 \<Rightarrow> bool" where "present e \<equiv> bit e 0"
abbreviation huge :: "u64 \<Rightarrow> bool" where "huge e \<equiv> bit e 7"
abbreviation user_bit :: "u64 \<Rightarrow> bool" where "user_bit e \<equiv> bit e 2"

definition table_entry :: "machine \<Rightarrow> u64 \<Rightarrow> u16 \<Rightarrow> u64" where
  "table_entry s P i = mem s (entry_cell (physical_to_virtual s P) i)"

fun walk :: "machine \<Rightarrow> u64 \<Rightarrow> u16 list \<Rightarrow> u64 option" where
  "walk s P [] = Some P"
| "walk s P (i # is) =
     (let e = table_entry s P i
      in if present e \<and> \<not> huge e then walk s (page_entry_address e) is else None)"

text \<open>The mapping entry on a path, with the number of levels below it.\<close>

fun leaf :: "machine \<Rightarrow> u64 \<Rightarrow> u16 list \<Rightarrow> (nat \<times> u64) option" where
  "leaf s P [] = None"
| "leaf s P (i # is) =
     (let e = table_entry s P i
      in if \<not> present e then None
         else if is = [] \<or> huge e then Some (length is, e)
         else leaf s (page_entry_address e) is)"

definition indices :: "u64 \<Rightarrow> u16 list" where
  "indices v = (let a = decompose_address v in [pml4_index a, pdpt_index a, pd_index a, pt_index a])"

definition path_ok :: "u16 list \<Rightarrow> bool" where
  "path_ok xs \<longleftrightarrow> length xs \<le> 3 \<and> (\<forall>i\<in>set xs. i < 512)"

definition full_path :: "u16 list \<Rightarrow> bool" where
  "full_path xs \<longleftrightarrow> length xs = 4 \<and> (\<forall>i\<in>set xs. i < 512)"

definition table_cells :: "ptr \<Rightarrow> ptr set" where
  "table_cells t = {t + 8 * j | j. j < 512}"

definition pool_ok :: "machine \<Rightarrow> bool" where
  "pool_ok s \<longleftrightarrow> pmm_wf s \<and> unat (frame_count s) \<le> 2 ^ 40 \<and> g_hhdm_offset s \<noteq> 0 \<and>
     unat (g_hhdm_offset s) + 4096 * unat (frame_count s) \<le> 2 ^ 64 \<and>
     (\<forall>f\<in>free_frames s. table_cells (physical_to_virtual s (f * kPageSize)) \<inter> bitmap_cells s = {})"

definition table_ok :: "machine \<Rightarrow> u64 \<Rightarrow> bool" where
  "table_ok s P \<longleftrightarrow> (\<exists>f. P = f * kPageSize \<and> frame_valid s f \<and> frame_used s f) \<and>
     table_cells (physical_to_virtual s P) \<inter> bitmap_cells s = {}"

text \<open>An entry of a table \<open>d\<close> levels below the root.\<close>

definition entry_ok :: "machine \<Rightarrow> nat \<Rightarrow> u64 \<Rightarrow> bool" where
  "entry_ok s d e \<longleftrightarrow> e = 0 \<or> present e \<and> (d = 0 \<longrightarrow> \<not> huge e) \<and>
     (d < 3 \<and> \<not> huge e \<longrightarrow> bit e 1 \<and> \<not> bit e 63 \<and>
       (\<forall>j<512. user_bit (table_entry s (page_entry_address e) j) \<longrightarrow> user_bit e))"

definition tree_inj :: "machine \<Rightarrow> u64 \<Rightarrow> bool" where
  "tree_inj s root \<longleftrightarrow> (\<forall>xs ys P. path_ok xs \<longrightarrow> path_ok ys \<longrightarrow>
     walk s root xs = Some P \<longrightarrow> walk s root ys = Some P \<longrightarrow> xs = ys)"

definition vm_wf :: "machine \<Rightarrow> u64 \<Rightarrow> bool" where
  "vm_wf s root \<longleftrightarrow> pool_ok s \<and> tree_inj s root \<and>
     (\<forall>xs P. path_ok xs \<longrightarrow> walk s root xs = Some P \<longrightarrow>
        table_ok s P \<and> (\<forall>i<512. entry_ok s (length xs) (table_entry s P i)))"

section \<open>Bits and cells\<close>

lemma PF_tests [simp]:
  "(e AND PF_Present = 0) \<longleftrightarrow> \<not> present e" "(e AND PF_Huge = 0) \<longleftrightarrow> \<not> huge e"
  "(e AND PF_User = 0) \<longleftrightarrow> \<not> user_bit e"
  using bit_and_one_iff [of e 0] bit_and_one_iff [of e 7] bit_and_one_iff [of e 2]
  unfolding PF_defs by blast+

lemma unat_ucast_u16: "unat (ucast (i :: u16) :: u64) = unat i"
proof -
  have "unat i < 2 ^ 16" using unsigned_less [of i] by simp
  then show ?thesis by (simp add: unsigned_ucast_eq take_bit_nat_eq_self)
qed

lemma index_offset: "(i :: u16) < 512 \<Longrightarrow> ucast i < (512 :: u64)"
  by (simp add: word_less_nat_alt unat_ucast_u16)

lemma cell_offset: "(j :: u64) < 512 \<Longrightarrow> unat (8 * j) = 8 * unat j"
  by (subst unat_mult_nowrap) (simp_all add: word_less_nat_alt)

lemma cell_offset_less: "(j :: u64) < 512 \<Longrightarrow> 8 * j < (4096 :: u64)"
  by (simp add: word_less_nat_alt cell_offset)

lemma cell_eq_iff:
  assumes "page_aligned P" "page_aligned Q" "(i :: u64) < 512" "j < 512"
  shows "h + P + 8 * i = h + Q + 8 * j \<longleftrightarrow> P = Q \<and> i = j"
proof -
  have "h + P + 8 * i = h + Q + 8 * j \<longleftrightarrow> P + 8 * i = Q + 8 * j"
    by (simp add: add.assoc)
  also have "\<dots> \<longleftrightarrow> P = Q \<and> 8 * i = 8 * j"
    using assms by (intro page_aligned_add_eq_iff cell_offset_less)
  also have "8 * i = 8 * j \<longleftrightarrow> i = j"
    using cell_offset assms(3,4) by (metis mult_left_cancel unat_eqI zero_neq_numeral)
  finally show ?thesis .
qed

lemma ucast_index_eq: "(ucast (i :: u16) :: u64) = ucast j \<longleftrightarrow> i = j"
  by (metis unat_eqI unat_ucast_u16)

lemma entry_cell_eq_iff:
  assumes "page_aligned P" "page_aligned Q" "i < 512" "j < 512"
  shows "entry_cell (physical_to_virtual s P) i = entry_cell (physical_to_virtual s Q) j \<longleftrightarrow> P = Q \<and> i = j"
  using assms by (simp add: entry_cell_def physical_to_virtual_def cell_eq_iff index_offset ucast_index_eq)

lemma entry_cell_in_table: "i < 512 \<Longrightarrow> entry_cell t i \<in> table_cells t"
  by (auto simp: entry_cell_def table_cells_def index_offset)

lemma table_cells_disjoint:
  "page_aligned P \<Longrightarrow> page_aligned Q \<Longrightarrow> P \<noteq> Q \<Longrightarrow>
     table_cells (physical_to_virtual s P) \<inter> table_cells (physical_to_virtual s Q) = {}"
  by (auto simp: table_cells_def physical_to_virtual_def cell_eq_iff)

section \<open>Frames as tables\<close>

lemma valid_frame_address:
  assumes "pool_ok s" "frame_valid s f"
  shows "unat (f * kPageSize) = 4096 * unat f" "page_aligned (f * kPageSize)"
    "(f * kPageSize) AND kPhysicalAddressMask = f * kPageSize"
    "physical_to_virtual s (f * kPageSize) \<noteq> 0" "f * kPageSize \<noteq> UINT64_MAX"
    "f * kPageSize = g * kPageSize \<Longrightarrow> frame_valid s g \<Longrightarrow> f = g"
proof -
  have f: "unat f < unat (frame_count s)" "unat (frame_count s) \<le> 2 ^ 40"
    using assms by (simp_all add: pool_ok_def frame_valid_def word_less_nat_alt)
  have u: "unat (g * kPageSize) = 4096 * unat g" if "frame_valid s g" for g
    using that f by (subst unat_mult_nowrap) (simp_all add: kPageSize_def frame_valid_def word_less_nat_alt)
  show uf: "unat (f * kPageSize) = 4096 * unat f" by (rule u [OF assms(2)])
  then show al: "page_aligned (f * kPageSize)" by (simp add: page_aligned_iff)
  show "(f * kPageSize) AND kPhysicalAddressMask = f * kPageSize"
  proof (rule bit_word_eqI)
    fix n
    have "take_bit 52 (f * kPageSize) = f * kPageSize"
      using uf f by (intro take_bit_less_self) simp
    then have "bit (f * kPageSize) n \<Longrightarrow> n < 52" by (metis bit_take_bit_iff)
    moreover have "bit (f * kPageSize) n \<Longrightarrow> 12 \<le> n"
      using al by (metis page_aligned_def bit_take_bit_iff bit_0_eq bot_apply bot_bool_def not_le)
    ultimately show "bit ((f * kPageSize) AND kPhysicalAddressMask) n = bit (f * kPageSize) n"
      by (auto simp: bit_and_iff bit_kPhysicalAddressMask)
  qed
  have h: "g_hhdm_offset s \<noteq> 0" "unat (g_hhdm_offset s) + 4096 * unat (frame_count s) \<le> 2 ^ 64"
    using assms(1) by (simp_all add: pool_ok_def)
  then have "unat (g_hhdm_offset s + f * kPageSize) = unat (g_hhdm_offset s) + 4096 * unat f"
    using uf f(1) by (subst unat_add_nowrap) simp_all
  moreover have "unat (g_hhdm_offset s) \<noteq> 0"
    using h(1) by (metis unat_eq_0)
  ultimately show "physical_to_virtual s (f * kPageSize) \<noteq> 0"
    unfolding physical_to_virtual_def by (metis add_is_0 unat_0)
  show "f * kPageSize \<noteq> UINT64_MAX"
    using al by (auto simp: page_aligned_def)
  show "f = g" if "f * kPageSize = g * kPageSize" "frame_valid s g"
    using u [OF that(2)] uf that(1) by (intro unat_eqI) simp
qed

lemma table_okE:
  assumes "table_ok s P"
  obtains f where "P = f * kPageSize" "frame_valid s f" "frame_used s f"
  using assms by (auto simp: table_ok_def)

lemma table_ok_props:
  assumes "pool_ok s" "table_ok s P"
  shows "page_aligned P" "P AND kPhysicalAddressMask = P" "physical_to_virtual s P \<noteq> 0"
  using assms valid_frame_address [OF assms(1)] by (auto elim!: table_okE)

lemma table_not_free: "pool_ok s \<Longrightarrow> table_ok s (f * kPageSize) \<Longrightarrow> f \<notin> free_frames s"
  using valid_frame_address(6) by (auto simp: free_frames_def elim!: table_okE)

section \<open>Stores outside the bitmap\<close>

lemma store_fields [simp]:
  "bitmap (store p v s) = bitmap s" "bitmap_phys (store p v s) = bitmap_phys s"
  "bitmap_words (store p v s) = bitmap_words s" "bitmap_bytes (store p v s) = bitmap_bytes s"
  "frame_count (store p v s) = frame_count s" "free_frame_count (store p v s) = free_frame_count s"
  "g_hhdm_offset (store p v s) = g_hhdm_offset s" "msrs (store p v s) = msrs s"
  "cr3 (store p v s) = cr3 s" "klog (store p v s) = klog s"
  "mem (store p v s) q = (if q = p then v else mem s q)"
  by (simp_all add: store_def)

text \<open>Two states with the same allocator variables and the same bitmap contents.\<close>

definition same_pool :: "machine \<Rightarrow> machine \<Rightarrow> bool" where
  "same_pool t s \<longleftrightarrow> bitmap t = bitmap s \<and> bitmap_words t = bitmap_words s \<and>
     frame_count t = frame_count s \<and> free_frame_count t = free_frame_count s \<and>
     g_hhdm_offset t = g_hhdm_offset s \<and> (\<forall>p\<in>bitmap_cells s. mem t p = mem s p)"

lemma same_pool_frames:
  assumes "same_pool t s" "bitmap_shape s"
  shows "bitmap_cells t = bitmap_cells s" "frame_valid t f = frame_valid s f"
    "frame_valid s f \<Longrightarrow> frame_used t f = frame_used s f" "free_frames t = free_frames s"
    "physical_to_virtual t a = physical_to_virtual s a"
proof -
  show "bitmap_cells t = bitmap_cells s" and v: "frame_valid t f = frame_valid s f" for f
    using assms(1) by (simp_all add: same_pool_def bitmap_cells_def frame_valid_def)
  show u: "frame_used t f = frame_used s f" if "frame_valid s f" for f
  proof -
    have "bitmap s + 8 * (f div kWordBits) \<in> bitmap_cells s"
      using frame_word_in_range [OF assms(2) that] by (auto simp: bitmap_cells_def)
    then show ?thesis using assms(1) by (simp add: same_pool_def frame_used_def bitmap_get_def)
  qed
  show "free_frames t = free_frames s" using v u by (auto simp: free_frames_def)
  show "physical_to_virtual t a = physical_to_virtual s a"
    using assms(1) by (simp add: same_pool_def physical_to_virtual_def)
qed

lemma pool_ok_shape: "pool_ok s \<Longrightarrow> bitmap_shape s"
  by (simp add: pool_ok_def pmm_wf_def)

lemma same_pool_ok: "pool_ok s \<Longrightarrow> same_pool t s \<Longrightarrow> pool_ok t"
  using same_pool_frames [of t s] pool_ok_shape [of s]
  by (simp add: pool_ok_def pmm_wf_def same_pool_def bitmap_shape_def)

lemma same_pool_table_ok: "pool_ok s \<Longrightarrow> same_pool t s \<Longrightarrow> table_ok s P \<Longrightarrow> table_ok t P"
  using same_pool_frames [of t s] pool_ok_shape [of s] by (auto simp: table_ok_def)

lemma same_pool_store:
  "table_cells (physical_to_virtual s P) \<inter> bitmap_cells s = {} \<Longrightarrow> i < 512 \<Longrightarrow>
     same_pool (store (entry_cell (physical_to_virtual s P) i) v s) s"
  using entry_cell_in_table [of i "physical_to_virtual s P"] by (auto simp: same_pool_def)

section \<open>Paths\<close>

lemma walk_append: "walk s P (xs @ ys) = Option.bind (walk s P xs) (\<lambda>Q. walk s Q ys)"
  by (induction xs arbitrary: P) (simp_all add: Let_def)

lemma walk_snoc:
  "walk s P (xs @ [i]) = Some Q \<longleftrightarrow>
     (\<exists>R. walk s P xs = Some R \<and> present (table_entry s R i) \<and> \<not> huge (table_entry s R i) \<and>
        Q = page_entry_address (table_entry s R i))"
  by (auto simp: walk_append bind_eq_Some_conv Let_def)

lemma leaf_append: "walk s P xs = Some Q \<Longrightarrow> ys \<noteq> [] \<Longrightarrow> leaf s P (xs @ ys) = leaf s Q ys"
  by (induction xs arbitrary: P) (auto simp: Let_def split: if_splits)

lemma leaf_iff:
  "leaf s P ys = Some (n, e) \<longleftrightarrow>
     (\<exists>zs k rest Q. ys = zs @ k # rest \<and> walk s P zs = Some Q \<and> e = table_entry s Q k \<and> present e \<and>
        (rest = [] \<or> huge e) \<and> n = length rest)" (is "_ = ?r s P ys")
proof (induction ys arbitrary: P)
  case Nil
  then show ?case by simp
next
  case (Cons i ys)
  let ?e = "table_entry s P i"
  have "?r s P (i # ys) \<longleftrightarrow> e = ?e \<and> present e \<and> (ys = [] \<or> huge e) \<and> n = length ys \<or>
      present ?e \<and> \<not> huge ?e \<and> ?r s (page_entry_address ?e) ys" (is "?a \<longleftrightarrow> ?b \<or> ?c")
  proof
    assume ?a
    then obtain zs k rest Q where a: "i # ys = zs @ k # rest" "walk s P zs = Some Q" "e = table_entry s Q k"
      "present e" "rest = [] \<or> huge e" "n = length rest" by blast
    then show "?b \<or> ?c" by (cases zs) (auto simp: Let_def split: if_splits)
  next
    assume "?b \<or> ?c"
    then show ?a
    proof
      assume b: ?b
      then have "i # ys = [] @ i # ys" "walk s P [] = Some P" by simp_all
      with b show ?a by blast
    next
      assume c: ?c
      then obtain zs k rest Q where a: "ys = zs @ k # rest" "walk s (page_entry_address ?e) zs = Some Q"
        "e = table_entry s Q k" "present e" "rest = [] \<or> huge e" "n = length rest" by blast
      then have "i # ys = (i # zs) @ k # rest" "walk s P (i # zs) = Some Q"
        using c by (simp_all add: Let_def)
      with a show ?a by blast
    qed
  qed
  moreover have "leaf s P (i # ys) = Some (n, e) \<longleftrightarrow> ?b \<or>
      present ?e \<and> \<not> huge ?e \<and> leaf s (page_entry_address ?e) ys = Some (n, e)"
    by (auto simp: Let_def)
  ultimately show ?case by (simp only: Cons.IH)
qed

lemma walk_aligned: "page_aligned P \<Longrightarrow> walk s P xs = Some Q \<Longrightarrow> page_aligned Q"
proof (induction xs arbitrary: P)
  case (Cons i xs)
  from Cons.prems(2) Cons.IH [OF page_aligned_page_entry_address [of "table_entry s P i"]]
  show ?case by (simp add: Let_def split: if_splits)
qed simp

lemma path_ok_Nil [simp]: "path_ok []"
  by (simp add: path_ok_def)

lemma path_ok_prefix: "path_ok (xs @ ys) \<Longrightarrow> path_ok xs"
  by (simp add: path_ok_def)

lemma path_ok_snoc: "path_ok (xs @ [i]) \<longleftrightarrow> path_ok xs \<and> length xs < 3 \<and> i < 512"
  by (auto simp: path_ok_def)

lemma full_path_split:
  "full_path (zs @ k # rest) \<Longrightarrow> path_ok zs \<and> k < 512"
  by (auto simp: full_path_def path_ok_def)

lemma vm_wfD:
  assumes "vm_wf s root"
  shows "pool_ok s" "path_ok xs \<Longrightarrow> walk s root xs = Some P \<Longrightarrow> table_ok s P"
    "path_ok xs \<Longrightarrow> walk s root xs = Some P \<Longrightarrow> i < 512 \<Longrightarrow> entry_ok s (length xs) (table_entry s P i)"
    "path_ok xs \<Longrightarrow> path_ok ys \<Longrightarrow> walk s root xs = Some P \<Longrightarrow> walk s root ys = Some P \<Longrightarrow> xs = ys"
    "page_aligned root"
  using assms table_ok_props(1) [of s root]
  by (auto simp: vm_wf_def tree_inj_def dest: spec [of _ "[]"])

lemma vm_wf_aligned: "vm_wf s root \<Longrightarrow> walk s root xs = Some P \<Longrightarrow> page_aligned P"
  using walk_aligned vm_wfD(5) by blast

section \<open>One store to a table\<close>

definition set_entry :: "u64 \<Rightarrow> u16 \<Rightarrow> u64 \<Rightarrow> machine \<Rightarrow> machine" where
  "set_entry P i e s = store (entry_cell (physical_to_virtual s P) i) e s"

lemma ptv_set_entry [simp]: "physical_to_virtual (set_entry P i e s) a = physical_to_virtual s a"
  by (simp add: physical_to_virtual_def set_entry_def)

lemma ptv_store [simp]: "physical_to_virtual (store p v s) a = physical_to_virtual s a"
  by (simp add: physical_to_virtual_def)

lemma table_entry_set:
  "page_aligned P \<Longrightarrow> page_aligned Q \<Longrightarrow> i < 512 \<Longrightarrow> j < 512 \<Longrightarrow>
     table_entry (set_entry P i e s) Q j = (if Q = P \<and> j = i then e else table_entry s Q j)"
  unfolding table_entry_def ptv_set_entry
  by (auto simp: set_entry_def entry_cell_eq_iff)

lemma walk_set_other:
  assumes wf: "vm_wf s root" and P: "path_ok xs" "walk s root xs = Some P" "i < 512"
    and zs: "path_ok zs" "\<not> prefix (xs @ [i]) zs"
  shows "walk (set_entry P i e s) root zs = walk s root zs"
  using zs
proof (induction zs rule: rev_induct)
  case Nil
  then show ?case by simp
next
  case (snoc k zs)
  have zs: "path_ok zs" "k < 512" using snoc.prems(1) by (simp_all add: path_ok_snoc)
  have IH: "walk (set_entry P i e s) root zs = walk s root zs"
    using snoc.IH [OF zs(1)] snoc.prems(2) by (auto intro: prefix_prefix)
  have "table_entry (set_entry P i e s) Q k = table_entry s Q k" if Q: "walk s root zs = Some Q" for Q
  proof -
    have "\<not> (Q = P \<and> k = i)"
      using vm_wfD(4) [OF wf P(1) zs(1) P(2)] Q snoc.prems(2) by auto
    then show ?thesis
      using vm_wf_aligned [OF wf P(2)] vm_wf_aligned [OF wf Q] P(3) zs(2) by (subst table_entry_set) auto
  qed
  then show ?case
    by (cases "walk s root zs") (simp_all add: walk_append IH Let_def)
qed

lemma walk_set_at:
  assumes wf: "vm_wf s root" and P: "path_ok xs" "walk s root xs = Some P" "i < 512"
  shows "walk (set_entry P i e s) root (xs @ i # ys) =
    (if present e \<and> \<not> huge e then walk (set_entry P i e s) (page_entry_address e) ys else None)"
proof -
  have "walk (set_entry P i e s) root xs = Some P"
    using walk_set_other [OF wf P P(1)] P(2) by (simp add: prefix_def)
  then show ?thesis
    using vm_wf_aligned [OF wf P(2)] P(3) by (simp add: walk_append table_entry_set Let_def)
qed

text \<open>Refreshing the flags of a link leaves every path as it was.\<close>

lemma walk_refresh:
  assumes "page_aligned P" "i < 512" "present (table_entry s P i)" "\<not> huge (table_entry s P i)"
    "present e" "\<not> huge e" "page_entry_address e = page_entry_address (table_entry s P i)"
  shows "page_aligned Q \<Longrightarrow> \<forall>k\<in>set zs. k < 512 \<Longrightarrow> walk (set_entry P i e s) Q zs = walk s Q zs"
  by (induction zs arbitrary: Q) (use assms in \<open>auto simp: table_entry_set Let_def\<close>)

text \<open>A fresh empty table adds exactly one path.\<close>

lemma walk_new:
  assumes wf: "vm_wf s root" and P: "path_ok xs" "walk s root xs = Some P" "i < 512"
    and e: "\<not> present (table_entry s P i)" "present e" "\<not> huge e"
    and N: "\<And>j. j < 512 \<Longrightarrow> table_entry s (page_entry_address e) j = 0" "page_entry_address e \<noteq> P"
    and zs: "path_ok zs"
  shows "walk (set_entry P i e s) root zs =
    (if zs = xs @ [i] then Some (page_entry_address e) else walk s root zs)"
proof (cases "prefix (xs @ [i]) zs")
  case False
  then show ?thesis using walk_set_other [OF wf P zs] by auto
next
  case True
  then obtain ys where ys: "zs = xs @ i # ys" by (auto simp: prefix_def)
  have "walk s root zs = None"
    using P(2) e(1) by (simp add: ys walk_append Let_def)
  moreover have "walk (set_entry P i e s) (page_entry_address e) ys = None" if ne: "ys \<noteq> []"
  proof -
    obtain j js where j: "ys = j # js" using ne by (cases ys) auto
    then have "j < 512" using zs by (simp add: ys path_ok_def)
    then show ?thesis
      using N vm_wf_aligned [OF wf P(2)] P(3) by (simp add: j table_entry_set Let_def)
  qed
  ultimately show ?thesis
    using walk_set_at [OF wf P, of e ys] e(2,3) by (cases "ys = []") (auto simp: ys)
qed

text \<open>A leaf adds no path.\<close>

lemma walk_leaf:
  assumes wf: "vm_wf s root" and P: "path_ok xs" "walk s root xs = Some P" "i < 512"
    and e: "\<not> present (table_entry s P i)" "length xs = 3 \<or> huge e" and zs: "path_ok zs"
  shows "walk (set_entry P i e s) root zs = walk s root zs"
proof (cases "prefix (xs @ [i]) zs")
  case False
  then show ?thesis using walk_set_other [OF wf P zs] by auto
next
  case True
  then obtain ys where ys: "zs = xs @ i # ys" by (auto simp: prefix_def)
  then have "huge e" using e(2) zs by (simp add: path_ok_def)
  then show ?thesis
    using walk_set_at [OF wf P, of e ys] P(2) e(1) by (simp add: ys walk_append Let_def)
qed

text \<open>The link above the table at a path carries the user bit.\<close>

definition user_link :: "machine \<Rightarrow> u64 \<Rightarrow> u16 list \<Rightarrow> bool" where
  "user_link s root xs \<longleftrightarrow> (\<forall>zs k Z. xs = zs @ [k] \<longrightarrow> walk s root zs = Some Z \<longrightarrow> user_bit (table_entry s Z k))"

lemma user_link_Nil [simp]: "user_link s root []"
  by (simp add: user_link_def)

text \<open>What an entry may be set to at depth \<open>d\<close> of the table \<open>P\<close>.\<close>

definition good_entry :: "machine \<Rightarrow> u64 \<Rightarrow> nat \<Rightarrow> u64 \<Rightarrow> bool" where
  "good_entry s P d e \<longleftrightarrow> present e \<and> (d = 0 \<longrightarrow> \<not> huge e) \<and>
     (d < 3 \<and> \<not> huge e \<longrightarrow> bit e 1 \<and> \<not> bit e 63 \<and> page_entry_address e \<noteq> P \<and>
       (\<forall>j<512. user_bit (table_entry s (page_entry_address e) j) \<longrightarrow> user_bit e))"

lemma set_entry_same_pool:
  assumes "vm_wf s root" "path_ok xs" "walk s root xs = Some P" "i < 512"
  shows "same_pool (set_entry P i e s) s"
  using same_pool_store [of s P i e] vm_wfD(2) [OF assms(1-3)] assms(4)
  by (simp add: set_entry_def table_ok_def)

lemma entry_ok_set_other:
  assumes wf: "vm_wf s root" and P: "path_ok xs" "walk s root xs = Some P" "i < 512"
    and up: "user_bit e \<Longrightarrow> user_link s root xs"
    and Q: "path_ok zs" "walk s root zs = Some Q" "k < 512"
  shows "entry_ok (set_entry P i e s) (length zs) (table_entry s Q k)"
proof -
  let ?e = "table_entry s Q k"
  have ok: "entry_ok s (length zs) ?e" by (rule vm_wfD(3) [OF wf Q])
  have "user_bit ?e" if h: "present ?e" "\<not> huge ?e" "length zs < 3" "j < 512"
      "user_bit (table_entry (set_entry P i e s) (page_entry_address ?e) j)" for j
  proof (cases "page_entry_address ?e = P \<and> j = i")
    case True
    have "path_ok (zs @ [k])" using Q(1,3) h(3) by (simp add: path_ok_snoc)
    moreover have "walk s root (zs @ [k]) = Some P"
      unfolding walk_snoc using Q(2) h(1,2) True by blast
    ultimately have "xs = zs @ [k]" using vm_wfD(4) [OF wf P(1) _ P(2)] by blast
    moreover have "user_bit e"
      using h(4,5) True vm_wf_aligned [OF wf P(2)] by (simp add: table_entry_set)
    ultimately show ?thesis using up Q(2) by (auto simp: user_link_def)
  next
    case False
    then have "user_bit (table_entry s (page_entry_address ?e) j)"
      using h(4,5) vm_wf_aligned [OF wf P(2)] P(3) by (subst (asm) table_entry_set) auto
    with ok h show ?thesis by (auto simp: entry_ok_def)
  qed
  with ok show ?thesis by (auto simp: entry_ok_def)
qed

lemma good_entry_ok:
  assumes "good_entry s P d e" "page_aligned P" "i < 512"
  shows "entry_ok (set_entry P i e s) d e"
proof -
  have "table_entry (set_entry P i e s) (page_entry_address e) j = table_entry s (page_entry_address e) j"
    if "j < 512" "page_entry_address e \<noteq> P" for j
    using that assms(2,3) by (simp add: table_entry_set)
  with assms(1) show ?thesis by (simp add: good_entry_def entry_ok_def)
qed

lemma vm_wf_set_same:
  assumes wf: "vm_wf s root" and P: "path_ok xs" "walk s root xs = Some P" "i < 512"
    and walk: "\<And>zs. path_ok zs \<Longrightarrow> walk (set_entry P i e s) root zs = walk s root zs"
    and e: "good_entry s P (length xs) e" "user_bit e \<Longrightarrow> user_link s root xs"
  shows "vm_wf (set_entry P i e s) root"
  unfolding vm_wf_def tree_inj_def
proof (intro conjI allI impI)
  let ?t = "set_entry P i e s"
  have sp: "same_pool ?t s" by (rule set_entry_same_pool [OF wf P])
  show "pool_ok ?t" using sp vm_wfD(1) [OF wf] by (rule same_pool_ok [rotated])
  show "xs = ys" if "path_ok xs" "path_ok ys" "walk ?t root xs = Some Q" "walk ?t root ys = Some Q" for xs ys Q
    using that walk vm_wfD(4) [OF wf] by metis
  fix zs Q
  assume zs: "path_ok zs" "walk ?t root zs = Some Q"
  then have Q: "walk s root zs = Some Q" using walk by simp
  show "table_ok ?t Q"
    using same_pool_table_ok [OF vm_wfD(1) [OF wf] sp] vm_wfD(2) [OF wf zs(1) Q] by blast
  fix k :: u16
  assume k: "k < 512"
  have al: "page_aligned P" "page_aligned Q"
    using vm_wf_aligned [OF wf] P(2) Q by blast+
  show "entry_ok ?t (length zs) (table_entry ?t Q k)"
  proof (cases "Q = P \<and> k = i")
    case True
    then have "zs = xs" using vm_wfD(4) [OF wf zs(1) P(1)] Q P(2) by blast
    then show ?thesis using True good_entry_ok [OF e(1) al(1) P(3)] al P(3) by (simp add: table_entry_set)
  next
    case False
    then show ?thesis
      using entry_ok_set_other [OF wf P e(2) zs(1) Q k] al P(3) k by (subst table_entry_set) auto
  qed
qed

lemma vm_wf_set_new:
  assumes wf: "vm_wf s root" and P: "path_ok xs" "walk s root xs = Some P" "i < 512" "length xs < 3"
    and walk: "\<And>zs. path_ok zs \<Longrightarrow> walk (set_entry P i e s) root zs = (if zs = xs @ [i] then Some N else walk s root zs)"
    and N: "table_ok s N" "\<And>zs. path_ok zs \<Longrightarrow> walk s root zs \<noteq> Some N" "\<And>j. j < 512 \<Longrightarrow> table_entry s N j = 0"
    and e: "good_entry s P (length xs) e" "user_bit e \<Longrightarrow> user_link s root xs"
  shows "vm_wf (set_entry P i e s) root"
  unfolding vm_wf_def tree_inj_def
proof (intro conjI allI impI)
  let ?t = "set_entry P i e s"
  have sp: "same_pool ?t s" by (rule set_entry_same_pool [OF wf P(1-3)])
  show "pool_ok ?t" using sp vm_wfD(1) [OF wf] by (rule same_pool_ok [rotated])
  show "xs = ys" if "path_ok xs" "path_ok ys" "walk ?t root xs = Some Q" "walk ?t root ys = Some Q" for xs ys Q
    using that walk N(2) vm_wfD(4) [OF wf] by (metis option.inject)
  fix zs Q
  assume zs: "path_ok zs" "walk ?t root zs = Some Q"
  have NP: "N \<noteq> P" using N(2) [OF P(1)] P(2) by auto
  have Q: "zs = xs @ [i] \<and> Q = N \<or> Q \<noteq> N \<and> walk s root zs = Some Q"
    using zs walk [OF zs(1)] N(2) [OF zs(1)] by (auto split: if_splits)
  then have ok: "table_ok s Q" using N(1) vm_wfD(2) [OF wf zs(1)] by blast
  show "table_ok ?t Q" by (rule same_pool_table_ok [OF vm_wfD(1) [OF wf] sp ok])
  have al: "page_aligned P" "page_aligned Q"
    using vm_wf_aligned [OF wf P(2)] table_ok_props(1) [OF vm_wfD(1) [OF wf] ok] by blast+
  fix k :: u16
  assume k: "k < 512"
  show "entry_ok ?t (length zs) (table_entry ?t Q k)"
  proof (cases "Q = N")
    case True
    then show ?thesis using N(3) [OF k] NP al P(3) k by (simp add: table_entry_set entry_ok_def)
  next
    case False
    with Q have Q': "walk s root zs = Some Q" by blast
    show ?thesis
    proof (cases "Q = P \<and> k = i")
      case True
      then have "zs = xs" using vm_wfD(4) [OF wf zs(1) P(1)] Q' P(2) by blast
      then show ?thesis using True good_entry_ok [OF e(1) al(1) P(3)] al P(3) by (simp add: table_entry_set)
    next
      case False
      then show ?thesis
        using entry_ok_set_other [OF wf P(1-3) e(2) zs(1) Q' k] al P(3) k by (subst table_entry_set) auto
    qed
  qed
qed

section \<open>Leaves after a store\<close>

lemma option_pair_eqI: "(\<And>n e. x = Some (n, e) \<longleftrightarrow> y = Some (n, e)) \<Longrightarrow> x = y"
  by (cases x; cases y) auto

lemma leaf_set:
  assumes wf: "vm_wf s root" and P: "path_ok xs" "walk s root xs = Some P" "i < 512"
    and ys: "full_path ys"
    and walk: "\<And>zs. path_ok zs \<Longrightarrow> walk (set_entry P i e s) root zs = walk s root zs \<or>
        (zs = xs @ [i] \<and> walk s root zs = None \<and> walk (set_entry P i e s) root zs = Some N \<and> N \<noteq> P \<and>
         page_aligned N \<and> (\<forall>j<512. table_entry s N j = 0))"
    and e: "\<not> prefix (xs @ [i]) ys \<or>
      length xs < 3 \<and> \<not> huge e \<and> \<not> huge (table_entry s P i)"
  shows "leaf (set_entry P i e s) root ys = leaf s root ys"
proof (rule option_pair_eqI)
  fix n f
  let ?t = "set_entry P i e s"
  have al: "page_aligned P" by (rule vm_wf_aligned [OF wf P(2)])
  have key: "walk ?t root zs = Some Q \<and> f = table_entry ?t Q k \<and> present f \<and> (rest = [] \<or> huge f) \<longleftrightarrow>
      walk s root zs = Some Q \<and> f = table_entry s Q k \<and> present f \<and> (rest = [] \<or> huge f)"
    if split: "ys = zs @ k # rest" for zs k rest Q
  proof -
    have zs: "path_ok zs" "k < 512" using full_path_split ys split by blast+
    consider "walk ?t root zs = walk s root zs" | "walk s root zs = None" "walk ?t root zs = Some N"
      "N \<noteq> P" "page_aligned N" "\<forall>j<512. table_entry s N j = 0"
      using walk [OF zs(1)] by fastforce
    then show ?thesis
    proof cases
      case 2
      then have "table_entry ?t N k = 0" using al P(3) zs(2) by (simp add: table_entry_set)
      with 2 show ?thesis by auto
    next
      case 1
      show ?thesis
      proof (cases "walk s root zs = Some Q \<and> Q = P \<and> k = i")
        case True
        then have "zs = xs" using vm_wfD(4) [OF wf zs(1) P(1) _ P(2)] by blast
        then have "rest \<noteq> []" "\<not> huge e" "\<not> huge (table_entry s P i)"
          using True split ys e by (auto simp: full_path_def)
        then show ?thesis using True al P(3) by (auto simp: table_entry_set)
      next
        case False
        have "table_entry ?t Q k = table_entry s Q k" if "walk s root zs = Some Q"
          using False that al vm_wf_aligned [OF wf that] P(3) zs(2) by (subst table_entry_set) auto
        with 1 show ?thesis by auto
      qed
    qed
  qed
  show "leaf ?t root ys = Some (n, f) \<longleftrightarrow> leaf s root ys = Some (n, f)"
    unfolding leaf_iff using key by blast
qed

section \<open>Alike entries\<close>

text \<open>Entries that differ only in the two bits the processor sets, accessed and dirty.\<close>

definition clear_marks :: "u64 \<Rightarrow> u64" where
  "clear_marks e = e AND NOT (PF_Accessed OR PF_Dirty)"

definition alike :: "u64 \<Rightarrow> u64 \<Rightarrow> bool" where
  "alike e f \<longleftrightarrow> f = e \<or> present e \<and> clear_marks f = clear_marks e"

lemma bit_clear_marks: "bit (clear_marks e) n \<longleftrightarrow> bit e n \<and> n \<noteq> 5 \<and> n \<noteq> 6"
  unfolding clear_marks_def PF_Accessed_def PF_Dirty_def bit_and_iff bit_not_iff bit_or_iff bit_push_bit_iff bit_1_iff
  by (auto dest: bit_imp_le_length)

lemma clear_marks_idem [simp]: "clear_marks (clear_marks e) = clear_marks e"
  by (rule bit_word_eqI) (auto simp: bit_clear_marks)

lemma alikeD:
  assumes "alike e f"
  shows "n \<noteq> 5 \<Longrightarrow> n \<noteq> 6 \<Longrightarrow> bit f n = bit e n" "clear_marks f = clear_marks e" "page_entry_address f = page_entry_address e"
    "f = 0 \<longleftrightarrow> e = 0"
proof -
  show c: "clear_marks f = clear_marks e" using assms by (auto simp: alike_def)
  have b: "bit f n = bit e n" if "n \<noteq> 5" "n \<noteq> 6" for n
    using arg_cong [OF c, of "\<lambda>x. bit x n"] that by (simp add: bit_clear_marks)
  then show "n \<noteq> 5 \<Longrightarrow> n \<noteq> 6 \<Longrightarrow> bit f n = bit e n" by blast
  show "page_entry_address f = page_entry_address e"
    by (rule bit_word_eqI) (auto simp: bit_page_entry_address b)
  show "f = 0 \<longleftrightarrow> e = 0" using assms b [of 0] by (auto simp: alike_def)
qed

lemma alike_refl [simp]: "alike e e"
  by (simp add: alike_def)

lemma alike_marked: "present e \<Longrightarrow> x AND NOT (PF_Accessed OR PF_Dirty) = 0 \<Longrightarrow> alike e (e OR x)"
  by (simp add: alike_def clear_marks_def bit.conj_disj_distrib2)

section \<open>Trees of alike entries\<close>

definition clear_leaf :: "nat \<times> u64 \<Rightarrow> nat \<times> u64" where
  "clear_leaf l = (fst l, clear_marks (snd l))"

lemma vm_wf_alike:
  assumes wf: "vm_wf s root" and pool: "pool_ok t"
    and same: "\<And>xs Q. path_ok xs \<Longrightarrow> walk s root xs = Some Q \<Longrightarrow>
      table_ok t Q \<and> (\<forall>j<512. alike (table_entry s Q j) (table_entry t Q j))"
  shows "vm_wf t root" "path_ok zs \<Longrightarrow> walk t root zs = walk s root zs"
    "full_path ys \<Longrightarrow> map_option clear_leaf (leaf t root ys) = map_option clear_leaf (leaf s root ys)"
proof -
  have al: "present (table_entry t Q j) = present (table_entry s Q j)" "huge (table_entry t Q j) = huge (table_entry s Q j)"
    "page_entry_address (table_entry t Q j) = page_entry_address (table_entry s Q j)"
    "alike (table_entry s Q j) (table_entry t Q j)"
    if "path_ok xs" "walk s root xs = Some Q" "j < 512" for xs Q j
    using alikeD [of "table_entry s Q j" "table_entry t Q j"] same [OF that(1,2)] that(3) by auto
  show w: "path_ok zs \<Longrightarrow> walk t root zs = walk s root zs" for zs
  proof (induction zs rule: rev_induct)
    case (snoc k zs)
    then have zs: "path_ok zs" "k < 512" "walk t root zs = walk s root zs" by (simp_all add: path_ok_snoc)
    show ?case
      using al [OF zs(1) _ zs(2)] by (cases "walk s root zs") (simp_all add: walk_append zs(3) Let_def)
  qed simp
  show "vm_wf t root"
    unfolding vm_wf_def tree_inj_def
  proof (intro conjI allI impI)
    show "pool_ok t" by (rule pool)
    show "xs = ys" if "path_ok xs" "path_ok ys" "walk t root xs = Some Q" "walk t root ys = Some Q" for xs ys Q
      using that w vm_wfD(4) [OF wf] by simp
    fix xs Q
    assume xs: "path_ok xs" "walk t root xs = Some Q"
    then have Q: "walk s root xs = Some Q" using w by simp
    show "table_ok t Q" using same [OF xs(1) Q] by blast
    fix i :: u16
    assume i: "i < 512"
    let ?e = "table_entry s Q i" and ?f = "table_entry t Q i"
    note a = al [OF xs(1) Q i] and d = alikeD [OF al(4) [OF xs(1) Q i]]
    have "user_bit (table_entry t (page_entry_address ?e) j) = user_bit (table_entry s (page_entry_address ?e) j)"
      if h: "present ?e" "\<not> huge ?e" "length xs < 3" "j < 512" for j
    proof -
      have "walk s root (xs @ [i]) = Some (page_entry_address ?e)"
        unfolding walk_snoc using Q h by blast
      then show ?thesis using alikeD(1) [OF al(4) [of "xs @ [i]"]] xs(1) i h by (simp add: path_ok_snoc)
    qed
    then show "entry_ok t (length xs) ?f"
      using vm_wfD(3) [OF wf xs(1) Q i] d(1) [of 1] d(1) [of 2] d(1) [of 63] unfolding entry_ok_def a(1-3) d(4) by auto
  qed
  assume ys: "full_path ys"
  have "\<exists>f. leaf t root ys = Some (n, f) \<and> clear_marks f = clear_marks e" if l: "leaf s root ys = Some (n, e)" for n e
  proof -
    obtain zs k rest Q where z: "ys = zs @ k # rest" "walk s root zs = Some Q" "e = table_entry s Q k" "present e"
      "rest = [] \<or> huge e" "n = length rest" using l unfolding leaf_iff by blast
    have p: "path_ok zs" "k < 512" using full_path_split ys z(1) by blast+
    note a = al [OF p(1) z(2) p(2)]
    have "leaf t root ys = Some (n, table_entry t Q k)"
      unfolding leaf_iff using z w [OF p(1)] a(1,2) by (intro exI [of _ zs] exI [of _ k] exI [of _ rest] exI [of _ Q]) simp
    then show ?thesis using alikeD(2) [OF a(4)] z(3) by blast
  qed
  moreover have "leaf s root ys \<noteq> None" if l: "leaf t root ys = Some (n, f)" for n f
  proof -
    obtain zs k rest Q where z: "ys = zs @ k # rest" "walk t root zs = Some Q" "f = table_entry t Q k" "present f"
      "rest = [] \<or> huge f" "n = length rest" using l unfolding leaf_iff by blast
    have p: "path_ok zs" "k < 512" using full_path_split ys z(1) by blast+
    have Q: "walk s root zs = Some Q" using z(2) w [OF p(1)] by simp
    note a = al [OF p(1) Q p(2)]
    have "leaf s root ys = Some (n, table_entry s Q k)"
      unfolding leaf_iff using z Q a(1,2) by (intro exI [of _ zs] exI [of _ k] exI [of _ rest] exI [of _ Q]) simp
    then show ?thesis by simp
  qed
  ultimately show "map_option clear_leaf (leaf t root ys) = map_option clear_leaf (leaf s root ys)"
    by (cases "leaf s root ys"; cases "leaf t root ys") (fastforce simp: clear_leaf_def)+
qed

section \<open>Changes that spare the tables\<close>

lemma vm_wf_agree:
  assumes wf: "vm_wf s root" and pool: "pool_ok t"
    and same: "\<And>xs Q. path_ok xs \<Longrightarrow> walk s root xs = Some Q \<Longrightarrow>
      table_ok t Q \<and> (\<forall>j<512. table_entry t Q j = table_entry s Q j)"
  shows "vm_wf t root" "path_ok zs \<Longrightarrow> walk t root zs = walk s root zs"
    "full_path ys \<Longrightarrow> leaf t root ys = leaf s root ys"
proof -
  have a: "table_ok t Q \<and> (\<forall>j<512. alike (table_entry s Q j) (table_entry t Q j))" if "path_ok xs" "walk s root xs = Some Q" for xs Q
    using same [OF that] by simp
  show "vm_wf t root" by (rule vm_wf_alike(1) [OF wf pool]) (rule a)
  show w: "walk t root zs = walk s root zs" if "path_ok zs" for zs by (rule vm_wf_alike(2) [OF wf pool _ that]) (rule a)
  show "leaf t root ys = leaf s root ys" if ys: "full_path ys"
  proof (rule option_pair_eqI)
    fix n e
    have "walk t root zs = Some Q \<and> e = table_entry t Q k \<longleftrightarrow> walk s root zs = Some Q \<and> e = table_entry s Q k"
      if split: "ys = zs @ k # rest" for zs k rest Q
      using full_path_split [of zs k rest] ys split w same by auto
    then show "leaf t root ys = Some (n, e) \<longleftrightarrow> leaf s root ys = Some (n, e)"
      unfolding leaf_iff by blast
  qed
qed

section \<open>Allocating a table\<close>

lemma zero_entries_eq:
  "zero_entries a i s = s\<lparr>mem := (\<lambda>p. if \<exists>j. i \<le> j \<and> j < 512 \<and> p = a + 8 * j then 0 else mem s p)\<rparr>"
proof (induction a i s rule: zero_entries.induct)
  case (1 a i s)
  show ?case
  proof (cases "i < 512")
    case False
    then have "\<not> (\<exists>j. i \<le> j \<and> j < 512 \<and> p = a + 8 * j)" for p by auto
    then have "(\<lambda>p. if \<exists>j. i \<le> j \<and> j < 512 \<and> p = a + 8 * j then 0 else mem s p) = mem s"
      by (simp only: if_False)
    with False show ?thesis by (simp add: zero_entries.simps [of a i s] kPageTableEntries_def)
  next
    case True
    have "i \<le> j \<longleftrightarrow> j = i \<or> i + 1 \<le> j" for j
      using unat_Suc_less [OF True] by (auto simp: word_le_nat_alt le_Suc_eq Suc_le_eq intro: unat_eqI)
    then have ex: "(\<exists>j. i \<le> j \<and> j < 512 \<and> p = a + 8 * j) \<longleftrightarrow>
        p = a + 8 * i \<or> (\<exists>j. i + 1 \<le> j \<and> j < 512 \<and> p = a + 8 * j)" for p
      using True by auto
    have "(\<lambda>p. if \<exists>j. i + 1 \<le> j \<and> j < 512 \<and> p = a + 8 * j then 0 else mem (store (a + 8 * i) 0 s) p) =
        (\<lambda>p. if \<exists>j. i \<le> j \<and> j < 512 \<and> p = a + 8 * j then 0 else mem s p)"
      unfolding ex by (rule ext) auto
    moreover have "(store (a + 8 * i) 0 s)\<lparr>mem := m\<rparr> = s\<lparr>mem := m\<rparr>" for m by (simp add: store_def)
    ultimately show ?thesis
      using True "1.IH" by (simp add: zero_entries.simps [of a i s] kPageTableEntries_def)
  qed
qed

lemma zero_entries_table:
  "zero_entries a 0 s = s\<lparr>mem := (\<lambda>p. if p \<in> table_cells a then 0 else mem s p)\<rparr>"
proof -
  have "(\<exists>j. 0 \<le> j \<and> j < 512 \<and> p = a + 8 * j) \<longleftrightarrow> p \<in> table_cells a" for p :: u64
    by (auto simp: table_cells_def)
  then show ?thesis by (simp only: zero_entries_eq)
qed

text \<open>The state after a successful \<open>allocate_table\<close>: the least free frame, taken and zeroed.\<close>

definition fresh_frame :: "machine \<Rightarrow> u64" where
  "fresh_frame s = Min (free_frames s)"

definition fresh_table :: "machine \<Rightarrow> u64" where
  "fresh_table s = fresh_frame s * kPageSize"

definition after_alloc :: "machine \<Rightarrow> machine" where
  "after_alloc s = zero_entries (physical_to_virtual s (fresh_table s)) 0 (take_frame (fresh_frame s) s)"

lemma fresh_frame_free: "free_frames s \<noteq> {} \<Longrightarrow> fresh_frame s \<in> free_frames s"
  by (simp add: fresh_frame_def Min_in)

lemma allocate_table_fresh:
  assumes "pool_ok s" "free_frames s \<noteq> {}"
  shows "allocate_table s =
    (Some \<lparr>physical = fresh_table s, virtual_address = physical_to_virtual s (fresh_table s)\<rparr>, after_alloc s)"
proof -
  have "frame_valid s (fresh_frame s)"
    using fresh_frame_free [OF assms(2)] by (simp add: free_frames_def)
  then have "fresh_table s \<noteq> UINT64_MAX"
    unfolding fresh_table_def by (rule valid_frame_address(5) [OF assms(1)])
  then show ?thesis
    using assms(2) unfolding fresh_table_def fresh_frame_def
    by (simp add: allocate_table_def alloc_frame_spec [OF pool_ok_shape [OF assms(1)]] after_alloc_def
        fresh_table_def fresh_frame_def physical_to_virtual_def Let_def)
qed

lemma after_alloc_fields [simp]:
  "bitmap (after_alloc s) = bitmap s" "bitmap_words (after_alloc s) = bitmap_words s"
  "bitmap_phys (after_alloc s) = bitmap_phys s" "bitmap_bytes (after_alloc s) = bitmap_bytes s"
  "frame_count (after_alloc s) = frame_count s" "g_hhdm_offset (after_alloc s) = g_hhdm_offset s"
  "msrs (after_alloc s) = msrs s" "cr3 (after_alloc s) = cr3 s" "klog (after_alloc s) = klog s"
  "bitmap_cells (after_alloc s) = bitmap_cells s" "frame_valid (after_alloc s) f = frame_valid s f"
  "physical_to_virtual (after_alloc s) a = physical_to_virtual s a"
  by (simp_all add: after_alloc_def zero_entries_table bitmap_cells_def frame_valid_def physical_to_virtual_def)

lemma after_alloc_effect:
  assumes "pool_ok s" "free_frames s \<noteq> {}"
  shows "free_frames (after_alloc s) = free_frames s - {fresh_frame s}" "pool_ok (after_alloc s)"
    "table_ok (after_alloc s) (fresh_table s)"
    "\<And>j. j < 512 \<Longrightarrow> table_entry (after_alloc s) (fresh_table s) j = 0"
    "\<And>p. p \<notin> bitmap_cells s \<Longrightarrow> p \<notin> table_cells (physical_to_virtual s (fresh_table s)) \<Longrightarrow>
       mem (after_alloc s) p = mem s p"
    "\<And>P. table_ok s P \<Longrightarrow> P \<noteq> fresh_table s \<and> table_ok (after_alloc s) P \<and>
       (\<forall>j<512. table_entry (after_alloc s) P j = table_entry s P j)"
proof -
  let ?f = "fresh_frame s" and ?N = "fresh_table s" and ?t = "after_alloc s"
  let ?u = "take_frame ?f s"
  have f: "?f \<in> free_frames s" "frame_valid s ?f"
    using fresh_frame_free [OF assms(2)] by (simp_all add: free_frames_def)
  have sh: "bitmap_shape s" by (rule pool_ok_shape [OF assms(1)])
  have dis: "table_cells (physical_to_virtual s ?N) \<inter> bitmap_cells s = {}"
    using assms(1) f(1) by (simp add: pool_ok_def fresh_table_def)
  have mem: "mem ?t p = (if p \<in> table_cells (physical_to_virtual s ?N) then 0 else mem ?u p)" for p
    by (simp add: after_alloc_def zero_entries_table)
  have ptv: "physical_to_virtual ?u a = physical_to_virtual s a" for a
    by (simp add: physical_to_virtual_def)
  have pu: "pool_ok ?u"
    using assms(1) f(1) pmm_wf_take_frame by (simp add: pool_ok_def ptv)
  have "\<forall>p\<in>bitmap_cells s. mem ?t p = mem ?u p"
    using dis by (auto simp: mem)
  then have sp: "same_pool ?t ?u"
    by (simp add: same_pool_def) (simp add: after_alloc_def zero_entries_table)
  note sp' = same_pool_frames [OF sp pool_ok_shape [OF pu]]
  show "free_frames ?t = free_frames s - {?f}" by (simp add: sp'(4))
  show "pool_ok ?t" by (rule same_pool_ok [OF pu sp])
  show other: "mem ?t p = mem s p" if "p \<notin> bitmap_cells s" "p \<notin> table_cells (physical_to_virtual s ?N)" for p
    using that mem_take_frame_other [OF sh that(1)] by (simp add: mem)
  have used: "frame_used ?t g \<longleftrightarrow> g = ?f \<or> frame_used s g" if "frame_valid s g" for g
    using sp'(3) [of g] that f(2) by (simp add: frame_used_take)
  show "table_ok ?t ?N"
    using f(2) used dis by (auto simp: table_ok_def fresh_table_def)
  show "table_entry ?t ?N j = 0" if "j < 512" for j
    using entry_cell_in_table [OF that] by (simp add: table_entry_def mem)
  fix P
  assume P: "table_ok s P"
  have ne: "P \<noteq> ?N"
    using table_not_free [OF assms(1), of ?f] P f(1) by (auto simp: fresh_table_def)
  have "page_aligned P" "page_aligned ?N"
    using table_ok_props(1) [OF assms(1) P] valid_frame_address(2) [OF assms(1) f(2)] by (simp_all add: fresh_table_def)
  then have cells: "table_cells (physical_to_virtual s P) \<inter> table_cells (physical_to_virtual s ?N) = {}"
    using ne by (rule table_cells_disjoint)
  have "table_ok ?t P" using P used by (auto simp: table_ok_def)
  moreover have "table_entry ?t P j = table_entry s P j" if "j < 512" for j
  proof -
    have "entry_cell (physical_to_virtual s P) j \<notin> bitmap_cells s \<union> table_cells (physical_to_virtual s ?N)"
      using entry_cell_in_table [OF that, of "physical_to_virtual s P"] P cells by (auto simp: table_ok_def)
    then show ?thesis using other by (simp add: table_entry_def)
  qed
  ultimately show "P \<noteq> ?N \<and> table_ok ?t P \<and> (\<forall>j<512. table_entry ?t P j = table_entry s P j)"
    using ne by blast
qed

lemma vm_wf_after_alloc:
  assumes "vm_wf s root" "free_frames s \<noteq> {}"
  shows "vm_wf (after_alloc s) root" "path_ok zs \<Longrightarrow> walk (after_alloc s) root zs = walk s root zs"
    "full_path ys \<Longrightarrow> leaf (after_alloc s) root ys = leaf s root ys"
  using vm_wf_agree [OF assms(1) after_alloc_effect(2) [OF vm_wfD(1) [OF assms(1)] assms(2)]]
    after_alloc_effect(6) [OF vm_wfD(1) [OF assms(1)] assms(2)] vm_wfD(2) [OF assms(1)]
  by blast+

section \<open>Growing a tree\<close>

text \<open>The number of tables a path lacks.\<close>

fun missing :: "machine \<Rightarrow> u64 \<Rightarrow> u16 list \<Rightarrow> nat" where
  "missing s P [] = 0"
| "missing s P (i # is) =
     (let e = table_entry s P i
      in if is = [] then 0 else if \<not> present e then length is else if huge e then 0
         else missing s (page_entry_address e) is)"

lemma missing_le: "missing s P is \<le> length is - 1"
proof (induction "is" arbitrary: P)
  case (Cons i "is")
  show ?case
    using Cons [of "page_entry_address (table_entry s P i)"] by (cases "is") (auto simp: Let_def)
qed simp

text \<open>
  What the mapping operations keep of a state while they grow the tree under \<open>root\<close> by \<open>n\<close> frames:
  the invariant, every table already linked, every cell outside the bitmap, the tables and the
  free frames. New tables come from free frames.
\<close>

definition tree_tables :: "machine \<Rightarrow> u64 \<Rightarrow> u64 set" where
  "tree_tables s root = {P. \<exists>xs. path_ok xs \<and> walk s root xs = Some P}"

definition free_tables :: "machine \<Rightarrow> u64 set" where
  "free_tables s = (\<lambda>f. f * kPageSize) ` free_frames s"

definition extends :: "machine \<Rightarrow> machine \<Rightarrow> u64 \<Rightarrow> nat \<Rightarrow> bool" where
  "extends s t root n \<longleftrightarrow> vm_wf t root \<and>
     bitmap t = bitmap s \<and> bitmap_phys t = bitmap_phys s \<and> bitmap_words t = bitmap_words s \<and>
     bitmap_bytes t = bitmap_bytes s \<and> frame_count t = frame_count s \<and> g_hhdm_offset t = g_hhdm_offset s \<and>
     msrs t = msrs s \<and> cr3 t = cr3 s \<and> klog t = klog s \<and>
     free_frames t \<subseteq> free_frames s \<and> card (free_frames t) + n = card (free_frames s) \<and>
     (\<forall>xs P. path_ok xs \<longrightarrow> walk s root xs = Some P \<longrightarrow> walk t root xs = Some P) \<and>
     (\<forall>xs P. path_ok xs \<longrightarrow> walk t root xs = Some P \<longrightarrow> P \<in> tree_tables s root \<union> free_tables s) \<and>
     (\<forall>p. p \<notin> bitmap_cells s \<longrightarrow> (\<forall>P \<in> tree_tables s root \<union> free_tables s. p \<notin> table_cells (physical_to_virtual s P)) \<longrightarrow>
        mem t p = mem s p)"

definition same_leaves :: "machine \<Rightarrow> machine \<Rightarrow> u64 \<Rightarrow> bool" where
  "same_leaves s t root \<longleftrightarrow> (\<forall>ys. full_path ys \<longrightarrow> leaf t root ys = leaf s root ys)"

lemma tree_tablesI: "path_ok xs \<Longrightarrow> walk s root xs = Some P \<Longrightarrow> P \<in> tree_tables s root"
  by (auto simp: tree_tables_def)

lemma extends_refl: "vm_wf s root \<Longrightarrow> extends s s root 0"
  by (auto simp: extends_def intro: tree_tablesI)

lemma extends_trans:
  assumes "extends s t root n" "extends t u root m"
  shows "extends s u root (n + m)"
proof -
  have cells: "bitmap_cells t = bitmap_cells s" and ptv: "physical_to_virtual t P = physical_to_virtual s P" for P
    using assms(1) by (simp_all add: extends_def bitmap_cells_def physical_to_virtual_def)
  have sub: "tree_tables t root \<union> free_tables t \<subseteq> tree_tables s root \<union> free_tables s"
    using assms(1) unfolding extends_def tree_tables_def free_tables_def by blast
  have "mem u p = mem s p" if p: "p \<notin> bitmap_cells s"
    "\<forall>P \<in> tree_tables s root \<union> free_tables s. p \<notin> table_cells (physical_to_virtual s P)" for p
  proof -
    have "mem u p = mem t p"
      using assms(2) p sub unfolding extends_def cells ptv by blast
    also have "\<dots> = mem s p" using assms(1) p unfolding extends_def by blast
    finally show ?thesis .
  qed
  moreover have "P \<in> tree_tables s root \<union> free_tables s" if "path_ok xs" "walk u root xs = Some P" for xs P
    using assms(2) that sub unfolding extends_def by blast
  ultimately show ?thesis
    using assms unfolding extends_def by (auto simp del: walk.simps)
qed

lemma same_leaves_trans: "same_leaves s t root \<Longrightarrow> same_leaves t u root \<Longrightarrow> same_leaves s u root"
  by (simp add: same_leaves_def)

lemma extends_set:
  assumes wf: "vm_wf s root" and P: "path_ok xs" "walk s root xs = Some P" "i < 512"
    and wf': "vm_wf (set_entry P i e s) root"
    and w: "\<And>zs. path_ok zs \<Longrightarrow> walk (set_entry P i e s) root zs = walk s root zs"
  shows "extends s (set_entry P i e s) root 0"
proof -
  let ?t = "set_entry P i e s"
  have "free_frames ?t = free_frames s"
    using same_pool_frames(4) [OF set_entry_same_pool [OF wf P] pool_ok_shape [OF vm_wfD(1) [OF wf]]] .
  moreover have "mem ?t p = mem s p" if "p \<notin> table_cells (physical_to_virtual s P)" for p
    using that entry_cell_in_table [OF P(3)] by (auto simp: set_entry_def)
  moreover have "P \<in> tree_tables s root" by (rule tree_tablesI [OF P(1,2)])
  ultimately show ?thesis
    using wf' w unfolding extends_def by (auto simp: set_entry_def intro: tree_tablesI)
qed

lemma extends_new:
  assumes wf: "vm_wf s root" and free: "free_frames s \<noteq> {}"
    and P: "path_ok xs" "walk s root xs = Some P" "i < 512"
    and wf': "vm_wf (set_entry P i e (after_alloc s)) root"
    and w: "\<And>zs. path_ok zs \<Longrightarrow> walk (set_entry P i e (after_alloc s)) root zs =
      (if zs = xs @ [i] then Some (fresh_table s) else walk s root zs)"
    and none: "walk s root (xs @ [i]) = None"
  shows "extends s (set_entry P i e (after_alloc s)) root 1"
proof -
  let ?u = "after_alloc s" and ?t = "set_entry P i e (after_alloc s)"
  note eff = after_alloc_effect [OF vm_wfD(1) [OF wf] free]
  note wfu = vm_wf_after_alloc [OF wf free]
  have Pu: "walk ?u root xs = Some P" by (simp add: wfu(2) [OF P(1)] P(2))
  have fr: "free_frames ?t = free_frames s - {fresh_frame s}"
    using same_pool_frames(4) [OF set_entry_same_pool [OF wfu(1) P(1) Pu P(3)] pool_ok_shape [OF eff(2)]] eff(1) by simp
  have card: "card (free_frames ?t) + 1 = card (free_frames s)"
    using card_Suc_Diff1 [OF finite_free_frames fresh_frame_free [OF free]] by (simp add: fr)
  have tabs: "P \<in> tree_tables s root" "fresh_table s \<in> free_tables s"
    using tree_tablesI [OF P(1,2)] fresh_frame_free [OF free] by (auto simp: free_tables_def fresh_table_def)
  have "mem ?t p = mem s p" if p: "p \<notin> bitmap_cells s"
    "\<forall>Q \<in> tree_tables s root \<union> free_tables s. p \<notin> table_cells (physical_to_virtual s Q)" for p
  proof -
    have "p \<noteq> entry_cell (physical_to_virtual s P) i" using p(2) tabs(1) entry_cell_in_table [OF P(3)] by blast
    then have "mem ?t p = mem ?u p" by (simp add: set_entry_def)
    also have "\<dots> = mem s p" using p tabs(2) by (intro eff(5)) blast+
    finally show ?thesis .
  qed
  moreover have "Q \<in> tree_tables s root \<union> free_tables s" if "path_ok zs" "walk ?t root zs = Some Q" for zs Q
    using that w [OF that(1)] tabs(2) tree_tablesI [OF that(1)] by (auto split: if_splits)
  moreover have "walk ?t root zs = Some Q" if "path_ok zs" "walk s root zs = Some Q" for zs Q
    using that w [OF that(1)] none by auto
  ultimately show ?thesis
    using wf' fr card unfolding extends_def by (auto simp: set_entry_def)
qed

section \<open>\<open>ensure_table\<close>\<close>

lemma bit_intermediate_flags:
  "bit (intermediate_flags f) n \<longleftrightarrow> n = 0 \<or> n = 1 \<or> n = 2 \<and> user_bit f"
  by (auto simp: intermediate_flags_def flags_or_def bit_or_iff Let_def)

lemma flags_only_intermediate [simp]: "flags_only (intermediate_flags f)"
  by (simp add: flags_only_bit bit_intermediate_flags)

lemma page_entry_address_or:
  "flags_only f \<Longrightarrow> page_entry_address (e OR f) = page_entry_address e"
  by (rule bit_word_eqI) (auto simp: bit_page_entry_address bit_or_iff flags_only_bit)

lemma missing_refresh:
  assumes "page_aligned P" "i < 512" "present (table_entry s P i)" "\<not> huge (table_entry s P i)"
    "present e" "\<not> huge e" "page_entry_address e = page_entry_address (table_entry s P i)"
  shows "page_aligned Q \<Longrightarrow> \<forall>k\<in>set zs. k < 512 \<Longrightarrow> missing (set_entry P i e s) Q zs = missing s Q zs"
  by (induction zs arbitrary: Q) (use assms in \<open>auto simp: table_entry_set Let_def\<close>)

lemma user_link_set:
  assumes "vm_wf s root" "path_ok xs" "walk s root xs = Some P" "i < 512" "user_bit e"
    "walk (set_entry P i e s) root xs = Some P"
  shows "user_link (set_entry P i e s) root (xs @ [i])"
  using assms vm_wf_aligned [OF assms(1,3)] by (simp add: user_link_def table_entry_set)

text \<open>What \<open>ensure_table\<close> leaves when it returns the table \<open>Q\<close> for the link \<open>i\<close> of \<open>P\<close>.\<close>

definition linked ::
  "machine \<Rightarrow> machine \<Rightarrow> u64 \<Rightarrow> u16 list \<Rightarrow> u64 \<Rightarrow> u16 \<Rightarrow> u64 \<Rightarrow> PageFlags \<Rightarrow> bool" where
  "linked s t root xs P i Q flags \<longleftrightarrow>
     extends s t root (if present (table_entry s P i) then 0 else 1) \<and> same_leaves s t root \<and>
     walk t root (xs @ [i]) = Some Q \<and> (user_bit flags \<longrightarrow> user_link t root (xs @ [i])) \<and>
     (\<forall>zs. path_ok zs \<longrightarrow> zs \<noteq> xs @ [i] \<longrightarrow> walk t root zs = walk s root zs) \<and>
     (\<forall>js. js \<noteq> [] \<longrightarrow> (\<forall>j\<in>set js. j < 512) \<longrightarrow>
        missing s P (i # js) = missing t Q js + (if present (table_entry s P i) then 0 else 1))"

lemma refresh_linked:
  assumes wf: "vm_wf s root" and P: "path_ok xs" "walk s root xs = Some P" "i < 512" "length xs < 3"
    and e: "present (table_entry s P i)" "\<not> huge (table_entry s P i)"
    and up: "user_bit flags \<Longrightarrow> user_link s root xs"
  shows "linked s (set_entry P i (table_entry s P i OR intermediate_flags flags) s) root xs P i
    (page_entry_address (table_entry s P i)) flags"
proof -
  let ?e = "table_entry s P i"
  let ?n = "?e OR intermediate_flags flags"
  let ?t = "set_entry P i ?n s"
  let ?Q = "page_entry_address ?e"
  have al: "page_aligned P" by (rule vm_wf_aligned [OF wf P(2)])
  have n: "present ?n" "\<not> huge ?n" "page_entry_address ?n = ?Q" "user_bit ?n \<longleftrightarrow> user_bit ?e \<or> user_bit flags"
    "bit ?n 1" "bit ?n 63 = bit ?e 63"
    using e by (auto simp: bit_or_iff bit_intermediate_flags page_entry_address_or)
  have w: "walk ?t root zs = walk s root zs" if "path_ok zs" for zs
    using that by (intro walk_refresh al P(3) e n vm_wfD(5) [OF wf]) (simp add: path_ok_def)
  have xsi: "path_ok (xs @ [i])" "walk s root (xs @ [i]) = Some ?Q"
    using P e by (simp_all add: path_ok_snoc walk_snoc)
  have ok: "entry_ok s (length xs) ?e" by (rule vm_wfD(3) [OF wf P(1-3)])
  have "?Q \<noteq> P"
    using vm_wfD(4) [OF wf xsi(1) P(1)] xsi(2) P(2) by auto
  then have good: "good_entry s P (length xs) ?n"
    using ok e n P(4) by (auto simp: good_entry_def entry_ok_def)
  have up': "user_link s root xs" if "user_bit ?n"
  proof (cases "user_bit flags")
    case False
    then have ue: "user_bit ?e" using that n(4) by blast
    show ?thesis
      unfolding user_link_def
    proof (intro allI impI)
      fix zs k Z
      assume z: "xs = zs @ [k]" "walk s root zs = Some Z"
      have zs: "path_ok zs" "k < 512" "length zs < 3" using P(1) by (simp_all add: z(1) path_ok_snoc)
      have "present (table_entry s Z k)" "\<not> huge (table_entry s Z k)" "P = page_entry_address (table_entry s Z k)"
        using P(2) z by (auto simp: walk_snoc)
      then show "user_bit (table_entry s Z k)"
        using vm_wfD(3) [OF wf zs(1) z(2) zs(2)] zs(3) ue P(3) by (auto simp: entry_ok_def)
    qed
  qed (use up in blast)
  have wf': "vm_wf ?t root" by (rule vm_wf_set_same [OF wf P(1-3) w good up'])
  have "extends s ?t root 0" by (rule extends_set [OF wf P(1-3) wf' w])
  moreover have "leaf ?t root ys = leaf s root ys" if "full_path ys" for ys
    using P(4) n(2) e(2) w by (intro leaf_set [OF wf P(1-3) that, where N = 0]) auto
  moreover have "user_link ?t root (xs @ [i])" if "user_bit flags"
    using that n(4) w [OF P(1)] P(2) by (intro user_link_set [OF wf P(1-3)]) auto
  moreover have "missing s P (i # js) = missing ?t ?Q js" if "js \<noteq> []" "\<forall>j\<in>set js. j < 512" for js
    using that e missing_refresh [OF al P(3) e n(1-3), of ?Q js] by (simp add: Let_def)
  ultimately show ?thesis
    using e(1) w xsi by (simp add: linked_def same_leaves_def)
qed

lemma fresh_table_entry:
  assumes "pool_ok s" "free_frames s \<noteq> {}" "flags_only f"
  shows "page_entry_address (make_page_entry (fresh_table s) f) = fresh_table s"
proof -
  have "frame_valid s (fresh_frame s)"
    using fresh_frame_free [OF assms(2)] by (simp add: free_frames_def)
  then show ?thesis
    using valid_frame_address(3) [OF assms(1)] by (simp add: page_entry_address_make [OF assms(3)] fresh_table_def)
qed

lemma fresh_entry_bits:
  fixes flags :: PageFlags
  assumes "pool_ok s" "free_frames s \<noteq> {}"
  defines "n \<equiv> make_page_entry (fresh_table s) (intermediate_flags flags)"
  shows "present n" "\<not> huge n" "bit n 1" "\<not> bit n 63" "user_bit n \<longleftrightarrow> user_bit flags" "page_entry_address n = fresh_table s"
proof -
  have "page_aligned (fresh_table s)" using table_ok_props(1) after_alloc_effect(2,3) [OF assms(1,2)] by blast
  then have "bit (fresh_table s) k \<Longrightarrow> 12 \<le> k" for k
    by (metis page_aligned_def bit_take_bit_iff bit_0_eq bot_apply bot_bool_def not_le)
  from this [of 7] show "present n" "\<not> huge n" "bit n 1" "\<not> bit n 63" "user_bit n \<longleftrightarrow> user_bit flags"
    by (auto simp: n_def bit_make_page_entry bit_intermediate_flags)
  show "page_entry_address n = fresh_table s"
    unfolding n_def by (rule fresh_table_entry [OF assms(1,2) flags_only_intermediate])
qed

lemma user_link_after_alloc:
  assumes wf: "vm_wf s root" and free: "free_frames s \<noteq> {}" and xs: "path_ok xs" and up: "user_link s root xs"
  shows "user_link (after_alloc s) root xs"
  unfolding user_link_def
proof (intro allI impI)
  fix zs k Z
  assume z: "xs = zs @ [k]" "walk (after_alloc s) root zs = Some Z"
  have zs: "path_ok zs" "k < 512" using xs by (simp_all add: z(1) path_ok_snoc)
  then have Z: "walk s root zs = Some Z" using z(2) vm_wf_after_alloc(2) [OF wf free] by simp
  have "user_bit (table_entry s Z k)" using up z(1) Z by (auto simp: user_link_def)
  then show "user_bit (table_entry (after_alloc s) Z k)"
    using after_alloc_effect(6) [OF vm_wfD(1) [OF wf] free] vm_wfD(2) [OF wf zs(1) Z] zs(2) by simp
qed

text \<open>The state with a new table linked in: what can be walked to, and the leaves.\<close>

lemma new_walk:
  fixes flags :: PageFlags
  assumes wf: "vm_wf s root" and P: "path_ok xs" "walk s root xs = Some P" "i < 512"
    and e: "\<not> present (table_entry s P i)" and free: "free_frames s \<noteq> {}"
  defines "t \<equiv> set_entry P i (make_page_entry (fresh_table s) (intermediate_flags flags)) (after_alloc s)"
  shows "fresh_table s \<noteq> P" "table_entry (after_alloc s) P i = table_entry s P i"
    "walk (after_alloc s) root (xs @ [i]) = None"
    "path_ok zs \<Longrightarrow> walk (after_alloc s) root zs \<noteq> Some (fresh_table s)"
    "path_ok zs \<Longrightarrow> walk t root zs = (if zs = xs @ [i] then Some (fresh_table s) else walk (after_alloc s) root zs)"
proof -
  let ?u = "after_alloc s"
  note eff = after_alloc_effect [OF vm_wfD(1) [OF wf] free]
  note wfu = vm_wf_after_alloc [OF wf free]
  note n = fresh_entry_bits [OF vm_wfD(1) [OF wf] free, of flags]
  have Pu: "walk ?u root xs = Some P" by (simp add: wfu(2) [OF P(1)] P(2))
  show unreached: "walk ?u root zs \<noteq> Some (fresh_table s)" if "path_ok zs" for zs
    using eff(6) vm_wfD(2) [OF wf that] wfu(2) [OF that] by metis
  show NP: "fresh_table s \<noteq> P" using unreached [OF P(1)] Pu by auto
  show eu: "table_entry ?u P i = table_entry s P i" using eff(6) vm_wfD(2) [OF wf P(1,2)] P(3) by blast
  show "walk ?u root (xs @ [i]) = None" using Pu e by (simp add: walk_append eu Let_def)
  show "walk t root zs = (if zs = xs @ [i] then Some (fresh_table s) else walk ?u root zs)" if "path_ok zs"
    using walk_new [OF wfu(1) P(1) Pu P(3), of _ zs] e n(1,2) eff(4) NP that by (simp add: t_def eu n(6))
qed

lemma new_leaf:
  assumes wf: "vm_wf s root" and P: "path_ok xs" "walk s root xs = Some P" "i < 512" "length xs < 3"
    and e: "\<not> present (table_entry s P i)" and free: "free_frames s \<noteq> {}" and ys: "full_path ys"
  shows "leaf (set_entry P i (make_page_entry (fresh_table s) (intermediate_flags flags)) (after_alloc s)) root ys = leaf s root ys"
proof -
  let ?u = "after_alloc s" and ?N = "fresh_table s" and ?n = "make_page_entry (fresh_table s) (intermediate_flags flags)"
  note pool = vm_wfD(1) [OF wf]
  note eff = after_alloc_effect [OF pool free] and wfu = vm_wf_after_alloc [OF wf free]
  note nw = new_walk [OF wf P(1-3) e free]
  have Pu: "walk ?u root xs = Some P" by (simp add: wfu(2) [OF P(1)] P(2))
  have al: "page_aligned ?N" using table_ok_props(1) [OF eff(2,3)] .
  have ne: "\<not> huge (table_entry ?u P i)" using vm_wfD(3) [OF wf P(1-3)] e by (auto simp: nw(2) entry_ok_def)
  have "leaf (set_entry P i ?n ?u) root ys = leaf ?u root ys"
  proof (rule leaf_set [OF wfu(1) P(1) Pu P(3) ys, where N = ?N])
    show "walk (set_entry P i ?n ?u) root zs = walk ?u root zs \<or> zs = xs @ [i] \<and> walk ?u root zs = None \<and>
        walk (set_entry P i ?n ?u) root zs = Some ?N \<and> ?N \<noteq> P \<and> page_aligned ?N \<and> (\<forall>j<512. table_entry ?u ?N j = 0)"
      if "path_ok zs" for zs
      using nw(5) [OF that, of flags] nw(1,3) al eff(4) by auto
    show "\<not> prefix (xs @ [i]) ys \<or> length xs < 3 \<and> \<not> huge ?n \<and> \<not> huge (table_entry ?u P i)"
      using P(4) fresh_entry_bits(2) [OF pool free] ne by blast
  qed
  then show ?thesis using wfu(3) [OF ys] by simp
qed

lemma new_linked:
  assumes wf: "vm_wf s root" and P: "path_ok xs" "walk s root xs = Some P" "i < 512" "length xs < 3"
    and e: "\<not> present (table_entry s P i)" and free: "free_frames s \<noteq> {}"
    and up: "user_bit flags \<Longrightarrow> user_link s root xs"
  shows "linked s (set_entry P i (make_page_entry (fresh_table s) (intermediate_flags flags)) (after_alloc s))
    root xs P i (fresh_table s) flags"
proof -
  let ?u = "after_alloc s" and ?N = "fresh_table s"
  let ?n = "make_page_entry ?N (intermediate_flags flags)"
  let ?t = "set_entry P i ?n ?u"
  note pool = vm_wfD(1) [OF wf]
  note eff = after_alloc_effect [OF pool free] and wfu = vm_wf_after_alloc [OF wf free]
  note n = fresh_entry_bits [OF pool free, of flags] and nw = new_walk [OF wf P(1-3) e free]
  have Pu: "walk ?u root xs = Some P" by (simp add: wfu(2) [OF P(1)] P(2))
  have al: "page_aligned P" "page_aligned ?N"
    using vm_wf_aligned [OF wf P(2)] table_ok_props(1) [OF eff(2,3)] by blast+
  have good: "good_entry ?u P (length xs) ?n" using n nw(1) eff(4) by (simp add: good_entry_def)
  have "user_link ?u root xs" if "user_bit ?n" using user_link_after_alloc [OF wf free P(1)] up n(5) that by blast
  then have wf': "vm_wf ?t root"
    by (intro vm_wf_set_new [OF wfu(1) P(1) Pu P(3,4) nw(5) eff(3) nw(4) eff(4) good])
  have xsi: "path_ok (xs @ [i])" using P by (simp add: path_ok_snoc)
  have "extends s ?t root 1"
    by (rule extends_new [OF wf free P(1-3) wf']) (use nw(5) [of _ flags] wfu(2) nw(3) xsi in auto)
  moreover have "user_link ?t root (xs @ [i])" if "user_bit flags"
    by (rule user_link_set [OF wfu(1) P(1) Pu P(3)]) (use that n(5) nw(5) [OF P(1), of flags] Pu in simp_all)
  moreover have "missing s P (i # js) = missing ?t ?N js + 1" if js: "js \<noteq> []" "\<forall>j\<in>set js. j < 512" for js
  proof -
    obtain j js' where j: "js = j # js'" using js(1) by (cases js) auto
    then have "table_entry ?t ?N j = 0" using js(2) eff(4) nw(1) al P(3) by (simp add: table_entry_set)
    then show ?thesis using e by (auto simp: j Let_def)
  qed
  ultimately show ?thesis
    using e nw(5) [OF xsi, of flags] nw(5) wfu(2) new_leaf [OF wf P e free] by (simp add: linked_def same_leaves_def)
qed

lemma ensure_table_huge:
  "huge (table_entry s P i) \<Longrightarrow> ensure_table (entry_cell (physical_to_virtual s P) i) f s = (nullptr, s)"
  by (simp add: ensure_table_def table_entry_def)

lemma ensure_table_linked:
  assumes wf: "vm_wf s root" and P: "path_ok xs" "walk s root xs = Some P" "i < 512" "length xs < 3"
    and e: "\<not> huge (table_entry s P i)" "present (table_entry s P i) \<or> free_frames s \<noteq> {}"
    and up: "user_bit flags \<Longrightarrow> user_link s root xs"
  obtains t Q where
    "ensure_table (entry_cell (physical_to_virtual s P) i) (intermediate_flags flags) s = (physical_to_virtual s Q, t)"
    "linked s t root xs P i Q flags"
proof (cases "present (table_entry s P i)")
  case True
  let ?n = "table_entry s P i OR intermediate_flags flags"
  have "ensure_table (entry_cell (physical_to_virtual s P) i) (intermediate_flags flags) s =
      (physical_to_virtual s (page_entry_address (table_entry s P i)), set_entry P i ?n s)"
    using True e(1) by (simp add: ensure_table_def table_entry_def [symmetric] set_entry_def
        page_entry_address_or Let_def)
  then show ?thesis by (rule that [OF _ refresh_linked [OF wf P True e(1) up]])
next
  case False
  then have free: "free_frames s \<noteq> {}" using e(2) by blast
  have "ensure_table (entry_cell (physical_to_virtual s P) i) (intermediate_flags flags) s =
      (physical_to_virtual s (fresh_table s),
       set_entry P i (make_page_entry (fresh_table s) (intermediate_flags flags)) (after_alloc s))"
    using False e(1) allocate_table_fresh [OF vm_wfD(1) [OF wf] free]
    by (simp add: ensure_table_def table_entry_def [symmetric] set_entry_def)
  then show ?thesis by (rule that [OF _ new_linked [OF wf P False free up]])
qed

lemma linkedD:
  assumes "linked s t root xs P i Q flags" "path_ok xs" "i < 512" "length xs < 3"
  shows "vm_wf t root" "walk t root (xs @ [i]) = Some Q" "path_ok (xs @ [i])"
    "same_leaves s t root" "user_bit flags \<Longrightarrow> user_link t root (xs @ [i])"
    "physical_to_virtual s a = physical_to_virtual t a" "physical_to_virtual s Q \<noteq> 0"
proof -
  show wf: "vm_wf t root" and Q: "walk t root (xs @ [i]) = Some Q" and "same_leaves s t root"
    and p: "path_ok (xs @ [i])" and "user_bit flags \<Longrightarrow> user_link t root (xs @ [i])"
    and ptv: "physical_to_virtual s a = physical_to_virtual t a" for a
    using assms by (simp_all add: linked_def extends_def path_ok_snoc physical_to_virtual_def)
  show "physical_to_virtual s Q \<noteq> 0"
    unfolding ptv using table_ok_props(3) vm_wfD(1) [OF wf] vm_wfD(2) [OF wf p Q] by blast
qed

section \<open>Descending to a leaf\<close>

lemma missing_leaf: "leaf s P ys \<noteq> None \<Longrightarrow> missing s P ys = 0"
  by (induction ys arbitrary: P) (auto simp: Let_def split: if_splits)

text \<open>
  The state of a mapping operation that has walked \<open>xs\<close> from the root and still has \<open>js\<close> to go,
  relative to the state \<open>s0\<close> it started in.
\<close>

definition descending ::
  "machine \<Rightarrow> machine \<Rightarrow> u64 \<Rightarrow> u16 list \<Rightarrow> u64 \<Rightarrow> u16 list \<Rightarrow> PageFlags \<Rightarrow> bool" where
  "descending s0 s root xs P js flags \<longleftrightarrow>
     (\<exists>n. extends s0 s root n \<and> n + missing s P js = missing s0 root (xs @ js)) \<and>
     same_leaves s0 s root \<and> walk s root xs = Some P \<and> path_ok xs \<and>
     (\<forall>zs. path_ok zs \<longrightarrow> length xs < length zs \<longrightarrow> walk s root zs = walk s0 root zs) \<and>
     (user_bit flags \<longrightarrow> user_link s root xs) \<and> missing s P js \<le> card (free_frames s)"

lemma descending_start:
  "vm_wf s root \<Longrightarrow> missing s root js \<le> card (free_frames s) \<Longrightarrow> descending s s root [] root js flags"
  by (auto simp: descending_def same_leaves_def intro: extends_refl)

lemma descendingD:
  assumes "descending s0 s root xs P js flags"
  shows "vm_wf s root" "walk s root xs = Some P" "path_ok xs" "user_bit flags \<Longrightarrow> user_link s root xs"
    "physical_to_virtual s a = physical_to_virtual s0 a" "same_leaves s0 s root"
    "path_ok zs \<Longrightarrow> length xs < length zs \<Longrightarrow> walk s root zs = walk s0 root zs"
  using assms by (auto simp: descending_def extends_def physical_to_virtual_def)

lemma descending_step:
  assumes d: "descending s0 s root xs P (i # js) flags" and full: "full_path (xs @ i # js @ zs)" and js: "js \<noteq> []"
  shows "ensure_table (entry_cell (physical_to_virtual s0 P) i) (intermediate_flags flags) s = (nullptr, s) \<and>
      leaf s0 root (xs @ i # js @ zs) \<noteq> None \<or>
    (\<exists>Q t. ensure_table (entry_cell (physical_to_virtual s0 P) i) (intermediate_flags flags) s =
        (physical_to_virtual s0 Q, t) \<and> physical_to_virtual s0 Q \<noteq> nullptr \<and>
        descending s0 t root (xs @ [i]) Q js flags)"
proof -
  note D = descendingD [OF d]
  have b: "i < 512" "length xs < 3" "\<forall>j\<in>set js. j < 512"
    using full js by (auto simp: full_path_def Suc_le_eq [symmetric] neq_Nil_conv)
  have ok: "entry_ok s (length xs) (table_entry s P i)" by (rule vm_wfD(3) [OF D(1,3,2) b(1)])
  show ?thesis
  proof (cases "huge (table_entry s P i)")
    case True
    have "leaf s root (xs @ i # js @ zs) = leaf s P (i # js @ zs)" by (rule leaf_append [OF D(2)]) simp
    also have "\<dots> \<noteq> None" using True ok by (auto simp: entry_ok_def Let_def)
    finally show ?thesis
      using ensure_table_huge [OF True, of "intermediate_flags flags"] D(6) full by (simp add: D(5) same_leaves_def)
  next
    case False
    have "present (table_entry s P i) \<or> free_frames s \<noteq> {}"
      using d js by (auto simp: descending_def Let_def)
    then obtain t Q where e: "ensure_table (entry_cell (physical_to_virtual s P) i) (intermediate_flags flags) s =
        (physical_to_virtual s Q, t)" and l: "linked s t root xs P i Q flags"
      using ensure_table_linked [OF D(1,3,2) b(1,2) False _ D(4)] by blast
    note L = linkedD [OF l D(3) b(1,2)]
    let ?k = "if present (table_entry s P i) then 0 else (1 :: nat)"
    have x: "extends s t root ?k" and m: "missing s P (i # js) = missing t Q js + ?k"
      using l js b(3) by (simp_all add: linked_def)
    have fr: "card (free_frames t) + ?k = card (free_frames s)" using x by (simp only: extends_def)
    obtain n where n: "extends s0 s root n" "n + missing s P (i # js) = missing s0 root (xs @ i # js)"
      using d by (auto simp: descending_def)
    have "extends s0 t root (n + ?k)" by (rule extends_trans [OF n(1) x])
    moreover have "(n + ?k) + missing t Q js = missing s0 root ((xs @ [i]) @ js)"
      using n(2) m by simp
    moreover have "missing t Q js \<le> card (free_frames t)"
      using d m fr by (simp add: descending_def)
    moreover have "walk t root zs = walk s0 root zs" if "path_ok zs" "length (xs @ [i]) < length zs" for zs
      using that l D(7) [OF that(1)] by (auto simp: linked_def)
    ultimately have "descending s0 t root (xs @ [i]) Q js flags"
      using L same_leaves_trans [OF D(6) L(4)] unfolding descending_def by blast
    with e L(7) show ?thesis by (auto simp: D(5))
  qed
qed

text \<open>Installing a leaf.\<close>

lemma set_leaf:
  assumes wf: "vm_wf s root" and P: "path_ok xs" "walk s root xs = Some P" "i < 512"
    and e: "\<not> present (table_entry s P i)" "present e" "length xs = 3 \<or> huge e" "xs \<noteq> []"
    and up: "user_bit e \<longrightarrow> user_link s root xs"
  shows "extends s (set_entry P i e s) root 0"
    "full_path ys \<Longrightarrow> leaf (set_entry P i e s) root ys =
       (if prefix (xs @ [i]) ys then Some (3 - length xs, e) else leaf s root ys)"
proof -
  let ?t = "set_entry P i e s"
  have al: "page_aligned P" by (rule vm_wf_aligned [OF wf P(2)])
  have w: "walk ?t root zs = walk s root zs" if "path_ok zs" for zs
    by (rule walk_leaf [OF wf P e(1,3) that])
  have "good_entry s P (length xs) e" using e by (auto simp: good_entry_def)
  from vm_wf_set_same [OF wf P w this up [rule_format]] show "extends s ?t root 0"
    by (intro extends_set [OF wf P _ w])
  show "leaf ?t root ys = (if prefix (xs @ [i]) ys then Some (3 - length xs, e) else leaf s root ys)"
    if full: "full_path ys"
  proof (cases "prefix (xs @ [i]) ys")
    case True
    then obtain rest where r: "ys = xs @ i # rest" by (auto simp: prefix_def)
    have "leaf ?t root ys = leaf ?t P (i # rest)"
      unfolding r by (rule leaf_append) (simp_all add: w [OF P(1)] P(2))
    also have "\<dots> = Some (length rest, e)"
      using al P(3) e full by (auto simp: table_entry_set Let_def full_path_def r)
    finally show ?thesis using True full by (auto simp: r full_path_def)
  next
    case False
    then show ?thesis by (simp add: leaf_set [OF wf P full, where N = 0] w)
  qed
qed

end
