(* ===== verification/Vmm_Map.thy ===== *)
theory Vmm_Map
  imports Page_Tables
begin

text \<open>
  What \<open>map_page\<close>, \<open>map_page_large\<close> and \<open>translate\<close> of \<open>src/src/mm/vmm.cpp\<close> do to a well-formed
  tree of page tables: which calls succeed, which translations they change, which memory they
  write, and which access rights result.
\<close>

section \<open>Indices of an address\<close>

lemma indices_eq:
  "indices v = [pml4_index (decompose_address v), pdpt_index (decompose_address v),
     pd_index (decompose_address v), pt_index (decompose_address v)]"
  by (simp add: indices_def Let_def)

lemma full_path_indices [simp]: "full_path (indices v)"
  by (simp add: full_path_def indices_eq)

lemma indices_eq_iff:
  "is_canonical v \<Longrightarrow> is_canonical w \<Longrightarrow> indices v = indices w \<longleftrightarrow> drop_bit 12 v = drop_bit 12 w"
  by (simp add: same_page_iff indices_eq)

definition large_indices :: "u64 \<Rightarrow> u16 list" where
  "large_indices v = take 3 (indices v)"

lemma large_indices_eq:
  "large_indices v = [pml4_index (decompose_address v), pdpt_index (decompose_address v),
     pd_index (decompose_address v)]"
  by (simp add: large_indices_def indices_eq)

definition dir_indices :: "u64 \<Rightarrow> u16 list" where
  "dir_indices v = take 2 (indices v)"

lemma dir_indices_eq: "dir_indices v = [pml4_index (decompose_address v), pdpt_index (decompose_address v)]"
  by (simp add: dir_indices_def indices_eq)

section \<open>Outcomes\<close>

lemma page_aligned_mask: "v AND (kPageSize - 1) = 0 \<longleftrightarrow> page_aligned v"
  by (simp add: kPageSize_def and_0xFFF page_aligned_def)

definition map_page_args :: "u64 \<Rightarrow> u64 \<Rightarrow> PageFlags \<Rightarrow> bool" where
  "map_page_args virt phys flags \<longleftrightarrow> is_canonical virt \<and> page_aligned virt \<and>
     phys AND NOT kPhysicalAddressMask = 0 \<and> \<not> huge flags"

lemma phys_mask_aligned: "p AND NOT kPhysicalAddressMask = 0 \<Longrightarrow> page_aligned p"
proof -
  assume p: "p AND NOT kPhysicalAddressMask = 0"
  have "\<not> bit p n" if "n < 12" for n
    using arg_cong [OF p, of "\<lambda>x. bit x n"] that by (simp add: bit_simps bit_kPhysicalAddressMask)
  then show ?thesis
    unfolding page_aligned_def by (intro bit_word_eqI) (simp add: bit_simps)
qed

lemma map_page_rejects:
  "pml4_table = nullptr \<or> \<not> map_page_args virt phys flags \<Longrightarrow>
     map_page pml4_table virt phys flags s = (False, s)"
  by (auto simp: map_page_def map_page_args_def page_aligned_mask)

lemma table_entry_ptv: "mem s (entry_cell (physical_to_virtual s P) i) = table_entry s P i"
  by (simp add: table_entry_def)

text \<open>The chain of \<open>ensure_table\<close> calls both mapping functions start with.\<close>

fun descend :: "PageFlags \<Rightarrow> ptr \<Rightarrow> u16 list \<Rightarrow> machine \<Rightarrow> ptr \<times> machine" where
  "descend f table [] s = (table, s)"
| "descend f table (i # is) s =
     (let (p, s) = ensure_table (entry_cell table i) f s
      in if p = nullptr then (nullptr, s) else descend f p is s)"

lemma map_page_accepts:
  assumes "map_page_args virt phys flags" "pml4_table \<noteq> nullptr"
  shows "map_page pml4_table virt phys flags s =
    (case descend (intermediate_flags flags) pml4_table (large_indices virt) s of (pt, s) \<Rightarrow>
       let c = entry_cell pt (pt_index (decompose_address virt))
       in if pt = nullptr \<or> present (mem s c) then (False, s)
          else (True, store c (make_page_entry phys (flags_or flags PF_Present)) s))"
  using assms phys_mask_aligned [of phys]
  by (auto simp: map_page_def map_page_args_def page_aligned_mask large_indices_eq Let_def split: prod.splits)

lemma leaf_entry_bits:
  assumes "phys AND NOT kPhysicalAddressMask = 0"
  shows "n < 12 \<or> 52 \<le> n \<Longrightarrow> bit (make_page_entry phys f) n = bit f n"
  using assms by (auto simp: bit_make_page_entry)

text \<open>A call that fails without any visible effect on the translations.\<close>

definition fails_unchanged :: "bool \<times> machine \<Rightarrow> machine \<Rightarrow> u64 \<Rightarrow> bool" where
  "fails_unchanged r s root \<longleftrightarrow> (\<exists>t. r = (False, t) \<and> extends s t root 0 \<and> same_leaves s t root)"

lemma descending_fails:
  assumes "descending s0 s root xs P js flags" "missing s0 root (xs @ js) = 0"
  shows "fails_unchanged (False, s) s0 root"
  using assms by (auto simp: fails_unchanged_def descending_def)

text \<open>An unsuccessful and a successful descent.\<close>

definition stopped :: "machine \<Rightarrow> u64 \<Rightarrow> nat \<Rightarrow> ptr \<times> machine \<Rightarrow> bool" where
  "stopped s0 root m r \<longleftrightarrow> (\<exists>n\<le>m. fst r = nullptr \<and> extends s0 (snd r) root n \<and> same_leaves s0 (snd r) root)"

definition arrived :: "machine \<Rightarrow> u64 \<Rightarrow> u16 list \<Rightarrow> u16 list \<Rightarrow> PageFlags \<Rightarrow> ptr \<times> machine \<Rightarrow> bool" where
  "arrived s0 root xs js flags r \<longleftrightarrow>
     (\<exists>Q. fst r = physical_to_virtual s0 Q \<and> fst r \<noteq> nullptr \<and> descending s0 (snd r) root xs Q js flags)"

lemma descend_spec:
  assumes "descending s0 s root xs P (is @ [k]) flags" "full_path (xs @ is @ k # zs)"
    "physical_to_virtual s0 P \<noteq> nullptr"
  shows "leaf s0 root (xs @ is @ k # zs) \<noteq> None \<and>
      stopped s0 root (missing s0 root (xs @ is @ [k]))
        (descend (intermediate_flags flags) (physical_to_virtual s0 P) is s) \<or>
    arrived s0 root (xs @ is) [k] flags (descend (intermediate_flags flags) (physical_to_virtual s0 P) is s)"
  using assms
proof (induction "is" arbitrary: s xs P)
  case Nil
  then show ?case by (auto simp: arrived_def)
next
  case (Cons i "is")
  let ?call = "ensure_table (entry_cell (physical_to_virtual s0 P) i) (intermediate_flags flags) s"
  have d: "descending s0 s root xs P (i # (is @ [k])) flags" and
    full: "full_path (xs @ i # (is @ [k]) @ zs)" using Cons.prems by simp_all
  have ne: "is @ [k] \<noteq> []" by simp
  from descending_step [OF d full ne] show ?case
  proof (elim disjE conjE exE)
    assume c: "?call = (nullptr, s)" "leaf s0 root (xs @ i # (is @ [k]) @ zs) \<noteq> None"
    have "stopped s0 root (missing s0 root (xs @ (i # is) @ [k])) (nullptr, s)"
      using d unfolding descending_def stopped_def by (metis append_Cons fst_conv le_add1 snd_conv)
    then show ?case using c by simp
  next
    fix Q t
    assume c: "?call = (physical_to_virtual s0 Q, t)" "physical_to_virtual s0 Q \<noteq> nullptr"
      "descending s0 t root (xs @ [i]) Q (is @ [k]) flags"
    then show ?case using Cons.IH [OF c(3) _ c(2)] Cons.prems(2) by simp
  qed
qed

lemma missing_0:
  "leaf s P (is @ k # zs) \<noteq> None \<or> walk s P (is @ [k]) \<noteq> None \<Longrightarrow> missing s P (is @ [k]) = 0"
proof (induction "is" arbitrary: P)
  case (Cons j js)
  then show ?case by (auto simp: Let_def split: if_splits)
qed (simp add: Let_def)

lemma root_pointer:
  assumes "vm_wf s root"
  shows "physical_to_virtual s root \<noteq> nullptr"
  using table_ok_props(3) [OF vm_wfD(1) [OF assms]] vm_wfD(2) [OF assms path_ok_Nil] by simp

lemma descend_cases:
  assumes wf: "vm_wf s root" and full: "full_path (is @ k # zs)"
    and budget: "missing s root (is @ [k]) \<le> card (free_frames s)"
  shows "(\<exists>t. descend (intermediate_flags flags) (physical_to_virtual s root) is s = (nullptr, t) \<and>
        leaf s root (is @ k # zs) \<noteq> None \<and> fails_unchanged (False, t) s root) \<or>
    (\<exists>Q t. descend (intermediate_flags flags) (physical_to_virtual s root) is s = (physical_to_virtual s Q, t) \<and>
        physical_to_virtual s Q \<noteq> nullptr \<and> descending s t root is Q [k] flags)"
proof -
  obtain p t where r: "descend (intermediate_flags flags) (physical_to_virtual s root) is s = (p, t)" by fastforce
  have "descending s s root [] root (is @ [k]) flags" by (rule descending_start [OF wf budget])
  from descend_spec [OF this _ root_pointer [OF wf], of zs] full
  consider "leaf s root (is @ k # zs) \<noteq> None" "stopped s root (missing s root (is @ [k])) (p, t)"
    | "arrived s root is [k] flags (p, t)" by (auto simp: r)
  then show ?thesis
  proof cases
    case 1
    then have "stopped s root 0 (p, t)" using missing_0 by metis
    with 1(1) show ?thesis by (simp add: r stopped_def fails_unchanged_def)
  next
    case 2
    then show ?thesis by (auto simp: r arrived_def)
  qed
qed

section \<open>Writing a leaf\<close>

text \<open>
  Both mapping functions descend along \<open>xs\<close> and then fill entry \<open>k\<close> of the table they reach, unless
  it is in use.
\<close>

definition put_leaf :: "PageFlags \<Rightarrow> ptr \<Rightarrow> u16 list \<Rightarrow> u16 \<Rightarrow> u64 \<Rightarrow> machine \<Rightarrow> bool \<times> machine" where
  "put_leaf f table xs k e s =
     (case descend f table xs s of (t, s) \<Rightarrow>
        let c = entry_cell t k
        in if t = nullptr \<or> present (mem s c) then (False, s) else (True, store c e s))"

text \<open>A page, or a table of pages, is where the leaf for the path \<open>xs @ k # zs\<close> is to go.\<close>

definition slot_taken :: "machine \<Rightarrow> u64 \<Rightarrow> u16 list \<Rightarrow> u16 \<Rightarrow> u16 list \<Rightarrow> bool" where
  "slot_taken s root xs k zs \<longleftrightarrow> leaf s root (xs @ k # zs) \<noteq> None \<or> zs \<noteq> [] \<and> walk s root (xs @ [k]) \<noteq> None"

lemma slot_taken_iff:
  assumes "descending s t root xs P [k] flags" "full_path (xs @ k # zs)"
  shows "slot_taken s root xs k zs \<longleftrightarrow> present (table_entry t P k)"
proof -
  note D = descendingD [OF assms(1)]
  have "leaf s root (xs @ k # zs) = leaf t P (k # zs)"
    using leaf_append [OF D(2), of "k # zs"] D(6) assms(2) by (simp add: same_leaves_def)
  moreover have "walk s root (xs @ [k]) = walk t P [k]" if "zs \<noteq> []"
  proof -
    have "path_ok (xs @ [k])" using assms(2) that by (cases zs) (auto simp: full_path_def path_ok_def)
    then show ?thesis using D(7) [of "xs @ [k]"] D(2) by (simp add: walk_append)
  qed
  ultimately show ?thesis by (cases "zs = []") (auto simp: slot_taken_def Let_def)
qed

lemma slot_taken_missing: "slot_taken s root xs k zs \<Longrightarrow> missing s root (xs @ [k]) = 0"
  using missing_0 [of s root xs k zs] by (auto simp: slot_taken_def)

lemma put_leaf_fails:
  assumes wf: "vm_wf s root" and full: "full_path (xs @ k # zs)"
    and budget: "missing s root (xs @ [k]) \<le> card (free_frames s)" and taken: "slot_taken s root xs k zs"
  shows "fails_unchanged (put_leaf (intermediate_flags flags) (physical_to_virtual s root) xs k e s) s root"
  using descend_cases [OF wf full budget, of flags]
proof (elim disjE exE conjE)
  fix P t
  assume d: "descend (intermediate_flags flags) (physical_to_virtual s root) xs s = (physical_to_virtual s P, t)"
    "descending s t root xs P [k] flags"
  have "present (table_entry t P k)" using taken slot_taken_iff [OF d(2) full] by simp
  then have "put_leaf (intermediate_flags flags) (physical_to_virtual s root) xs k e s = (False, t)"
    by (simp add: put_leaf_def d(1) Let_def table_entry_def descendingD(5) [OF d(2)])
  then show ?thesis using descending_fails [OF d(2) slot_taken_missing [OF taken]] by simp
qed (simp add: put_leaf_def Let_def)

lemma put_leaf_succeeds:
  assumes wf: "vm_wf s root" and full: "full_path (xs @ k # zs)"
    and budget: "missing s root (xs @ [k]) \<le> card (free_frames s)" and open_slot: "\<not> slot_taken s root xs k zs"
    and e: "present e" "user_bit e \<longleftrightarrow> user_bit flags" "length xs = 3 \<or> huge e" "xs \<noteq> []"
  shows "\<exists>t. put_leaf (intermediate_flags flags) (physical_to_virtual s root) xs k e s = (True, t) \<and>
    extends s t root (missing s root (xs @ [k])) \<and>
    (\<forall>ys. full_path ys \<longrightarrow> leaf t root ys = (if prefix (xs @ [k]) ys then Some (3 - length xs, e) else leaf s root ys)) \<and>
    (\<forall>ws. path_ok ws \<longrightarrow> length xs < length ws \<longrightarrow> walk t root ws = walk s root ws)"
proof -
  obtain P t where d: "descend (intermediate_flags flags) (physical_to_virtual s root) xs s = (physical_to_virtual s P, t)"
    "physical_to_virtual s P \<noteq> nullptr" "descending s t root xs P [k] flags"
    using descend_cases [OF wf full budget, of flags] open_slot by (auto simp: slot_taken_def)
  note D = descendingD [OF d(3)]
  let ?u = "set_entry P k e t"
  have n: "\<not> present (table_entry t P k)" using open_slot slot_taken_iff [OF d(3) full] by simp
  have k: "k < 512" "user_bit e \<longrightarrow> user_link t root xs" using full e(2) D(4) by (simp_all add: full_path_def)
  have "put_leaf (intermediate_flags flags) (physical_to_virtual s root) xs k e s = (True, ?u)"
    using n d(2) by (simp add: put_leaf_def d(1) Let_def table_entry_def set_entry_def D(5))
  moreover note leaf = set_leaf [OF D(1,3,2) k(1) n e(1,3,4) k(2)]
  have "extends s t root (missing s root (xs @ [k]))" using d(3) by (auto simp: descending_def)
  from extends_trans [OF this leaf(1)] have "extends s ?u root (missing s root (xs @ [k]))" by simp
  moreover have "leaf ?u root ys = (if prefix (xs @ [k]) ys then Some (3 - length xs, e) else leaf s root ys)"
    if "full_path ys" for ys
    using leaf(2) [OF that] D(6) that by (simp add: same_leaves_def)
  moreover have "walk ?u root ws = walk s root ws" if "path_ok ws" "length xs < length ws" for ws
    using walk_leaf [OF D(1,3,2) k(1) n e(3) that(1)] D(7) [OF that] by simp
  ultimately show ?thesis by blast
qed

section \<open>\<open>map_page\<close>\<close>

lemma indices_split: "indices v = large_indices v @ [pt_index (decompose_address v)]"
  by (simp add: indices_eq large_indices_eq)

lemma map_page_outcome:
  assumes wf: "vm_wf s root" and args: "map_page_args virt phys flags"
    and budget: "missing s root (indices virt) \<le> card (free_frames s)"
  shows "if leaf s root (indices virt) = None
    then \<exists>t. map_page (physical_to_virtual s root) virt phys flags s = (True, t) \<and>
      extends s t root (missing s root (indices virt)) \<and>
      (\<forall>ys. full_path ys \<longrightarrow> leaf t root ys =
         (if ys = indices virt then Some (0, make_page_entry phys (flags_or flags PF_Present)) else leaf s root ys))
    else fails_unchanged (map_page (physical_to_virtual s root) virt phys flags s) s root"
proof -
  let ?xs = "large_indices virt" and ?k = "pt_index (decompose_address virt)"
  let ?e = "make_page_entry phys (flags_or flags PF_Present)"
  have call: "map_page (physical_to_virtual s root) virt phys flags s =
      put_leaf (intermediate_flags flags) (physical_to_virtual s root) ?xs ?k ?e s"
    using map_page_accepts [OF args root_pointer [OF wf]] by (simp add: put_leaf_def)
  have full: "full_path (?xs @ [?k])" using full_path_indices [of virt] by (simp only: indices_split)
  note b = budget [unfolded indices_split]
  have taken: "slot_taken s root ?xs ?k [] \<longleftrightarrow> leaf s root (indices virt) \<noteq> None" by (simp add: slot_taken_def indices_split)
  have e: "present ?e" "user_bit ?e \<longleftrightarrow> user_bit flags" "length ?xs = 3 \<or> huge ?e" "?xs \<noteq> []"
    using args by (simp_all add: map_page_args_def leaf_entry_bits flags_or_def bit_or_iff large_indices_eq)
  have last: "prefix (indices virt) ys \<longleftrightarrow> ys = indices virt" if "full_path ys" for ys
    using that by (auto simp: prefix_def full_path_def indices_eq)
  show ?thesis
  proof (cases "leaf s root (indices virt) = None")
    case True
    then show ?thesis
      using put_leaf_succeeds [OF wf full b _ e] taken last unfolding call indices_split [symmetric]
      by (auto simp: large_indices_eq)
  next
    case False
    then have "fails_unchanged (map_page (physical_to_virtual s root) virt phys flags s) s root"
      unfolding call using taken by (intro put_leaf_fails [OF wf full b]) blast
    then show ?thesis using False by (simp only: if_False)
  qed
qed

section \<open>\<open>map_page_large\<close>\<close>

definition map_large_args :: "u64 \<Rightarrow> u64 \<Rightarrow> bool" where
  "map_large_args virt phys \<longleftrightarrow> is_canonical virt \<and> take_bit 21 virt = 0 \<and> take_bit 21 phys = 0 \<and>
     phys AND NOT kPhysicalAddressMask = 0"

lemma large_mask: "v AND (kLargePageSize - 1) = take_bit 21 v"
  by (simp add: kLargePageSize_def and_0x1FFFFF)

lemma map_page_large_rejects:
  "pml4_table = nullptr \<or> \<not> map_large_args virt phys \<Longrightarrow>
     map_page_large pml4_table virt phys flags s = (False, s)"
  unfolding map_page_large_def map_large_args_def large_mask by auto

lemma map_page_large_accepts:
  assumes "map_large_args virt phys" "pml4_table \<noteq> nullptr"
  shows "map_page_large pml4_table virt phys flags s =
    (case descend (intermediate_flags flags) pml4_table (dir_indices virt) s of (pd, s) \<Rightarrow>
       let c = entry_cell pd (pd_index (decompose_address virt))
       in if pd = nullptr \<or> present (mem s c) then (False, s)
          else (True, store c (make_page_entry phys (flags_or (flags_or flags PF_Present) PF_Huge)) s))"
  using assms unfolding map_page_large_def map_large_args_def large_mask
  by (auto simp: dir_indices_eq Let_def split: prod.splits)

text \<open>No page table and no large page where the large page is to go.\<close>

definition large_slot_free :: "machine \<Rightarrow> u64 \<Rightarrow> u64 \<Rightarrow> bool" where
  "large_slot_free s root virt \<longleftrightarrow> leaf s root (indices virt) = None \<and> walk s root (large_indices virt) = None"

lemma map_page_large_outcome:
  assumes wf: "vm_wf s root" and args: "map_large_args virt phys"
    and budget: "missing s root (large_indices virt) \<le> card (free_frames s)"
  shows "if large_slot_free s root virt
    then \<exists>t. map_page_large (physical_to_virtual s root) virt phys flags s = (True, t) \<and>
      extends s t root (missing s root (large_indices virt)) \<and>
      (\<forall>ys. full_path ys \<longrightarrow> leaf t root ys =
         (if prefix (large_indices virt) ys
          then Some (1, make_page_entry phys (flags_or (flags_or flags PF_Present) PF_Huge)) else leaf s root ys)) \<and>
      (\<forall>zs. path_ok zs \<longrightarrow> length zs = 3 \<longrightarrow> walk t root zs = walk s root zs)
    else fails_unchanged (map_page_large (physical_to_virtual s root) virt phys flags s) s root"
proof -
  let ?xs = "dir_indices virt" and ?k = "pd_index (decompose_address virt)"
  let ?e = "make_page_entry phys (flags_or (flags_or flags PF_Present) PF_Huge)"
  have call: "map_page_large (physical_to_virtual s root) virt phys flags s =
      put_leaf (intermediate_flags flags) (physical_to_virtual s root) ?xs ?k ?e s"
    using map_page_large_accepts [OF args root_pointer [OF wf]] by (simp add: put_leaf_def)
  have li: "large_indices virt = ?xs @ [?k]" and ix: "indices virt = ?xs @ ?k # [pt_index (decompose_address virt)]"
    by (simp_all add: large_indices_eq dir_indices_eq indices_eq)
  have full: "full_path (?xs @ ?k # [pt_index (decompose_address virt)])" using full_path_indices [of virt] by (simp only: ix)
  note b = budget [unfolded li]
  have taken: "slot_taken s root ?xs ?k [pt_index (decompose_address virt)] \<longleftrightarrow> \<not> large_slot_free s root virt"
    by (auto simp: slot_taken_def large_slot_free_def ix li)
  have e: "present ?e" "user_bit ?e \<longleftrightarrow> user_bit flags" "length ?xs = 3 \<or> huge ?e" "?xs \<noteq> []" "length ?xs = 2"
    using args by (simp_all add: map_large_args_def leaf_entry_bits flags_or_def bit_or_iff dir_indices_eq)
  show ?thesis
  proof (cases "large_slot_free s root virt")
    case True
    then show ?thesis using put_leaf_succeeds [OF wf full b _ e(1-4)] taken e(5) by (auto simp: call li)
  next
    case False
    then show ?thesis using put_leaf_fails [OF wf full b, of flags ?e] taken by (simp add: call)
  qed
qed

section \<open>The address space as a partial function\<close>

text \<open>
  The abstract view of an address space: every mapped byte has a physical address and the flags of
  the leaf entry that maps it.
\<close>

definition leaf_target :: "u64 \<Rightarrow> nat \<times> u64 \<Rightarrow> u64 \<times> PageFlags" where
  "leaf_target v l = (page_entry_address (snd l) OR take_bit (12 + 9 * fst l) v, page_entry_flags (snd l))"

definition space_map :: "machine \<Rightarrow> u64 \<Rightarrow> u64 \<Rightarrow> (u64 \<times> PageFlags) option" where
  "space_map s root v =
     (if is_canonical v then map_option (leaf_target v) (leaf s root (indices v)) else None)"

lemma same_leaves_space_map: "same_leaves s t root \<Longrightarrow> space_map t root = space_map s root"
  by (rule ext) (simp add: space_map_def same_leaves_def)

lemma translate_leaf:
  assumes wf: "vm_wf s root" and sp: "pml4 space = physical_to_virtual s root"
  shows "translate space v s = (case space_map s root v of None \<Rightarrow> 0 | Some (p, _) \<Rightarrow> p)"
proof (cases "is_canonical v")
  case False
  then show ?thesis by (simp add: translate_def space_map_def)
next
  case True
  let ?e = "table_entry s root (pml4_index (decompose_address v))"
  have "\<not> huge ?e"
    using vm_wfD(3) [OF wf path_ok_Nil, of root "pml4_index (decompose_address v)"] by (auto simp: entry_ok_def)
  then show ?thesis
    using True root_pointer [OF wf]
    by (simp add: translate_def space_map_def sp indices_eq Let_def table_entry_ptv leaf_target_def mask_simps)
qed

lemma page_entry_target:
  assumes "phys AND NOT kPhysicalAddressMask = 0" "flags_only f"
  shows "page_entry_address (make_page_entry phys f) = phys" "page_entry_flags (make_page_entry phys f) = f"
proof -
  have "bit phys n \<Longrightarrow> 12 \<le> n \<and> n < 52" for n
    using arg_cong [OF assms(1), of "\<lambda>x. bit x n"] bit_imp_le_length [of phys n]
    by (auto simp: bit_simps bit_kPhysicalAddressMask)
  then have "phys AND kPhysicalAddressMask = phys"
    by (intro bit_word_eqI) (auto simp: bit_and_iff bit_kPhysicalAddressMask)
  then show "page_entry_address (make_page_entry phys f) = phys"
    using page_entry_address_make [OF assms(2)] by simp
  show "page_entry_flags (make_page_entry phys f) = f"
    using assms(2)
    by (intro bit_word_eqI)
      (auto simp: page_entry_flags_def bit_simps bit_make_page_entry bit_kPhysicalAddressMask flags_only_bit)
qed

text \<open>A page shares the upper bits of its addresses.\<close>

lemma is_canonical_same_page:
  assumes "drop_bit k v = drop_bit k w" "k \<le> 47" "is_canonical w"
  shows "is_canonical v"
proof -
  have "bit v n = bit w n" if "k \<le> n" for n
    using arg_cong [OF assms(1), of "\<lambda>x. bit x (n - k)"] that by (simp add: bit_drop_bit_eq)
  with assms(2,3) show ?thesis by (simp add: is_canonical_bits)
qed

lemma space_map_page:
  assumes "is_canonical virt" "phys AND NOT kPhysicalAddressMask = 0" "flags_only f"
    and t: "\<And>ys. full_path ys \<Longrightarrow> leaf t root ys =
      (if ys = indices virt then Some (0, make_page_entry phys f) else leaf s root ys)"
  shows "space_map t root v =
    (if drop_bit 12 v = drop_bit 12 virt then Some (phys OR take_bit 12 v, f) else space_map s root v)"
proof (cases "is_canonical v")
  case True
  then show ?thesis
    using indices_eq_iff [OF True assms(1)] t [of "indices v"]
    by (simp add: space_map_def leaf_target_def page_entry_target [OF assms(2,3)])
next
  case False
  then show ?thesis using is_canonical_same_page [of 12 v virt] assms(1) by (auto simp: space_map_def)
qed

lemma map_page_result:
  assumes wf: "vm_wf s root" and args: "map_page_args virt phys flags" "flags_only flags"
    and budget: "missing s root (indices virt) \<le> card (free_frames s)"
    and unmapped: "space_map s root virt = None"
  shows "\<exists>t. map_page (physical_to_virtual s root) virt phys flags s = (True, t) \<and>
    extends s t root (missing s root (indices virt)) \<and>
    space_map t root = (\<lambda>v. if drop_bit 12 v = drop_bit 12 virt
      then Some (phys OR take_bit 12 v, flags_or flags PF_Present) else space_map s root v)"
proof -
  have c: "is_canonical virt" "phys AND NOT kPhysicalAddressMask = 0" "flags_only (flags_or flags PF_Present)"
    using args by (simp_all add: map_page_args_def flags_or_def flags_only_or)
  have "leaf s root (indices virt) = None" using unmapped c(1) by (simp add: space_map_def)
  then obtain t where t: "map_page (physical_to_virtual s root) virt phys flags s = (True, t)"
    "extends s t root (missing s root (indices virt))"
    "\<And>ys. full_path ys \<Longrightarrow> leaf t root ys =
       (if ys = indices virt then Some (0, make_page_entry phys (flags_or flags PF_Present)) else leaf s root ys)"
    using map_page_outcome [OF wf args(1) budget] by auto
  with space_map_page [OF c t(3)] show ?thesis by (intro exI [of _ t]) (simp add: fun_eq_iff)
qed

text \<open>Two addresses share a 2 MiB page exactly when their first three indices agree.\<close>

lemma large_indices_eq_iff:
  assumes "is_canonical v" "is_canonical w"
  shows "large_indices v = large_indices w \<longleftrightarrow> drop_bit 21 v = drop_bit 21 w"
proof -
  have "\<exists>c :: u64 \<Rightarrow> u64. \<forall>x. \<forall>n. bit (c x) n \<longleftrightarrow> bit x n \<and> 21 \<le> n"
    by (rule exI [of _ "\<lambda>x. x AND NOT (mask 21)"]) (auto simp: bit_simps dest: bit_imp_le_length)
  then obtain c :: "u64 \<Rightarrow> u64" where b: "\<And>x n. bit (c x) n \<longleftrightarrow> bit x n \<and> 21 \<le> n" by auto
  have can: "is_canonical (c x)" if "is_canonical x" for x
    using that by (simp add: is_canonical_bits b)
  have f: "take_bit 9 (drop_bit k (c x)) = take_bit 9 (drop_bit k x)" if "21 \<le> k" for k x
    by (rule bit_word_eqI) (simp only: bit_take_bit_iff bit_drop_bit_eq comp_def b, use that in auto)
  have z: "take_bit 9 (drop_bit 12 (c x)) = 0" for x
    by (rule bit_word_eqI) (simp add: bit_simps b)
  have "drop_bit 12 (c v) = drop_bit 12 (c w) \<longleftrightarrow> large_indices v = large_indices w"
    using same_page_iff [OF can [OF assms(1)] can [OF assms(2)]]
    by (simp add: large_indices_eq decompose_fields f z)
  moreover have "drop_bit 12 (c v) = drop_bit 12 (c w) \<longleftrightarrow> drop_bit 21 v = drop_bit 21 w" (is "?l \<longleftrightarrow> ?r")
  proof
    assume l: ?l
    show ?r
      by (rule bit_word_eqI) (use arg_cong [OF l, of "\<lambda>x. bit x (9 + _)"] in \<open>simp add: bit_drop_bit_eq b\<close>)
  next
    assume r: ?r
    have "bit v n = bit w n" if "21 \<le> n" for n
      using arg_cong [OF r, of "\<lambda>x. bit x (n - 21)"] that by (simp add: bit_drop_bit_eq)
    then show ?l by (intro bit_word_eqI) (auto simp: bit_drop_bit_eq b)
  qed
  ultimately show ?thesis by simp
qed

lemma prefix_large_iff:
  "is_canonical v \<Longrightarrow> is_canonical w \<Longrightarrow> prefix (large_indices w) (indices v) \<longleftrightarrow> drop_bit 21 v = drop_bit 21 w"
  using large_indices_eq_iff [of v w] by (auto simp: large_indices_eq indices_eq)

lemma space_map_large_page:
  assumes "is_canonical virt" "phys AND NOT kPhysicalAddressMask = 0" "flags_only f"
    and t: "\<And>ys. full_path ys \<Longrightarrow> leaf t root ys =
      (if prefix (large_indices virt) ys then Some (1, make_page_entry phys f) else leaf s root ys)"
  shows "space_map t root v =
    (if drop_bit 21 v = drop_bit 21 virt then Some (phys OR take_bit 21 v, f) else space_map s root v)"
proof (cases "is_canonical v")
  case True
  then show ?thesis
    using prefix_large_iff [OF True assms(1)] t [of "indices v"]
    by (simp add: space_map_def leaf_target_def page_entry_target [OF assms(2,3)])
next
  case False
  then show ?thesis using is_canonical_same_page [of 21 v virt] assms(1) by (auto simp: space_map_def)
qed

lemma map_page_large_result:
  assumes wf: "vm_wf s root" and args: "map_large_args virt phys" "flags_only flags"
    and budget: "missing s root (large_indices virt) \<le> card (free_frames s)"
    and slot: "large_slot_free s root virt"
  shows "\<exists>t. map_page_large (physical_to_virtual s root) virt phys flags s = (True, t) \<and>
    extends s t root (missing s root (large_indices virt)) \<and>
    space_map t root = (\<lambda>v. if drop_bit 21 v = drop_bit 21 virt
      then Some (phys OR take_bit 21 v, flags_or (flags_or flags PF_Present) PF_Huge) else space_map s root v) \<and>
    (\<forall>v. is_canonical v \<longrightarrow> drop_bit 21 v \<noteq> drop_bit 21 virt \<longrightarrow>
      large_slot_free t root v = large_slot_free s root v)"
proof -
  let ?f = "flags_or (flags_or flags PF_Present) PF_Huge"
  have c: "is_canonical virt" "phys AND NOT kPhysicalAddressMask = 0" "flags_only ?f"
    using args by (simp_all add: map_large_args_def flags_or_def flags_only_or)
  obtain t where t: "map_page_large (physical_to_virtual s root) virt phys flags s = (True, t)"
    "extends s t root (missing s root (large_indices virt))"
    "\<And>ys. full_path ys \<Longrightarrow> leaf t root ys =
       (if prefix (large_indices virt) ys then Some (1, make_page_entry phys ?f) else leaf s root ys)"
    "\<And>zs. path_ok zs \<Longrightarrow> length zs = 3 \<Longrightarrow> walk t root zs = walk s root zs"
    using map_page_large_outcome [OF wf args(1) budget, of flags] slot by auto
  have "path_ok (large_indices v)" "length (large_indices v) = 3" for v
    by (simp_all add: large_indices_eq path_ok_def)
  then have "large_slot_free t root v = large_slot_free s root v"
    if "is_canonical v" "drop_bit 21 v \<noteq> drop_bit 21 virt" for v
    using that prefix_large_iff [OF that(1) c(1)] t(3,4) by (simp add: large_slot_free_def)
  with t space_map_large_page [OF c t(3)] show ?thesis by (intro exI [of _ t]) (auto simp: fun_eq_iff)
qed

section \<open>Access rights\<close>

text \<open>
  The processor's rule: an access is allowed when every level allows it. The result lists
  whether the page can be written, reached from user mode, and executed.
\<close>

fun rights :: "machine \<Rightarrow> u64 \<Rightarrow> u16 list \<Rightarrow> (bool \<times> bool \<times> bool) option" where
  "rights s P [] = None"
| "rights s P (i # is) =
     (let e = table_entry s P i
      in if \<not> present e then None
         else if is = [] \<or> huge e then Some (bit e 1, bit e 2, \<not> bit e 63)
         else map_option (\<lambda>(w, u, x). (w \<and> bit e 1, u \<and> bit e 2, x \<and> \<not> bit e 63))
                (rights s (page_entry_address e) is))"

definition leaf_rights :: "nat \<times> u64 \<Rightarrow> bool \<times> bool \<times> bool" where
  "leaf_rights l = (bit (snd l) 1, bit (snd l) 2, \<not> bit (snd l) 63)"

lemma link_entry:
  assumes "vm_wf s root" "full_path (zs @ i # j # js)" "walk s root zs = Some P"
    "present (table_entry s P i)" "\<not> huge (table_entry s P i)"
  shows "walk s root (zs @ [i]) = Some (page_entry_address (table_entry s P i))"
    "bit (table_entry s P i) 1" "\<not> bit (table_entry s P i) 63"
    "user_bit (table_entry s (page_entry_address (table_entry s P i)) j) \<Longrightarrow> user_bit (table_entry s P i)"
proof -
  have zs: "path_ok zs" "i < 512" "length zs < 3" "j < 512"
    using assms(2) by (auto simp: full_path_def path_ok_def)
  show "walk s root (zs @ [i]) = Some (page_entry_address (table_entry s P i))"
    using assms(3-5) by (auto simp: walk_snoc)
  show "bit (table_entry s P i) 1" "\<not> bit (table_entry s P i) 63"
    "user_bit (table_entry s (page_entry_address (table_entry s P i)) j) \<Longrightarrow> user_bit (table_entry s P i)"
    using vm_wfD(3) [OF assms(1) zs(1) assms(3) zs(2)] assms(4,5) zs(3,4) by (auto simp: entry_ok_def)
qed

lemma user_leaf_link:
  "vm_wf s root \<Longrightarrow> full_path (zs @ i # is) \<Longrightarrow> walk s root zs = Some P \<Longrightarrow>
     leaf s P (i # is) = Some (n, e) \<Longrightarrow> user_bit e \<Longrightarrow> user_bit (table_entry s P i)"
proof (induction "is" arbitrary: zs i P)
  case (Cons j js)
  let ?e = "table_entry s P i"
  show ?case
  proof (cases "huge ?e")
    case False
    have p: "present ?e" using Cons.prems(4) by (auto simp: Let_def split: if_splits)
    note l = link_entry [OF Cons.prems(1-3) p False]
    have "leaf s (page_entry_address ?e) (j # js) = Some (n, e)"
      using Cons.prems(4) False p by (simp add: Let_def)
    then show ?thesis
      using Cons.IH [of "zs @ [i]" j] Cons.prems(1,2,5) l(1,4) by auto
  qed (use Cons.prems in \<open>auto simp: Let_def split: if_splits\<close>)
qed (auto simp: Let_def split: if_splits)

lemma rights_leaf:
  "vm_wf s root \<Longrightarrow> full_path (zs @ ys) \<Longrightarrow> walk s root zs = Some P \<Longrightarrow>
     rights s P ys = map_option leaf_rights (leaf s P ys)"
proof (induction ys arbitrary: zs P)
  case (Cons i ys)
  let ?e = "table_entry s P i"
  show ?case
  proof (cases "present ?e \<and> \<not> huge ?e \<and> ys \<noteq> []")
    case True
    then obtain j js where ys: "ys = j # js" by (cases ys) auto
    note l = link_entry [OF Cons.prems(1) _ Cons.prems(3), of i j js]
    have full: "full_path (zs @ i # j # js)" using Cons.prems(2) ys by simp
    have IH: "rights s (page_entry_address ?e) ys = map_option leaf_rights (leaf s (page_entry_address ?e) ys)"
      using Cons.IH [of "zs @ [i]"] Cons.prems(1,2) l(1) [OF full] True by simp
    have "user_bit e \<Longrightarrow> user_bit ?e" if "leaf s (page_entry_address ?e) ys = Some (n, e)" for n e
      using user_leaf_link [OF Cons.prems(1,2,3), of n e] that True by (simp add: Let_def)
    with True IH l(2,3) [OF full] show ?thesis
      by (cases "leaf s (page_entry_address ?e) ys") (auto simp: Let_def leaf_rights_def)
  qed (auto simp: Let_def leaf_rights_def)
qed simp

section \<open>A new address space\<close>

lemma walk_empty:
  assumes "\<And>j. j < 512 \<Longrightarrow> table_entry s P j = 0" "\<forall>i\<in>set xs. i < 512"
  shows "walk s P xs = (if xs = [] then Some P else None)"
  using assms by (cases xs) (auto simp: Let_def)

lemma vm_wf_empty:
  assumes "pool_ok s" "table_ok s P" "\<And>j. j < 512 \<Longrightarrow> table_entry s P j = 0"
  shows "vm_wf s P" "space_map s P = (\<lambda>_. None)"
proof -
  have w: "walk s P xs = (if xs = [] then Some P else None)" if "path_ok xs" for xs
    using walk_empty [OF assms(3)] that by (simp add: path_ok_def)
  then show "vm_wf s P"
    using assms by (auto simp: vm_wf_def tree_inj_def entry_ok_def split: if_splits)
  show "space_map s P = (\<lambda>_. None)"
    using assms(3) by (auto simp: space_map_def fun_eq_iff indices_eq Let_def)
qed

lemma create_address_space_fresh:
  assumes "pool_ok s" "free_frames s \<noteq> {}"
  shows "create_address_space out s =
      (True, \<lparr>pml4 = physical_to_virtual s (fresh_table s), pml4_physical = fresh_table s\<rparr>, after_alloc s)"
    "vm_wf (after_alloc s) (fresh_table s)" "space_map (after_alloc s) (fresh_table s) = (\<lambda>_. None)"
  using allocate_table_fresh [OF assms] after_alloc_effect [OF assms] vm_wf_empty [of "after_alloc s" "fresh_table s"]
  by (simp_all add: create_address_space_def)

lemma map_page_occupied:
  assumes "vm_wf s root" "space_map s root virt \<noteq> None"
  shows "\<exists>t. map_page (physical_to_virtual s root) virt phys flags s = (False, t) \<and> vm_wf t root \<and>
    space_map t root = space_map s root \<and> free_frames t = free_frames s"
proof (cases "map_page_args virt phys flags")
  case False
  then show ?thesis using map_page_rejects assms(1) by simp
next
  case True
  have l: "leaf s root (indices virt) \<noteq> None" using assms(2) by (auto simp: space_map_def split: if_splits)
  then have "missing s root (indices virt) = 0" by (rule missing_leaf)
  then obtain t where t: "map_page (physical_to_virtual s root) virt phys flags s = (False, t)"
    "extends s t root 0" "same_leaves s t root"
    using map_page_outcome [OF assms(1) True] l by (auto simp: fails_unchanged_def)
  have "free_frames t = free_frames s"
    using t(2) by (intro card_subset_eq) (simp_all add: extends_def)
  with t show ?thesis using same_leaves_space_map [OF t(3)] by (auto simp: extends_def)
qed

section \<open>Where a mapping writes\<close>

definition writes_only_tables :: "machine \<Rightarrow> machine \<Rightarrow> u64 \<Rightarrow> bool" where
  "writes_only_tables s t root \<longleftrightarrow> vm_wf t root \<and> tree_tables t root \<subseteq> tree_tables s root \<union> free_tables s \<and>
     (\<forall>p. p \<notin> bitmap_cells s \<longrightarrow>
        (\<forall>P \<in> tree_tables s root \<union> free_tables s. p \<notin> table_cells (physical_to_virtual s P)) \<longrightarrow> mem t p = mem s p)"

lemma writes_only_refl: "vm_wf s root \<Longrightarrow> writes_only_tables s s root"
  by (simp add: writes_only_tables_def)

lemma extends_writes_only: "extends s t root n \<Longrightarrow> writes_only_tables s t root"
  by (auto simp: extends_def writes_only_tables_def tree_tables_def)

section \<open>A small machine\<close>

text \<open>Sixty-four frames, the first holding the bitmap, with the direct map at its usual place.\<close>

definition small_machine :: machine where
  "small_machine = \<lparr> mem = (\<lambda>_. 1), bitmap = 0xFFFF800000000000, bitmap_phys = 0, bitmap_words = 1,
     bitmap_bytes = 8, frame_count = 64, free_frame_count = 63, g_hhdm_offset = 0xFFFF800000000000,
     msrs = (\<lambda>_. 0), cr3 = 0, klog = [] \<rparr>"

lemma free_small: "free_frames small_machine = {f. f < 64} - {0}"
proof -
  have "bit (1 :: u64) (unat (f mod 64)) \<longleftrightarrow> f = 0" if "f < 64" for f :: u64
  proof -
    have "f mod 64 = f" using that by (intro unat_eqI) (simp add: unat_mod word_less_nat_alt)
    then show ?thesis by (simp add: bit_1_iff unat_eq_0)
  qed
  then show ?thesis
    by (auto simp: free_frames_def frame_valid_def frame_used_def small_machine_def bitmap_get_def kWordBits_def)
qed

lemma small_free_facts:
  "card (free_frames small_machine) = 63" "free_frames small_machine \<noteq> {}" "Min (free_frames small_machine) = 1"
proof -
  have "card ({f :: u64. f < 64} - {0}) = card {f :: u64. f < 64} - 1"
    by (rule card_Diff_singleton) simp
  then show c: "card (free_frames small_machine) = 63" by (simp add: free_small card_below)
  then show "free_frames small_machine \<noteq> {}" by auto
  show "Min (free_frames small_machine) = 1"
    unfolding free_small by (rule Min_eqI) (auto simp: word_le_nat_alt unat_gt_0 Suc_le_eq)
qed

lemma pool_small: "pool_ok small_machine"
proof -
  have ptv: "physical_to_virtual small_machine a = 0xFFFF800000000000 + a" for a
    by (simp add: physical_to_virtual_def small_machine_def)
  have cells: "bitmap_cells small_machine \<subseteq> table_cells (physical_to_virtual small_machine 0)"
  proof
    fix p
    assume "p \<in> bitmap_cells small_machine"
    then obtain i where i: "p = 0xFFFF800000000000 + 8 * i" "i < 1"
      by (auto simp: bitmap_cells_def small_machine_def)
    then have "i < 512" by (simp add: word_less_nat_alt)
    with i(1) show "p \<in> table_cells (physical_to_virtual small_machine 0)"
      unfolding table_cells_def ptv by auto
  qed
  have "table_cells (physical_to_virtual small_machine (f * kPageSize)) \<inter>
      table_cells (physical_to_virtual small_machine 0) = {}" if "f \<in> free_frames small_machine" for f
  proof -
    have u: "unat (f * kPageSize) = unat f * 4096"
      using that by (subst unat_mult_nowrap) (simp_all add: free_small kPageSize_def word_less_nat_alt)
    then have "f * kPageSize \<noteq> 0" using that by (auto simp: free_small unat_eq_0)
    with u show ?thesis by (intro table_cells_disjoint) (simp_all add: page_aligned_iff)
  qed
  then show ?thesis
    using cells small_free_facts(1) unfolding pool_ok_def pmm_wf_def
    by (auto simp: small_machine_def bitmap_shape_def kWordBits_def)
qed

text \<open>Its state once an address space has been created.\<close>

definition small_space :: machine where
  "small_space = after_alloc small_machine"

lemma small_space:
  "vm_wf small_space 0x1000" "space_map small_space 0x1000 = (\<lambda>_. None)"
  "card (free_frames small_space) = 62" "table_entry small_space 0x1000 j = 0 \<or> \<not> j < 512"
proof -
  have f: "fresh_frame small_machine = 1" "fresh_table small_machine = 0x1000"
    by (simp_all add: fresh_table_def fresh_frame_def small_free_facts(3) kPageSize_def)
  note ne = small_free_facts(2)
  show "vm_wf small_space 0x1000" "space_map small_space 0x1000 = (\<lambda>_. None)"
    using create_address_space_fresh(2,3) [OF pool_small ne] by (simp_all add: small_space_def f)
  show "card (free_frames small_space) = 62"
    unfolding small_space_def after_alloc_effect(1) [OF pool_small ne] f
    by (subst card_Diff_singleton) (simp_all add: small_free_facts(1), simp add: free_small)
  show "table_entry small_space 0x1000 j = 0 \<or> \<not> j < 512"
    using after_alloc_effect(4) [OF pool_small ne, of j] by (auto simp: small_space_def f)
qed

lemma missing_indices_le: "missing s root (indices v) \<le> 3" "missing s root (large_indices v) \<le> 2"
  using missing_le [of s root "indices v"] missing_le [of s root "large_indices v"]
  by (simp_all add: indices_eq large_indices_eq)

lemma empty_slot_free: "(\<And>j. j < 512 \<Longrightarrow> table_entry s P j = 0) \<Longrightarrow> large_slot_free s P v"
  by (simp add: large_slot_free_def large_indices_eq indices_eq Let_def)

lemma small_slot_free_at: "large_slot_free small_space 0x1000 v"
  using small_space(4) by (intro empty_slot_free) auto

text \<open>After one mapping.\<close>

lemma small_mapped_map:
  obtains t where "map_page (physical_to_virtual small_space 0x1000) 0x400000 0x5000 PF_Writable small_space = (True, t)"
    "vm_wf t 0x1000" "59 \<le> card (free_frames t)"
    "space_map t 0x1000 = (\<lambda>v. if drop_bit 12 v = drop_bit 12 0x400000
      then Some (0x5000 OR take_bit 12 v, flags_or PF_Writable PF_Present) else None)"
    "extends small_space t 0x1000 (missing small_space 0x1000 (indices 0x400000))"
proof -
  have a: "map_page_args 0x400000 0x5000 PF_Writable"
    by (simp add: map_page_args_def is_canonical_def page_aligned_def kPhysicalAddressMask_def)
  note le = missing_indices_le(1) [of small_space "0x1000" "0x400000"]
  obtain t where t: "map_page (physical_to_virtual small_space 0x1000) 0x400000 0x5000 PF_Writable small_space = (True, t)"
    "extends small_space t 0x1000 (missing small_space 0x1000 (indices 0x400000))"
    and m: "space_map t 0x1000 = (\<lambda>v. if drop_bit 12 v = drop_bit 12 0x400000
      then Some (0x5000 OR take_bit 12 v, flags_or PF_Writable PF_Present) else space_map small_space 0x1000 v)"
    using map_page_result [OF small_space(1) a] small_space le by auto
  from t(2) have x: "vm_wf t 0x1000" "card (free_frames t) + missing small_space 0x1000 (indices 0x400000) = 62"
    using small_space(3) by (simp_all add: extends_def)
  then have "59 \<le> card (free_frames t)" using le by linarith
  then show thesis using that [OF t(1) x(1) _ _ t(2)] m unfolding small_space(2) by blast
qed

lemma small_mapped:
  obtains t where "map_page (physical_to_virtual small_space 0x1000) 0x400000 0x5000 PF_Writable small_space = (True, t)"
    "vm_wf t 0x1000" "extends small_space t 0x1000 (missing small_space 0x1000 (indices 0x400000))"
    "space_map t 0x1000 0x400123 = Some (0x5123, flags_or PF_Writable PF_Present)"
    "space_map t 0x1000 0x400000 = Some (0x5000, flags_or PF_Writable PF_Present)"
  by (rule small_mapped_map) (simp add: that)

section \<open>Properties\<close>

text \<open>
  C9: \<open>map_page\<close> on valid arguments, an unmapped page and enough free frames for the missing
  tables succeeds and changes the address space by exactly that page: every byte of it translates
  to the physical page with the requested flags plus Present, and every other address translates
  as before. It takes exactly one frame per missing table and keeps the invariant.
\<close>

theorem map_page_maps_one_page:
  assumes "vm_wf s root" "map_page_args virt phys flags" "flags_only flags"
    "missing s root (indices virt) \<le> card (free_frames s)" "space_map s root virt = None"
  shows "\<exists>t. map_page (physical_to_virtual s root) virt phys flags s = (True, t) \<and> vm_wf t root \<and>
    space_map t root = (\<lambda>v. if drop_bit 12 v = drop_bit 12 virt
      then Some (phys OR take_bit 12 v, flags_or flags PF_Present) else space_map s root v) \<and>
    card (free_frames t) + missing s root (indices virt) = card (free_frames s)"
  using map_page_result [OF assms] by (auto simp: extends_def)

theorem map_page_maps_one_page_witness:
  "\<exists>t. map_page (physical_to_virtual small_space 0x1000) 0x400000 0x5000 PF_Writable small_space = (True, t) \<and>
     space_map t 0x1000 0x400123 = Some (0x5123, flags_or PF_Writable PF_Present)"
proof -
  have "map_page_args 0x400000 0x5000 PF_Writable"
    by (simp add: map_page_args_def is_canonical_def page_aligned_def kPhysicalAddressMask_def)
  then obtain t where "map_page (physical_to_virtual small_space 0x1000) 0x400000 0x5000 PF_Writable small_space = (True, t)"
    "space_map t 0x1000 = (\<lambda>v. if drop_bit 12 v = drop_bit 12 0x400000
      then Some (0x5000 OR take_bit 12 v, flags_or PF_Writable PF_Present) else space_map small_space 0x1000 v)"
    using map_page_maps_one_page [of small_space "0x1000" "0x400000" "0x5000" PF_Writable] small_space
      missing_indices_le(1) [of small_space "0x1000" "0x400000"] by auto
  then show ?thesis by simp
qed

text \<open>
  C20: \<open>map_page\<close> never replaces a mapping: if the address is already mapped, by a page of any
  size, the call fails, takes no frame, and every address translates as before.
\<close>

theorem map_page_refuses_remap:
  assumes "vm_wf s root" "space_map s root virt \<noteq> None"
  shows "\<exists>t. map_page (physical_to_virtual s root) virt phys flags s = (False, t) \<and> vm_wf t root \<and>
    space_map t root = space_map s root \<and> free_frames t = free_frames s"
  by (rule map_page_occupied [OF assms])

theorem map_page_refuses_remap_witness:
  "\<exists>s. vm_wf s 0x1000 \<and> space_map s 0x1000 0x400000 \<noteq> None \<and>
     fst (map_page (physical_to_virtual s 0x1000) 0x400000 0x6000 PF_None s) = False"
proof -
  obtain t where "vm_wf t 0x1000" "space_map t 0x1000 0x400000 \<noteq> None"
    using small_mapped by (metis option.distinct(1))
  with map_page_refuses_remap [OF this, of "0x6000" PF_None] show ?thesis by auto
qed

text \<open>
  C25: \<open>map_page\<close> rejects a null table, a non-canonical or misaligned virtual address, a physical
  address outside bits 12 to 51 and the page-size flag, and \<open>map_page_large\<close> a null table, a
  non-canonical virtual address, an address that is not 2 MiB aligned and a physical address out
  of range; a rejected call leaves the whole machine state unchanged.
\<close>

theorem map_page_rejects_bad_arguments:
  "(pml4_table = nullptr \<or> \<not> is_canonical virt \<or> unat virt mod 4096 \<noteq> 0 \<or>
      phys AND NOT kPhysicalAddressMask \<noteq> 0 \<or> flags AND PF_Huge \<noteq> 0 \<longrightarrow>
      map_page pml4_table virt phys flags s = (False, s)) \<and>
   (pml4_table = nullptr \<or> \<not> is_canonical virt \<or> unat virt mod 0x200000 \<noteq> 0 \<or>
      unat phys mod 0x200000 \<noteq> 0 \<or> phys AND NOT kPhysicalAddressMask \<noteq> 0 \<longrightarrow>
      map_page_large pml4_table virt phys flags s = (False, s))"
proof -
  have m: "unat x mod 0x200000 = unat (take_bit 21 x)" for x :: u64 by (simp add: unat_take_bit)
  show ?thesis
    using map_page_rejects [of pml4_table virt phys flags s] map_page_large_rejects [of pml4_table virt phys flags s]
    by (auto simp: map_page_args_def map_large_args_def page_aligned_iff m unat_eq_0)
qed

theorem map_page_rejects_bad_arguments_witness:
  "map_page 0x1000 0x123 0x5000 PF_None small_machine = (False, small_machine) \<and>
   map_page_large 0x1000 0x1000 0 PF_None small_machine = (False, small_machine)"
  using map_page_rejects_bad_arguments [of "0x1000" "0x123" "0x5000" PF_None small_machine]
    map_page_rejects_bad_arguments [of "0x1000" "0x1000" "0" PF_None small_machine] by simp

text \<open>
  \<open>map_page_large\<close> on valid arguments, where neither a large page nor a page table occupies
  the slot and enough frames are free, succeeds and maps exactly the 2 MiB around the address,
  with the page-size bit set; every other address translates as before.
\<close>

theorem map_page_large_maps_one_page:
  assumes "vm_wf s root" "map_large_args virt phys" "flags_only flags"
    "missing s root (large_indices virt) \<le> card (free_frames s)" "large_slot_free s root virt"
  shows "\<exists>t. map_page_large (physical_to_virtual s root) virt phys flags s = (True, t) \<and> vm_wf t root \<and>
    space_map t root = (\<lambda>v. if drop_bit 21 v = drop_bit 21 virt
      then Some (phys OR take_bit 21 v, flags_or (flags_or flags PF_Present) PF_Huge) else space_map s root v) \<and>
    card (free_frames t) + missing s root (large_indices virt) = card (free_frames s)"
  using map_page_large_result [OF assms] by (auto simp: extends_def)

text \<open>
  C22: \<open>translate\<close> implements the abstract address space: it returns the physical address of a
  mapped address (4 KiB, 2 MiB or 1 GiB page) and 0 for an unmapped or non-canonical one.
\<close>

theorem translate_refines:
  "vm_wf s root \<Longrightarrow> pml4 space = physical_to_virtual s root \<Longrightarrow>
     translate space v s = (case space_map s root v of None \<Rightarrow> 0 | Some (p, _) \<Rightarrow> p)"
  by (rule translate_leaf)

theorem translate_refines_witness:
  "\<exists>t. vm_wf t 0x1000 \<and>
     translate \<lparr>pml4 = physical_to_virtual t 0x1000, pml4_physical = 0x1000\<rparr> 0x400123 t = 0x5123"
proof -
  obtain t where t: "vm_wf t 0x1000" "space_map t 0x1000 0x400123 = Some (0x5123, flags_or PF_Writable PF_Present)"
    using small_mapped by blast
  with translate_refines [OF t(1), of "\<lparr>pml4 = physical_to_virtual t 0x1000, pml4_physical = 0x1000\<rparr>" "0x400123"]
  show ?thesis by auto
qed

text \<open>
  C21: \<open>map_page\<close> and \<open>map_page_large\<close>, called with as many free frames as the path to the page lacks
  tables, write nothing but page tables and the frame bitmap, whatever they return: a memory cell
  outside the bitmap, outside the tables of the address space and outside the free frames keeps its
  value, and the tables after the call are tables from before or frames that were free. (With fewer
  free frames \<open>map_page\<close> writes to frame 0.)
\<close>

theorem map_page_writes_only_tables:
  assumes "vm_wf s root"
  shows "(missing s root (indices virt) \<le> card (free_frames s) \<longrightarrow>
       writes_only_tables s (snd (map_page (physical_to_virtual s root) virt phys flags s)) root) \<and>
    (missing s root (large_indices virt) \<le> card (free_frames s) \<longrightarrow>
       writes_only_tables s (snd (map_page_large (physical_to_virtual s root) virt phys flags s)) root)"
proof (intro conjI impI)
  assume b: "missing s root (indices virt) \<le> card (free_frames s)"
  show "writes_only_tables s (snd (map_page (physical_to_virtual s root) virt phys flags s)) root"
  proof (cases "map_page_args virt phys flags")
    case True
    then show ?thesis using map_page_outcome [OF assms True b]
      by (auto simp: fails_unchanged_def intro: extends_writes_only split: if_splits)
  qed (simp add: map_page_rejects writes_only_refl assms)
next
  assume b: "missing s root (large_indices virt) \<le> card (free_frames s)"
  show "writes_only_tables s (snd (map_page_large (physical_to_virtual s root) virt phys flags s)) root"
  proof (cases "map_large_args virt phys")
    case True
    then show ?thesis using map_page_large_outcome [OF assms True b, of flags]
      by (auto simp: fails_unchanged_def intro: extends_writes_only split: if_splits)
  qed (simp add: map_page_large_rejects writes_only_refl assms)
qed

theorem map_page_writes_only_tables_witness:
  "\<exists>t. map_page (physical_to_virtual small_space 0x1000) 0x400000 0x5000 PF_Writable small_space = (True, t) \<and>
     writes_only_tables small_space t 0x1000"
proof -
  obtain t where t: "map_page (physical_to_virtual small_space 0x1000) 0x400000 0x5000 PF_Writable small_space = (True, t)"
    using small_mapped by blast
  have "missing small_space 0x1000 (indices 0x400000) \<le> card (free_frames small_space)"
    using missing_indices_le(1) [of small_space "0x1000" "0x400000"] small_space(3) by simp
  with map_page_writes_only_tables [OF small_space(1), of "0x400000" "0x5000" PF_Writable] t show ?thesis by auto
qed

text \<open>
  C23: the processor grants a newly mapped page exactly the rights asked for. The rights are
  computed by intersecting all levels of the walk, so they depend on the tables that \<open>map_page\<close> creates
  or passes through: after a successful call the page can be written, reached from user mode and
  executed exactly if its flags say so, and the rights of every other address are what they were. (The
  call has valid arguments, an unmapped page and enough free frames for the missing tables.)
\<close>

theorem map_page_rights:
  assumes "vm_wf s root" "map_page_args virt phys flags" "missing s root (indices virt) \<le> card (free_frames s)"
    "space_map s root virt = None"
  shows "\<exists>t. map_page (physical_to_virtual s root) virt phys flags s = (True, t) \<and>
    (\<forall>v. is_canonical v \<longrightarrow> rights t root (indices v) =
       (if drop_bit 12 v = drop_bit 12 virt then Some (bit flags 1, bit flags 2, \<not> bit flags 63)
        else rights s root (indices v)))"
proof -
  have c: "is_canonical virt" "phys AND NOT kPhysicalAddressMask = 0" using assms(2) by (simp_all add: map_page_args_def)
  have "leaf s root (indices virt) = None" using assms(4) c(1) by (simp add: space_map_def)
  then obtain t where t: "map_page (physical_to_virtual s root) virt phys flags s = (True, t)" "vm_wf t root"
    "\<And>ys. full_path ys \<Longrightarrow> leaf t root ys =
       (if ys = indices virt then Some (0, make_page_entry phys (flags_or flags PF_Present)) else leaf s root ys)"
    using map_page_outcome [OF assms(1-3)] by (auto simp: extends_def)
  have r: "rights u root (indices v) = map_option leaf_rights (leaf u root (indices v))" if "vm_wf u root" for u v
    using rights_leaf [OF that, of "[]" "indices v" root] by simp
  have "leaf_rights (0, make_page_entry phys (flags_or flags PF_Present)) = (bit flags 1, bit flags 2, \<not> bit flags 63)"
    using c(2) by (simp add: leaf_rights_def leaf_entry_bits flags_or_def bit_or_iff PF_Present_def)
  then have "rights t root (indices v) = (if drop_bit 12 v = drop_bit 12 virt then Some (bit flags 1, bit flags 2, \<not> bit flags 63)
      else rights s root (indices v))" if "is_canonical v" for v
    using t(2,3) assms(1) indices_eq_iff [OF that c(1)] by (simp add: r)
  with t(1) show ?thesis by blast
qed

theorem map_page_rights_witness:
  "\<exists>t. map_page (physical_to_virtual small_space 0x1000) 0x400000 0x5000 PF_User small_space = (True, t) \<and>
     rights t 0x1000 (indices 0x400123) = Some (False, True, True) \<and> rights t 0x1000 (indices 0x401000) = None"
proof -
  have a: "map_page_args 0x400000 0x5000 PF_User"
    by (simp add: map_page_args_def is_canonical_def page_aligned_def kPhysicalAddressMask_def PF_User_def)
  have n: "rights small_space 0x1000 (indices v) = None" for v
    using small_space(4) [of "pml4_index (decompose_address v)"] full_path_indices [of v]
    by (auto simp: indices_eq Let_def full_path_def path_ok_def)
  obtain t where t: "map_page (physical_to_virtual small_space 0x1000) 0x400000 0x5000 PF_User small_space = (True, t)"
    and r: "\<And>v. is_canonical v \<Longrightarrow> rights t 0x1000 (indices v) = (if drop_bit 12 v = drop_bit 12 0x400000
      then Some (bit PF_User 1, bit PF_User 2, \<not> bit PF_User 63) else None)"
    using map_page_rights [OF small_space(1) a] small_space(2,3) missing_indices_le(1) [of small_space "0x1000" "0x400000"]
    by (auto simp: n)
  have "is_canonical 0x400123" "is_canonical 0x401000" by (simp_all add: is_canonical_def)
  with t r show ?thesis by (auto simp: PF_User_def)
qed

text \<open>
  With a free frame, \<open>create_address_space\<close> succeeds and gives an address space that satisfies
  the invariant and maps nothing; the pointer and the physical address it returns name the same frame.
\<close>

theorem create_address_space_empty:
  assumes "pool_ok s" "free_frames s \<noteq> {}"
  shows "\<exists>space t. create_address_space out s = (True, space, t) \<and> vm_wf t (pml4_physical space) \<and>
    pml4 space = physical_to_virtual t (pml4_physical space) \<and>
    pml4_physical space = Min (free_frames s) * kPageSize \<and>
    space_map t (pml4_physical space) = (\<lambda>_. None)"
  using create_address_space_fresh [OF assms] by (simp add: fresh_table_def fresh_frame_def)

end
