(* ===== verification/Vmm_Range.thy ===== *)
theory Vmm_Range
  imports Vmm_Map
begin

text \<open>
  The range mappers \<open>map_range\<close> and \<open>map_range_large\<close> of \<open>src/src/mm/vmm.cpp\<close>. Both are a loop that
  maps one page after the other; the locale \<open>page_range\<close> states what such a loop relies on (its own
  unfolding and the effect of one step) and proves termination and the effect of the whole range
  once. It is interpreted on the 4 KiB and on the 2 MiB loop.
\<close>

section \<open>Arithmetic of ranges\<close>

text \<open>\<open>w - v < n\<close> on words says that \<open>w\<close> lies in the \<open>n\<close> bytes from \<open>v\<close>.\<close>

lemma aligned_room:
  assumes "take_bit k (v :: u64) = 0" "k < 64"
  shows "unat v + 2 ^ k \<le> 2 ^ 64"
proof -
  have "unat v mod 2 ^ k = 0" using assms(1) by (metis unat_take_bit unat_0)
  then obtain a where a: "unat v = 2 ^ k * a" by (auto simp: mod_eq_0_iff_dvd elim: dvdE)
  have e: "(2 :: nat) ^ 64 = 2 ^ k * 2 ^ (64 - k)" using assms(2) by (simp flip: power_add)
  have "2 ^ k * a < 2 ^ k * 2 ^ (64 - k)" using u64_bound [of v] a e by simp
  then have "a < 2 ^ (64 - k)" by (simp only: mult_less_cancel1)
  then have "2 ^ k * Suc a \<le> 2 ^ k * 2 ^ (64 - k)" by (intro mult_le_mono) simp_all
  then show ?thesis by (simp only: a e) (simp add: algebra_simps)
qed

lemma same_block_iff:
  assumes "take_bit k (v :: u64) = 0" "k < 64"
  shows "drop_bit k w = drop_bit k v \<longleftrightarrow> w - v < 2 ^ k"
proof -
  have "unat v mod 2 ^ k = 0" using assms(1) by (metis unat_take_bit unat_0)
  then have a: "unat v = unat v div 2 ^ k * 2 ^ k" by (metis add.right_neutral div_mult_mod_eq)
  have room: "unat v + 2 ^ k \<le> 2 ^ 64" by (rule aligned_room [OF assms])
  have "drop_bit k w = drop_bit k v \<longleftrightarrow> unat w div 2 ^ k = unat v div 2 ^ k"
    by (metis unat_drop_bit unat_eqI)
  also have "\<dots> \<longleftrightarrow> unat v \<le> unat w \<and> unat w < unat v + 2 ^ k"
  proof
    assume h: "unat w div 2 ^ k = unat v div 2 ^ k"
    have "unat w = unat v + unat w mod 2 ^ k"
      using div_mult_mod_eq [of "unat w" "2 ^ k"] h a by simp
    moreover have "unat w mod 2 ^ k < 2 ^ k" by simp
    ultimately show "unat v \<le> unat w \<and> unat w < unat v + 2 ^ k" by linarith
  next
    assume h: "unat v \<le> unat w \<and> unat w < unat v + 2 ^ k"
    show "unat w div 2 ^ k = unat v div 2 ^ k"
      by (rule div_nat_eqI) (use h a in \<open>simp_all add: algebra_simps\<close>)
  qed
  also have "\<dots> \<longleftrightarrow> unat (w - v) < 2 ^ k"
    using room unsigned_less [of w] by (auto simp: unat_sub_if')
  also have "\<dots> \<longleftrightarrow> w - v < 2 ^ k" using assms(2) by (simp add: word_less_nat_alt unat_exp)
  finally show ?thesis .
qed

lemma block_target:
  assumes "take_bit k (v :: u64) = 0" "take_bit k p = 0" "drop_bit k w = drop_bit k v"
  shows "p OR take_bit k w = p + (w - v)"
proof -
  have "w = push_bit k (drop_bit k v) + take_bit k w"
    using assms(3) by (metis bits_ident)
  moreover have "v = push_bit k (drop_bit k v)" using assms(1) bits_ident [of k v] by simp
  ultimately have "w - v = take_bit k w" by (metis add_diff_cancel_left')
  moreover have "p AND take_bit k w = 0"
  proof (rule bit_word_eqI)
    fix n
    have "\<not> bit p n" if "n < k"
      using arg_cong [OF assms(2), of "\<lambda>x. bit x n"] that by (simp add: bit_take_bit_iff)
    then show "bit (p AND take_bit k w) n = bit (0 :: u64) n" by (auto simp: bit_and_iff bit_take_bit_iff)
  qed
  ultimately show ?thesis by (metis disjunctive_add_eq_or)
qed

lemma range_step:
  assumes "(b :: u64) \<le> r"
  shows "x < r \<longleftrightarrow> x < b \<or> x - b < r - b"
  using assms unsigned_less [of r] unsigned_less [of x] by (auto simp: word_less_nat_alt word_le_nat_alt unat_sub_if')

section \<open>Mapping only adds\<close>

lemma large_slot_free_leaves:
  assumes "large_slot_free s root virt" "prefix (large_indices virt) ys" "full_path ys"
  shows "leaf s root ys = None"
proof (rule ccontr)
  assume "leaf s root ys \<noteq> None"
  then obtain zs k rest Q where l: "ys = zs @ k # rest" "walk s root zs = Some Q" "present (table_entry s Q k)"
    "rest = [] \<or> huge (table_entry s Q k)"
    using leaf_iff by (metis option.exhaust prod.exhaust)
  obtain j where j: "ys = large_indices virt @ [j]"
    using assms(2,3) by (auto simp: prefix_def full_path_def large_indices_eq length_Suc_conv)
  have len: "length (large_indices virt) = 3" by (simp add: large_indices_eq)
  show False
  proof (cases "rest = []")
    case True
    then show False using l(1,2) j assms(1) by (simp add: large_slot_free_def)
  next
    case False
    then obtain rest' where "large_indices virt = zs @ k # rest'"
      using l(1) j by (metis append_butlast_last_id append_Cons append_assoc butlast.simps(2) butlast_append butlast_snoc list.distinct(1))
    then have "indices virt = zs @ k # (rest' @ [pt_index (decompose_address virt)])" by (simp add: indices_split)
    then have "leaf s root (indices virt) \<noteq> None"
      using l(2-4) False leaf_iff [of s root "indices virt"] by blast
    then show False using assms(1) by (simp add: large_slot_free_def)
  qed
qed

lemma leaves_grow:
  "(\<And>ys l. full_path ys \<Longrightarrow> leaf s root ys = Some l \<Longrightarrow> leaf t root ys = Some l) \<Longrightarrow> space_map s root \<subseteq>\<^sub>m space_map t root"
  by (auto simp: map_le_def space_map_def split: if_splits)

lemma leaves_growI:
  assumes "extends s t root n" "n \<le> c" "\<And>ys. full_path ys \<Longrightarrow> leaf s root ys = None \<or> leaf t root ys = leaf s root ys"
  shows "\<exists>n\<le>c. extends s t root n \<and> space_map s root \<subseteq>\<^sub>m space_map t root"
proof -
  have "space_map s root \<subseteq>\<^sub>m space_map t root" by (rule leaves_grow) (use assms(3) in force)
  then show ?thesis using assms(1,2) by blast
qed

lemma fails_unchanged_grows:
  "fails_unchanged (ok, t) s root \<Longrightarrow> \<exists>n\<le>c. extends s t root n \<and> space_map s root \<subseteq>\<^sub>m space_map t root"
  by (rule leaves_growI [where n = 0]) (auto simp: fails_unchanged_def same_leaves_def)

lemma map_page_grows:
  assumes "vm_wf s root" "missing s root (indices virt) \<le> card (free_frames s)" "map_page (physical_to_virtual s root) virt phys flags s = (ok, t)"
  shows "\<exists>n\<le>3. extends s t root n \<and> space_map s root \<subseteq>\<^sub>m space_map t root"
proof (cases "map_page_args virt phys flags")
  case False
  then have "t = s" using map_page_rejects [of "physical_to_virtual s root" virt phys flags s] assms(3) by simp
  then show ?thesis using extends_refl [OF assms(1)] by (intro exI [of _ 0]) simp
next
  case True
  note le = missing_indices_le(1) [of s root virt]
  note out = map_page_outcome [OF assms(1) True assms(2), unfolded assms(3)]
  show ?thesis
  proof (cases "leaf s root (indices virt) = None")
    case True
    with out have "extends s t root (missing s root (indices virt))"
      "\<And>ys. full_path ys \<Longrightarrow> leaf s root ys = None \<or> leaf t root ys = leaf s root ys" by auto
    then show ?thesis using le by (intro leaves_growI)
  next
    case False
    then have "fails_unchanged (ok, t) s root" using out by (simp only: if_False)
    then show ?thesis by (rule fails_unchanged_grows)
  qed
qed

lemma map_page_large_grows:
  assumes "vm_wf s root" "missing s root (large_indices virt) \<le> card (free_frames s)" "map_page_large (physical_to_virtual s root) virt phys flags s = (ok, t)"
  shows "\<exists>n\<le>2. extends s t root n \<and> space_map s root \<subseteq>\<^sub>m space_map t root"
proof (cases "map_large_args virt phys")
  case False
  then have "t = s" using map_page_large_rejects [of "physical_to_virtual s root" virt phys flags s] assms(3) by simp
  then show ?thesis using extends_refl [OF assms(1)] by (intro exI [of _ 0]) simp
next
  case True
  note le = missing_indices_le(2) [of s root virt]
  note out = map_page_large_outcome [OF assms(1) True assms(2), of flags, unfolded assms(3)]
  show ?thesis
  proof (cases "large_slot_free s root virt")
    case True
    with out have t: "extends s t root (missing s root (large_indices virt))"
      "\<And>ys. full_path ys \<Longrightarrow> prefix (large_indices virt) ys \<or> leaf t root ys = leaf s root ys" by auto
    then show ?thesis using large_slot_free_leaves [OF True] le by (intro leaves_growI) blast+
  next
    case False
    then have "fails_unchanged (ok, t) s root" using out by (simp only: if_False)
    then show ?thesis by (rule fails_unchanged_grows)
  qed
qed

section \<open>A loop over pages\<close>

text \<open>
  \<open>mapper\<close> maps one page of \<open>2 ^ k\<close> bytes, \<open>loop\<close> is the loop over it, \<open>args\<close> the arguments the
  mapper accepts, \<open>slot_free\<close> says that nothing is in the way, \<open>cost\<close> bounds the tables one call
  allocates, and \<open>lf\<close> gives the leaf flags.
\<close>

locale page_range =
  fixes mapper :: "ptr \<Rightarrow> u64 \<Rightarrow> u64 \<Rightarrow> PageFlags \<Rightarrow> machine \<Rightarrow> bool \<times> machine"
    and loop :: "AddressSpace \<Rightarrow> u64 \<Rightarrow> u64 \<Rightarrow> u64 \<Rightarrow> PageFlags \<Rightarrow> u64 \<Rightarrow> machine \<Rightarrow> (bool \<times> machine) option"
    and args :: "u64 \<Rightarrow> u64 \<Rightarrow> PageFlags \<Rightarrow> bool"
    and slot_free :: "machine \<Rightarrow> u64 \<Rightarrow> u64 \<Rightarrow> bool"
    and lf :: "PageFlags \<Rightarrow> PageFlags"
    and k :: nat and cost :: nat
  assumes k_less: "k < 64"
    and loop_unfold: "loop space virt phys size_bytes flags off s =
      (if off < size_bytes then
         case mapper (pml4 space) (virt + off) (phys + off) flags s of (ok, s) \<Rightarrow>
           if \<not> ok then Some (False, s) else loop space virt phys size_bytes flags (off + 2 ^ k) s
       else Some (True, s))"
    and args_aligned: "args v p f \<Longrightarrow> take_bit k v = 0 \<and> take_bit k p = 0 \<and> is_canonical v"
    and step: "vm_wf s root \<Longrightarrow> args v p f \<Longrightarrow> cost \<le> card (free_frames s) \<Longrightarrow> slot_free s root v \<Longrightarrow>
      \<exists>t n. mapper (physical_to_virtual s root) v p f s = (True, t) \<and> n \<le> cost \<and> extends s t root n \<and>
        space_map t root = (\<lambda>w. if drop_bit k w = drop_bit k v then Some (p OR take_bit k w, lf f)
          else space_map s root w) \<and>
        (\<forall>w. is_canonical w \<longrightarrow> drop_bit k w \<noteq> drop_bit k v \<longrightarrow> slot_free t root w = slot_free s root w)"
    and blocked: "vm_wf s root \<Longrightarrow> args v p f \<Longrightarrow> cost \<le> card (free_frames s) \<Longrightarrow> \<not> slot_free s root v \<Longrightarrow>
      fails_unchanged (mapper (physical_to_virtual s root) v p f s) s root"
    and grows: "vm_wf s root \<Longrightarrow> cost \<le> card (free_frames s) \<Longrightarrow>
      mapper (physical_to_virtual s root) v p f s = (ok, t) \<Longrightarrow>
      \<exists>n\<le>cost. extends s t root n \<and> space_map s root \<subseteq>\<^sub>m space_map t root"
begin

lemma unat_block: "unat (2 ^ k :: u64) = 2 ^ k"
  using k_less by (simp add: unat_exp)

lemma block_pos: "(2 ^ k :: u64) \<noteq> 0"
  using unat_block by (metis unat_0 power_not_zero zero_neq_numeral)

text \<open>The loop always ends, whatever the mapper answers.\<close>

lemma loop_returns:
  "unat size_bytes = unat off + n * 2 ^ k \<Longrightarrow> loop space virt phys size_bytes flags off s \<noteq> None"
proof (induction n arbitrary: off s)
  case 0
  then show ?case by (simp add: loop_unfold [of _ _ _ _ _ off] word_less_nat_alt)
next
  case (Suc n)
  have u: "unat (off + 2 ^ k) = unat off + 2 ^ k"
    using Suc.prems u64_bound [of size_bytes] by (subst unat_add_nowrap) (simp_all add: unat_block)
  obtain ok t where m: "mapper (pml4 space) (virt + off) (phys + off) flags s = (ok, t)" by fastforce
  have "unat size_bytes = unat (off + 2 ^ k) + n * 2 ^ k" using Suc.prems u by simp
  from Suc.IH [OF this] show ?case
    by (auto simp: loop_unfold [of _ _ _ _ _ off] m)
qed

text \<open>Whatever the loop answers, it only adds mappings.\<close>

lemma loop_grows:
  assumes "vm_wf s root" "pml4 space = physical_to_virtual s root"
    "unat size_bytes = unat off + n * 2 ^ k" "n * cost \<le> card (free_frames s)"
    "loop space virt phys size_bytes flags off s = Some (ok, u)"
  shows "\<exists>m. extends s u root m \<and> space_map s root \<subseteq>\<^sub>m space_map u root"
  using assms
proof (induction n arbitrary: off s)
  case 0
  then show ?case using extends_refl by (auto simp: loop_unfold [of _ _ _ _ _ off] word_less_nat_alt)
next
  case (Suc n)
  have o: "unat (off + 2 ^ k) = unat off + 2 ^ k"
    using Suc.prems(3) u64_bound [of size_bytes] by (subst unat_add_nowrap) (simp_all add: unat_block)
  obtain ok' t where m: "mapper (physical_to_virtual s root) (virt + off) (phys + off) flags s = (ok', t)" by fastforce
  have c: "cost \<le> card (free_frames s)" using Suc.prems(4) by simp
  obtain n1 where n1: "n1 \<le> cost" "extends s t root n1" "space_map s root \<subseteq>\<^sub>m space_map t root"
    using grows [OF Suc.prems(1) c m] by blast
  have t: "vm_wf t root" "pml4 space = physical_to_virtual t root" "n * cost \<le> card (free_frames t)"
    using n1(1,2) Suc.prems(2,4) by (auto simp: extends_def physical_to_virtual_def)
  have lt: "off < size_bytes" using Suc.prems(3) by (simp add: word_less_nat_alt)
  show ?case
  proof (cases ok')
    case False
    then show ?thesis using Suc.prems(2,5) lt m n1 by (auto simp: loop_unfold [of _ _ _ _ _ off])
  next
    case True
    have sz: "unat size_bytes = unat (off + 2 ^ k) + n * 2 ^ k" using Suc.prems(3) o by simp
    have "loop space virt phys size_bytes flags (off + 2 ^ k) t = Some (ok, u)"
      using Suc.prems(2,5) lt m True by (simp add: loop_unfold [of _ _ _ _ _ off])
    then obtain m' where "extends t u root m'" "space_map t root \<subseteq>\<^sub>m space_map u root"
      using Suc.IH [OF t(1,2) sz t(3)] by blast
    then show ?thesis using extends_trans [OF n1(2)] map_le_trans [OF n1(3)] by blast
  qed
qed

text \<open>
  The first rounds: as long as the pages are free, they are mapped one after the other, and nothing
  else changes.
\<close>

lemma of_nat_block:
  assumes "unat (size_bytes :: u64) = n * 2 ^ k" "j \<le> n"
  shows "unat (of_nat j * 2 ^ k :: u64) = j * 2 ^ k"
proof -
  have "j * 2 ^ k \<le> n * 2 ^ k" using assms(2) by (rule mult_le_mono1)
  then have "j * 2 ^ k < 2 ^ 64" using assms(1) u64_bound [of size_bytes] by linarith
  moreover have "(of_nat j * 2 ^ k :: u64) = of_nat (j * 2 ^ k)" by simp
  ultimately show ?thesis by (simp only: unsigned_of_nat) (simp add: take_bit_nat_eq_self)
qed

lemma loop_prefix:
  assumes "vm_wf s root" "pml4 space = physical_to_virtual s root"
    "unat size_bytes = n * 2 ^ k" "j \<le> n" "j * cost \<le> card (free_frames s)"
    "\<And>i. i < j \<Longrightarrow> args (virt + of_nat i * 2 ^ k) (phys + of_nat i * 2 ^ k) flags \<and>
       slot_free s root (virt + of_nat i * 2 ^ k)"
  shows "\<exists>t m. loop space virt phys size_bytes flags 0 s = loop space virt phys size_bytes flags (of_nat j * 2 ^ k) t \<and>
    m \<le> j * cost \<and> extends s t root m \<and>
    space_map t root = (\<lambda>w. if w - virt < of_nat j * 2 ^ k then Some (phys + (w - virt), lf flags) else space_map s root w) \<and>
    (\<forall>w. is_canonical w \<longrightarrow> \<not> w - virt < of_nat j * 2 ^ k \<longrightarrow> slot_free t root w = slot_free s root w)"
  using assms(4-6)
proof (induction j)
  case 0
  then show ?case using extends_refl [OF assms(1)] by (intro exI [of _ s] exI [of _ 0]) simp
next
  case (Suc j)
  let ?o = "of_nat j * 2 ^ k :: u64"
  let ?v = "virt + ?o" and ?p = "phys + ?o"
  obtain t m where t: "loop space virt phys size_bytes flags 0 s = loop space virt phys size_bytes flags ?o t"
    "m \<le> j * cost" "extends s t root m"
    and mt: "space_map t root = (\<lambda>w. if w - virt < ?o then Some (phys + (w - virt), lf flags) else space_map s root w)"
    and st: "\<And>w. is_canonical w \<Longrightarrow> \<not> w - virt < ?o \<Longrightarrow> slot_free t root w = slot_free s root w"
    using Suc by auto
  have args: "args ?v ?p flags" "slot_free s root ?v" using Suc.prems(3) [of j] by simp_all
  note al = args_aligned [OF args(1)]
  have wt: "vm_wf t root" "physical_to_virtual t root = physical_to_virtual s root" "cost \<le> card (free_frames t)"
    using t(2,3) Suc.prems(2) by (auto simp: extends_def physical_to_virtual_def)
  have "slot_free t root ?v" using st [of ?v] args(2) al by simp
  then obtain u n1 where u: "mapper (physical_to_virtual s root) ?v ?p flags t = (True, u)" "n1 \<le> cost" "extends t u root n1"
    and mu: "space_map u root = (\<lambda>w. if drop_bit k w = drop_bit k ?v then Some (?p OR take_bit k w, lf flags)
      else space_map t root w)"
    and su: "\<And>w. is_canonical w \<Longrightarrow> drop_bit k w \<noteq> drop_bit k ?v \<Longrightarrow> slot_free u root w = slot_free t root w"
    using step [OF wt(1) args(1) wt(3)] wt(2) by auto
  have o: "unat ?o = j * 2 ^ k" "unat (of_nat (Suc j) * 2 ^ k :: u64) = Suc j * 2 ^ k"
    using of_nat_block [OF assms(3)] Suc.prems(1) Suc_leD by blast+
  have "j * 2 ^ k < n * 2 ^ k" using Suc.prems(1) by simp
  then have lt: "?o < size_bytes" using assms(3) by (simp only: word_less_nat_alt o(1))
  have le: "?o \<le> of_nat (Suc j) * 2 ^ k" unfolding word_le_nat_alt o by simp
  have nx: "?o + 2 ^ k = of_nat (Suc j) * 2 ^ k" by (simp add: algebra_simps)
  then have "of_nat (Suc j) * 2 ^ k - ?o = 2 ^ k" by (metis add_diff_cancel_left')
  then have in_range: "w - virt < of_nat (Suc j) * 2 ^ k \<longleftrightarrow> w - virt < ?o \<or> drop_bit k w = drop_bit k ?v" for w
    using range_step [OF le, of "w - virt"] same_block_iff [of k ?v w] al k_less by (simp only: diff_diff_add)
  have "space_map u root w = (if w - virt < of_nat (Suc j) * 2 ^ k then Some (phys + (w - virt), lf flags) else space_map s root w)" for w
    using in_range [of w] block_target [of k ?v ?p w] al unfolding mu mt by auto
  moreover have "slot_free u root w = slot_free s root w" if "is_canonical w" "\<not> w - virt < of_nat (Suc j) * 2 ^ k" for w
    using su st in_range that by blast
  moreover have "loop space virt phys size_bytes flags ?o t = loop space virt phys size_bytes flags (of_nat (Suc j) * 2 ^ k) u"
    using lt u(1) assms(2) unfolding loop_unfold [of _ _ _ _ _ ?o] nx by simp
  ultimately show ?case
    using t(1,2) u(2) extends_trans [OF t(3) u(3)] by (intro exI [of _ u] exI [of _ "m + n1"]) auto
qed

text \<open>With room for every page the loop maps the whole range and nothing else.\<close>

lemma loop_maps:
  assumes "vm_wf s root" "pml4 space = physical_to_virtual s root"
    "unat size_bytes = n * 2 ^ k" "n * cost \<le> card (free_frames s)"
    "\<And>i. i < n \<Longrightarrow> args (virt + of_nat i * 2 ^ k) (phys + of_nat i * 2 ^ k) flags \<and>
       slot_free s root (virt + of_nat i * 2 ^ k)"
  shows "\<exists>t m. loop space virt phys size_bytes flags 0 s = Some (True, t) \<and> m \<le> n * cost \<and> extends s t root m \<and>
    space_map t root = (\<lambda>w. if w - virt < size_bytes then Some (phys + (w - virt), lf flags) else space_map s root w)"
proof -
  have "of_nat n * 2 ^ k = size_bytes" by (rule unat_eqI) (simp only: of_nat_block [OF assms(3) order_refl] assms(3))
  then show ?thesis
    using loop_prefix [OF assms(1-3) order_refl assms(4,5)] by (auto simp: loop_unfold [of _ _ _ _ _ size_bytes])
qed

text \<open>A page that is taken ends the loop; the pages before it stay mapped.\<close>

lemma loop_blocked:
  assumes "vm_wf s root" "pml4 space = physical_to_virtual s root"
    "unat size_bytes = n * 2 ^ k" "j < n" "Suc j * cost \<le> card (free_frames s)"
    "\<And>i. i \<le> j \<Longrightarrow> args (virt + of_nat i * 2 ^ k) (phys + of_nat i * 2 ^ k) flags \<and>
       (slot_free s root (virt + of_nat i * 2 ^ k) \<longleftrightarrow> i < j)"
  shows "\<exists>t m. loop space virt phys size_bytes flags 0 s = Some (False, t) \<and> m \<le> j * cost \<and> extends s t root m \<and>
    space_map t root = (\<lambda>w. if w - virt < of_nat j * 2 ^ k then Some (phys + (w - virt), lf flags) else space_map s root w)"
proof -
  let ?o = "of_nat j * 2 ^ k :: u64"
  have c: "j * cost \<le> card (free_frames s)" "j \<le> n" using assms(4,5) by simp_all
  obtain t m where t: "loop space virt phys size_bytes flags 0 s = loop space virt phys size_bytes flags ?o t"
    "m \<le> j * cost" "extends s t root m"
    and mt: "space_map t root = (\<lambda>w. if w - virt < ?o then Some (phys + (w - virt), lf flags) else space_map s root w)"
    and st: "\<And>w. is_canonical w \<Longrightarrow> \<not> w - virt < ?o \<Longrightarrow> slot_free t root w = slot_free s root w"
    using loop_prefix [OF assms(1-3) c(2,1), of virt phys flags] assms(6) by auto
  have args: "args (virt + ?o) (phys + ?o) flags" "\<not> slot_free s root (virt + ?o)" using assms(6) [of j] by simp_all
  have wt: "vm_wf t root" "physical_to_virtual t root = physical_to_virtual s root" "cost \<le> card (free_frames t)"
    using t(2,3) assms(5) by (auto simp: extends_def physical_to_virtual_def)
  have "\<not> slot_free t root (virt + ?o)" using st [of "virt + ?o"] args args_aligned by simp
  from blocked [OF wt(1) args(1) wt(3) this] obtain u
    where u: "mapper (physical_to_virtual s root) (virt + ?o) (phys + ?o) flags t = (False, u)" "extends t u root 0"
      "space_map u root = space_map t root"
    unfolding fails_unchanged_def wt(2) using same_leaves_space_map by blast
  have "j * 2 ^ k < n * 2 ^ k" using assms(4) by simp
  then have lt: "?o < size_bytes"
    using of_nat_block [OF assms(3) c(2)] assms(3) by (simp only: word_less_nat_alt)
  have "loop space virt phys size_bytes flags ?o t = Some (False, u)"
    using lt u(1) assms(2) unfolding loop_unfold [of _ _ _ _ _ ?o] by simp
  then show ?thesis
    using t(1,2) mt u(3) extends_trans [OF t(3) u(2)] by (intro exI [of _ u] exI [of _ m]) auto
qed

end

section \<open>The two range mappers\<close>

interpretation small: page_range map_page map_range_loop "\<lambda>v p f. map_page_args v p f \<and> flags_only f"
  "\<lambda>s root v. space_map s root v = None" "\<lambda>f. flags_or f PF_Present" 12 3
proof (unfold_locales, goal_cases)
  case 1
  show ?case by simp
next
  case (2 space virt phys size_bytes flags off s)
  have "kPageSize = 2 ^ 12" by (simp add: kPageSize_def)
  then show ?case using map_range_loop.simps [of space virt phys size_bytes flags off s] by (simp only:)
next
  case (3 v p f)
  then show ?case using phys_mask_aligned [of p] by (simp add: map_page_args_def page_aligned_def)
next
  case (4 s root v p f)
  then show ?case
    using map_page_result [of s root v p f] missing_indices_le(1) [of s root v] by auto
next
  case (5 s root v p f)
  then show ?case
    using map_page_outcome [of s root v p f] missing_indices_le(1) [of s root v]
    by (auto simp: space_map_def map_page_args_def split: if_splits option.splits)
next
  case (6 s root v p f ok t)
  then show ?case using missing_indices_le(1) [of s root v] by (intro map_page_grows) simp_all
qed

interpretation large: page_range map_page_large map_range_large_loop "\<lambda>v p f. map_large_args v p \<and> flags_only f"
  large_slot_free "\<lambda>f. flags_or (flags_or f PF_Present) PF_Huge" 21 2
proof (unfold_locales, goal_cases)
  case 1
  show ?case by simp
next
  case (2 space virt phys size_bytes flags off s)
  have "kLargePageSize = 2 ^ 21" by (simp add: kLargePageSize_def)
  then show ?case using map_range_large_loop.simps [of space virt phys size_bytes flags off s] by (simp only:)
next
  case (3 v p f)
  then show ?case by (simp add: map_large_args_def)
next
  case (4 s root v p f)
  then show ?case
    using map_page_large_result [of s root v p f] missing_indices_le(2) [of s root v] by auto
next
  case (5 s root v p f)
  then show ?case
    using map_page_large_outcome [of s root v p f] missing_indices_le(2) [of s root v] by simp
next
  case (6 s root v p f ok t)
  then show ?case using missing_indices_le(2) [of s root v] by (intro map_page_large_grows) simp_all
qed

text \<open>A range that lies in one half of the canonical address space and in the physical address space.\<close>

definition range_ok :: "nat \<Rightarrow> u64 \<Rightarrow> u64 \<Rightarrow> u64 \<Rightarrow> bool" where
  "range_ok k virt phys size_bytes \<longleftrightarrow> size_bytes \<noteq> 0 \<and>
     take_bit k virt = 0 \<and> take_bit k phys = 0 \<and> take_bit k size_bytes = 0 \<and>
     unat virt + unat size_bytes < 2 ^ 64 \<and> unat phys + unat size_bytes \<le> 2 ^ 52 \<and>
     (unat virt + unat size_bytes \<le> 2 ^ 47 \<or> 2 ^ 64 - 2 ^ 47 \<le> unat virt)"

lemma halves_iff: "(if q mod 2 = 0 then q div 2 = 0 else q div 2 = 65535) \<longleftrightarrow> q = 0 \<or> q = (131071 :: nat)"
proof (cases "q mod 2 = 0")
  case True
  then show ?thesis using mult_div_mod_eq [of 2 q] by auto
next
  case False
  then have "odd q" by (simp add: even_iff_mod_2_eq_zero)
  then obtain m where "q = 2 * m + 1" by (auto elim: oddE)
  then show ?thesis by auto
qed

lemma is_canonical_unat: "is_canonical a \<longleftrightarrow> unat a < 2 ^ 47 \<or> 2 ^ 64 - 2 ^ 47 \<le> unat a"
proof -
  let ?q = "unat a div 2 ^ 47"
  have eq: "x = y \<longleftrightarrow> unat x = unat y" for x y :: u64 by (metis unat_eqI)
  have s: "drop_bit 47 a AND 1 = 0 \<longleftrightarrow> ?q mod 2 = 0"
    unfolding and_0x1 eq [of _ 0] unat_take_bit unat_drop_bit by simp
  have "unat a div 2 ^ 48 = ?q div 2" by (simp add: div_mult2_eq [symmetric])
  then have u: "drop_bit 48 a = 0 \<longleftrightarrow> ?q div 2 = 0" "drop_bit 48 a = 0xFFFF \<longleftrightarrow> ?q div 2 = 0xFFFF"
    unfolding eq [of "drop_bit 48 a"] unat_drop_bit by simp_all
  have "is_canonical a \<longleftrightarrow> ?q = 0 \<or> ?q = 131071"
    unfolding is_canonical_def Let_def s u using halves_iff [of ?q] by simp
  also have "\<dots> \<longleftrightarrow> unat a < 2 ^ 47 \<or> 2 ^ 64 - 2 ^ 47 \<le> unat a"
    using u64_bound [of a] by auto
  finally show ?thesis .
qed

text \<open>The pages of such a range.\<close>

lemma range_page:
  assumes "range_ok k virt phys size_bytes" "k < 64" "unat size_bytes = n * 2 ^ k" "i < n"
  shows "unat (virt + of_nat i * 2 ^ k) = unat virt + i * 2 ^ k"
    "unat (phys + of_nat i * 2 ^ k) = unat phys + i * 2 ^ k"
    "take_bit k (virt + of_nat i * 2 ^ k) = 0" "take_bit k (phys + of_nat i * 2 ^ k) = 0"
    "is_canonical (virt + of_nat i * 2 ^ k)" "i * 2 ^ k + 2 ^ k \<le> unat size_bytes"
    "unat (phys + of_nat i * 2 ^ k) < 2 ^ 52"
proof -
  have "Suc i * 2 ^ k \<le> n * 2 ^ k" using assms(4) by (intro mult_le_mono) simp_all
  then show fit: "i * 2 ^ k + 2 ^ k \<le> unat size_bytes" by (simp add: assms(3))
  have i: "i * 2 ^ k < 2 ^ 64" using fit u64_bound [of size_bytes] by linarith
  have "(of_nat i * 2 ^ k :: u64) = of_nat (i * 2 ^ k)" by simp
  then have o: "unat (of_nat i * 2 ^ k :: u64) = i * 2 ^ k"
    using i by (simp only: unsigned_of_nat) (simp add: take_bit_nat_eq_self)
  have p: "(0 :: nat) < 2 ^ k" by simp
  have r: "unat virt + unat size_bytes < 2 ^ 64" "unat phys + unat size_bytes \<le> 2 ^ 52"
    "unat virt + unat size_bytes \<le> 2 ^ 47 \<or> 2 ^ 64 - 2 ^ 47 \<le> unat virt"
    "take_bit k virt = 0" "take_bit k phys = 0"
    using assms(1) unfolding range_ok_def by blast+
  show v: "unat (virt + of_nat i * 2 ^ k) = unat virt + i * 2 ^ k"
    using r(1) fit p by (subst unat_add_nowrap) (simp_all add: o)
  show f: "unat (phys + of_nat i * 2 ^ k) = unat phys + i * 2 ^ k"
    using r(2) fit p by (subst unat_add_nowrap) (simp_all add: o)
  then show "unat (phys + of_nat i * 2 ^ k) < 2 ^ 52" using r(2) fit p by linarith
  have tb: "take_bit k x = 0 \<longleftrightarrow> unat x mod 2 ^ k = 0" for x :: u64
    by (metis unat_take_bit unat_eq_0)
  show "take_bit k (virt + of_nat i * 2 ^ k) = 0" "take_bit k (phys + of_nat i * 2 ^ k) = 0"
    using r(4,5) unfolding tb v f by (simp_all add: mod_add_left_eq)
  show "is_canonical (virt + of_nat i * 2 ^ k)"
    unfolding is_canonical_unat v using r(3) fit p by linarith
qed

lemma phys_below_52:
  assumes "unat (p :: u64) < 2 ^ 52" "take_bit 12 p = 0"
  shows "p AND NOT kPhysicalAddressMask = 0"
proof (rule bit_word_eqI)
  fix n
  have "take_bit 52 p = p" by (rule take_bit_less_self [OF assms(1)])
  then have "bit p n \<Longrightarrow> n < 52" by (metis bit_take_bit_iff)
  moreover have "\<not> bit p n" if "n < 12"
    using arg_cong [OF assms(2), of "\<lambda>x. bit x n"] that by (simp add: bit_take_bit_iff)
  ultimately show "bit (p AND NOT kPhysicalAddressMask) n = bit (0 :: u64) n"
    by (cases "n < 12") (auto simp: bit_and_iff bit_not_iff bit_kPhysicalAddressMask)
qed

lemma take_bit_21_12: "take_bit 21 (x :: u64) = 0 \<Longrightarrow> take_bit 12 x = 0"
  using take_bit_take_bit [of 12 21 x] by simp

lemma range_count:
  assumes "range_ok k virt phys size_bytes" "k < 64"
  obtains n where "unat size_bytes = n * 2 ^ k" "n = unat size_bytes div 2 ^ k"
proof -
  have "unat size_bytes mod 2 ^ k = 0"
    using assms(1) unfolding range_ok_def by (metis unat_take_bit unat_0)
  then show thesis using that [of "unat size_bytes div 2 ^ k"] by (metis add.right_neutral div_mult_mod_eq)
qed

text \<open>The checks in front of the loops.\<close>

lemma range_guards:
  assumes "range_ok k virt phys size_bytes"
  shows "\<not> virt > UINT64_MAX - size_bytes" "\<not> phys > UINT64_MAX - size_bytes"
    "is_canonical virt" "is_canonical (virt + size_bytes - 1)" "size_bytes \<noteq> 0"
    "take_bit k virt = 0" "take_bit k phys = 0" "take_bit k size_bytes = 0"
proof -
  have r: "size_bytes \<noteq> 0" "unat virt + unat size_bytes < 2 ^ 64" "unat phys + unat size_bytes \<le> 2 ^ 52"
    "unat virt + unat size_bytes \<le> 2 ^ 47 \<or> 2 ^ 64 - 2 ^ 47 \<le> unat virt"
    using assms unfolding range_ok_def by blast+
  show "size_bytes \<noteq> 0" by (rule r(1))
  then have pos: "0 < unat size_bytes" by (metis neq0_conv unat_eq_0)
  have "unat (UINT64_MAX - size_bytes) = 2 ^ 64 - 1 - unat size_bytes"
    using u64_bound [of size_bytes] by (simp add: unat_sub_if')
  then show "\<not> virt > UINT64_MAX - size_bytes" "\<not> phys > UINT64_MAX - size_bytes"
    using r(2,3) by (simp_all add: word_less_nat_alt)
  have "unat (virt + size_bytes) = unat virt + unat size_bytes" using r(2) by (intro unat_add_nowrap) simp
  then have "unat (virt + size_bytes - 1) = unat virt + unat size_bytes - 1"
    using pos by (simp add: unat_sub_if')
  then show "is_canonical (virt + size_bytes - 1)" "is_canonical virt"
    using r(4) pos unfolding is_canonical_unat by linarith+
  show "take_bit k virt = 0" "take_bit k phys = 0" "take_bit k size_bytes = 0"
    using assms unfolding range_ok_def by blast+
qed

lemma small_mask: "v AND (kPageSize - 1) = take_bit 12 v"
  by (simp add: kPageSize_def and_0xFFF)

lemma range_page_args:
  assumes "range_ok 12 virt phys size_bytes" "unat size_bytes = n * 2 ^ 12" "i < n" "\<not> huge flags"
  shows "map_page_args (virt + of_nat i * 2 ^ 12) (phys + of_nat i * 2 ^ 12) flags"
    "virt + of_nat i * 2 ^ 12 - virt < size_bytes"
proof -
  have k: "(12 :: nat) < 64" by simp
  note pg = range_page [OF assms(1) k assms(2,3)]
  have "(phys + of_nat i * 2 ^ 12) AND NOT kPhysicalAddressMask = 0" using pg(7,4) by (rule phys_below_52)
  then show "map_page_args (virt + of_nat i * 2 ^ 12) (phys + of_nat i * 2 ^ 12) flags"
    using pg(3,5) assms(4) by (simp add: map_page_args_def page_aligned_def)
  have "unat (virt + of_nat i * 2 ^ 12 - virt) < unat size_bytes"
    using pg(6) unfolding unat_sub_if' pg(1) by simp
  then show "virt + of_nat i * 2 ^ 12 - virt < size_bytes" by (simp only: word_less_nat_alt)
qed

lemma map_range_enters:
  assumes "vm_wf s root" "pml4 space = physical_to_virtual s root" "range_ok 12 virt phys size_bytes"
  shows "map_range space virt phys size_bytes flags s = map_range_loop space virt phys size_bytes flags 0 s"
  using range_guards [OF assms(3)] root_pointer [OF assms(1)] by (simp add: map_range_def small_mask assms(2))

lemma map_range_result:
  assumes wf: "vm_wf s root" and sp: "pml4 space = physical_to_virtual s root"
    and r: "range_ok 12 virt phys size_bytes" and f: "flags_only flags" "\<not> huge flags"
    and budget: "unat size_bytes div 4096 * 3 \<le> card (free_frames s)"
    and unmapped: "\<And>w. w - virt < size_bytes \<Longrightarrow> space_map s root w = None"
  shows "\<exists>t m. map_range space virt phys size_bytes flags s = Some (True, t) \<and>
    m \<le> unat size_bytes div 4096 * 3 \<and> extends s t root m \<and>
    space_map t root = (\<lambda>w. if w - virt < size_bytes then Some (phys + (w - virt), flags_or flags PF_Present)
      else space_map s root w)"
proof -
  have k: "(12 :: nat) < 64" by simp
  obtain n where n: "unat size_bytes = n * 2 ^ 12" "n = unat size_bytes div 2 ^ 12" by (rule range_count [OF r k])
  have pages: "(map_page_args (virt + of_nat i * 2 ^ 12) (phys + of_nat i * 2 ^ 12) flags \<and> flags_only flags) \<and>
      space_map s root (virt + of_nat i * 2 ^ 12) = None" if i: "i < n" for i
    using range_page_args [OF r n(1) i f(2)] f(1) unmapped by blast
  have "n * 3 \<le> card (free_frames s)" using n budget by simp
  from small.loop_maps [OF wf sp n(1) this pages] show ?thesis using n(2) by (simp add: map_range_enters [OF wf sp r])
qed

text \<open>The first page that is already mapped ends the range.\<close>

lemma map_range_blocked:
  assumes wf: "vm_wf s root" and sp: "pml4 space = physical_to_virtual s root"
    and r: "range_ok 12 virt phys size_bytes" and f: "flags_only flags" "\<not> huge flags"
    and j: "j < unat size_bytes div 4096" and budget: "Suc j * 3 \<le> card (free_frames s)"
    and unmapped: "\<And>w. w - virt < of_nat j * 4096 \<Longrightarrow> space_map s root w = None"
    and mapped: "space_map s root (virt + of_nat j * 4096) \<noteq> None"
  shows "\<exists>t m. map_range space virt phys size_bytes flags s = Some (False, t) \<and> m \<le> j * 3 \<and> extends s t root m \<and>
    space_map t root = (\<lambda>w. if w - virt < of_nat j * 4096 then Some (phys + (w - virt), flags_or flags PF_Present)
      else space_map s root w)"
proof -
  have k: "(12 :: nat) < 64" by simp
  obtain n where n: "unat size_bytes = n * 2 ^ 12" "n = unat size_bytes div 2 ^ 12" by (rule range_count [OF r k])
  have jn: "j < n" using j n(2) by simp
  have un: "space_map s root (virt + of_nat i * 2 ^ 12) = None" if "i < j" for i
  proof (rule unmapped)
    have o: "unat (of_nat i * 2 ^ 12 :: u64) = i * 2 ^ 12" "unat (of_nat j * 2 ^ 12 :: u64) = j * 2 ^ 12"
      using small.of_nat_block [OF n(1)] that jn by simp_all
    then have "(of_nat i * 2 ^ 12 :: u64) < of_nat j * 2 ^ 12" using that unfolding word_less_nat_alt o by simp
    then show "virt + of_nat i * 2 ^ 12 - virt < of_nat j * 4096" by simp
  qed
  have pages: "(map_page_args (virt + of_nat i * 2 ^ 12) (phys + of_nat i * 2 ^ 12) flags \<and> flags_only flags) \<and>
      (space_map s root (virt + of_nat i * 2 ^ 12) = None \<longleftrightarrow> i < j)" if i: "i \<le> j" for i
    using range_page_args(1) [OF r n(1) _ f(2), of i] i jn f(1) un [of i] mapped by (cases "i = j") auto
  from small.loop_blocked [OF wf sp n(1) jn budget pages] show ?thesis
    by (simp add: map_range_enters [OF wf sp r])
qed

lemma map_range_large_result:
  assumes wf: "vm_wf s root" and sp: "pml4 space = physical_to_virtual s root"
    and r: "range_ok 21 virt phys size_bytes" and f: "flags_only flags"
    and budget: "unat size_bytes div 2 ^ 21 * 2 \<le> card (free_frames s)"
    and slots: "\<And>i. i < unat size_bytes div 2 ^ 21 \<Longrightarrow> large_slot_free s root (virt + of_nat i * 2 ^ 21)"
  shows "\<exists>t m. map_range_large space virt phys size_bytes flags s = Some (True, t) \<and>
    m \<le> unat size_bytes div 2 ^ 21 * 2 \<and> extends s t root m \<and>
    space_map t root = (\<lambda>w. if w - virt < size_bytes
      then Some (phys + (w - virt), flags_or (flags_or flags PF_Present) PF_Huge) else space_map s root w)"
proof -
  have k: "(21 :: nat) < 64" by simp
  obtain n where n: "unat size_bytes = n * 2 ^ 21" "n = unat size_bytes div 2 ^ 21" by (rule range_count [OF r k])
  note pg = range_page [OF r k n(1)]
  note g = range_guards [OF r]
  have "map_large_args (virt + of_nat i * 2 ^ 21) (phys + of_nat i * 2 ^ 21) \<and> flags_only flags \<and>
      large_slot_free s root (virt + of_nat i * 2 ^ 21)" if i: "i < n" for i
  proof -
    have "(phys + of_nat i * 2 ^ 21) AND NOT kPhysicalAddressMask = 0"
      using pg(7) [OF i] take_bit_21_12 [OF pg(4) [OF i]] by (rule phys_below_52)
    then show ?thesis
      using pg(3,4,5) [OF i] f slots i n(2) by (simp add: map_large_args_def)
  qed
  moreover have bd: "n * 2 \<le> card (free_frames s)" using n budget by simp
  ultimately obtain t m where "map_range_large_loop space virt phys size_bytes flags 0 s = Some (True, t)" "m \<le> n * 2"
    "extends s t root m"
    "space_map t root = (\<lambda>w. if w - virt < size_bytes
      then Some (phys + (w - virt), flags_or (flags_or flags PF_Present) PF_Huge) else space_map s root w)"
    using large.loop_maps [OF wf sp n(1) bd, of virt phys flags] by blast
  moreover have "map_range_large space virt phys size_bytes flags s =
      map_range_large_loop space virt phys size_bytes flags 0 s"
    using g root_pointer [OF wf] by (simp add: map_range_large_def large_mask sp)
  ultimately show ?thesis using n(2) by auto
qed

lemma take_bit_blocks:
  "take_bit k (n :: u64) = 0 \<Longrightarrow> unat n = unat (0 :: u64) + unat n div 2 ^ k * 2 ^ k"
  by (metis add.right_neutral add_0 div_mult_mod_eq unat_0 unat_take_bit)

text \<open>The range mappers only add mappings, whatever they answer.\<close>

lemma map_range_grows:
  assumes "vm_wf s root" "pml4 space = physical_to_virtual s root"
    "unat size_bytes div 4096 * 3 \<le> card (free_frames s)" "map_range space virt phys size_bytes flags s = Some (ok, t)"
  shows "\<exists>m. extends s t root m \<and> space_map s root \<subseteq>\<^sub>m space_map t root"
proof (cases "t = s")
  case True
  then show ?thesis using extends_refl [OF assms(1)] by auto
next
  case False
  then have l: "take_bit 12 size_bytes = 0" "map_range_loop space virt phys size_bytes flags 0 s = Some (ok, t)"
    using assms(4) by (auto simp: map_range_def small_mask split: if_splits)
  show ?thesis
    by (rule small.loop_grows [OF assms(1,2) take_bit_blocks [OF l(1)] _ l(2)]) (use assms(3) in simp)
qed

lemma map_range_large_grows:
  assumes "vm_wf s root" "pml4 space = physical_to_virtual s root"
    "unat size_bytes div 2 ^ 21 * 2 \<le> card (free_frames s)" "map_range_large space virt phys size_bytes flags s = Some (ok, t)"
  shows "\<exists>m. extends s t root m \<and> space_map s root \<subseteq>\<^sub>m space_map t root"
proof (cases "t = s")
  case True
  then show ?thesis using extends_refl [OF assms(1)] by auto
next
  case False
  then have l: "take_bit 21 size_bytes = 0" "map_range_large_loop space virt phys size_bytes flags 0 s = Some (ok, t)"
    using assms(4) by (auto simp: map_range_large_def large_mask split: if_splits)
  show ?thesis
    by (rule large.loop_grows [OF assms(1,2) take_bit_blocks [OF l(1)] assms(3) l(2)])
qed

lemma range_loops_return:
  "take_bit 12 size_bytes = 0 \<Longrightarrow> map_range_loop space virt phys size_bytes flags 0 s \<noteq> None"
  "take_bit 21 size_bytes = 0 \<Longrightarrow> map_range_large_loop space virt phys size_bytes flags 0 s \<noteq> None"
  by (rule small.loop_returns [OF take_bit_blocks], assumption) (rule large.loop_returns [OF take_bit_blocks], assumption)

section \<open>Properties\<close>

lemma small_range: "range_ok 12 0x400000 0x5000 0x2000" "range_ok 21 0x400000 0 0x400000" "range_ok 12 0x3FF000 0x8000 0x3000"
  unfolding range_ok_def by simp_all

text \<open>
  C7: \<open>map_range\<close> on a well-formed address space, with page-aligned arguments in range, no page
  of the range mapped yet and three free frames per page, succeeds and maps exactly the range:
  each byte goes to the physical byte at the same distance, with the requested flags plus Present,
  and every other address translates as before.
\<close>

theorem map_range_maps_range:
  assumes "vm_wf s root" "pml4 space = physical_to_virtual s root" "range_ok 12 virt phys size_bytes"
    "flags_only flags" "\<not> huge flags" "unat size_bytes div 4096 * 3 \<le> card (free_frames s)"
    "\<And>w. w - virt < size_bytes \<Longrightarrow> space_map s root w = None"
  shows "\<exists>t. map_range space virt phys size_bytes flags s = Some (True, t) \<and> vm_wf t root \<and>
    space_map t root = (\<lambda>w. if w - virt < size_bytes then Some (phys + (w - virt), flags_or flags PF_Present)
      else space_map s root w)"
  using map_range_result [OF assms] by (auto simp: extends_def)

theorem map_range_maps_range_witness:
  "\<exists>t. map_range \<lparr>pml4 = physical_to_virtual small_space 0x1000, pml4_physical = 0x1000\<rparr>
         0x400000 0x5000 0x2000 PF_NoExecute small_space = Some (True, t) \<and>
     space_map t 0x1000 0x401234 = Some (0x6234, flags_or PF_NoExecute PF_Present)"
proof -
  obtain t where "map_range \<lparr>pml4 = physical_to_virtual small_space 0x1000, pml4_physical = 0x1000\<rparr>
      0x400000 0x5000 0x2000 PF_NoExecute small_space = Some (True, t)"
    "space_map t 0x1000 = (\<lambda>w. if w - 0x400000 < 0x2000 then Some (0x5000 + (w - 0x400000), flags_or PF_NoExecute PF_Present)
      else space_map small_space 0x1000 w)"
    using map_range_maps_range [OF small_space(1) _ small_range(1), of "\<lparr>pml4 = physical_to_virtual small_space 0x1000, pml4_physical = 0x1000\<rparr>" PF_NoExecute] small_space(2,3) by auto
  then show ?thesis by simp
qed

text \<open>
  C8: \<open>map_range\<close> is not atomic. When page \<open>j\<close> of the range is the first that is already mapped, the
  call returns false, the \<open>j\<close> pages before it stay mapped as requested, and every other address,
  the occupied page and the rest of the range included, translates as before.
\<close>

theorem map_range_stops_at_mapped_page:
  assumes "vm_wf s root" "pml4 space = physical_to_virtual s root" "range_ok 12 virt phys size_bytes"
    "flags_only flags" "\<not> huge flags" "j < unat size_bytes div 4096" "Suc j * 3 \<le> card (free_frames s)"
    "\<And>w. w - virt < of_nat j * 4096 \<Longrightarrow> space_map s root w = None"
    "space_map s root (virt + of_nat j * 4096) \<noteq> None"
  shows "\<exists>t. map_range space virt phys size_bytes flags s = Some (False, t) \<and> vm_wf t root \<and>
    space_map t root = (\<lambda>w. if w - virt < of_nat j * 4096 then Some (phys + (w - virt), flags_or flags PF_Present)
      else space_map s root w)"
  using map_range_blocked [OF assms] by (auto simp: extends_def)

theorem map_range_stops_at_mapped_page_witness:
  "\<exists>s t. map_page (physical_to_virtual small_space 0x1000) 0x400000 0x5000 PF_Writable small_space = (True, s) \<and>
     map_range \<lparr>pml4 = physical_to_virtual s 0x1000, pml4_physical = 0x1000\<rparr> 0x3FF000 0x8000 0x3000 PF_None s
       = Some (False, t) \<and>
     space_map t 0x1000 0x3FF010 = Some (0x8010, flags_or PF_None PF_Present) \<and>
     space_map t 0x1000 0x400123 = Some (0x5123, flags_or PF_Writable PF_Present) \<and> space_map t 0x1000 0x401000 = None"
proof -
  obtain s where s: "map_page (physical_to_virtual small_space 0x1000) 0x400000 0x5000 PF_Writable small_space = (True, s)"
    "vm_wf s 0x1000" "59 \<le> card (free_frames s)"
    and m: "space_map s 0x1000 = (\<lambda>v. if drop_bit 12 v = drop_bit 12 0x400000
      then Some (0x5000 OR take_bit 12 v, flags_or PF_Writable PF_Present) else None)"
    by (rule small_mapped_map)
  have "space_map s 0x1000 w = None" if "w - 0x3FF000 < 0x1000" for w
    using that same_block_iff [of 12 "0x3FF000" w] by (simp add: m)
  moreover have "space_map s 0x1000 (0x3FF000 + of_nat 1 * 4096) \<noteq> None" by (simp add: m)
  ultimately obtain t where "map_range \<lparr>pml4 = physical_to_virtual s 0x1000, pml4_physical = 0x1000\<rparr> 0x3FF000 0x8000 0x3000 PF_None s
       = Some (False, t)"
    "space_map t 0x1000 = (\<lambda>w. if w - 0x3FF000 < of_nat 1 * 4096 then Some (0x8000 + (w - 0x3FF000), flags_or PF_None PF_Present)
      else space_map s 0x1000 w)"
    using map_range_stops_at_mapped_page [OF s(2) _ small_range(3), where j = 1
        and space = "\<lparr>pml4 = physical_to_virtual s 0x1000, pml4_physical = 0x1000\<rparr>" and flags = PF_None] s(3)
    by auto
  with s(1) show ?thesis by (intro exI [of _ s] exI [of _ t]) (simp add: m)
qed

text \<open>
  C19: \<open>map_range_large\<close> likewise maps exactly the range with 2 MiB pages, given two free frames per
  page and free slots.
\<close>

theorem map_range_large_maps_range:
  assumes "vm_wf s root" "pml4 space = physical_to_virtual s root" "range_ok 21 virt phys size_bytes"
    "flags_only flags" "unat size_bytes div 2 ^ 21 * 2 \<le> card (free_frames s)"
    "\<And>i. i < unat size_bytes div 2 ^ 21 \<Longrightarrow> large_slot_free s root (virt + of_nat i * 2 ^ 21)"
  shows "\<exists>t. map_range_large space virt phys size_bytes flags s = Some (True, t) \<and> vm_wf t root \<and>
    space_map t root = (\<lambda>w. if w - virt < size_bytes
      then Some (phys + (w - virt), flags_or (flags_or flags PF_Present) PF_Huge) else space_map s root w)"
  using map_range_large_result [OF assms] by (auto simp: extends_def)

theorem map_range_large_maps_range_witness:
  "\<exists>t. map_range_large \<lparr>pml4 = physical_to_virtual small_space 0x1000, pml4_physical = 0x1000\<rparr>
         0x400000 0 0x400000 PF_Writable small_space = Some (True, t) \<and>
     space_map t 0x1000 0x600010 = Some (0x200010, flags_or (flags_or PF_Writable PF_Present) PF_Huge)"
proof -
  have "large_slot_free small_space 0x1000 (0x400000 + of_nat i * 2 ^ 21)" if "i < 2" for i
    using small_slot_free_at by simp
  then obtain t where "map_range_large \<lparr>pml4 = physical_to_virtual small_space 0x1000, pml4_physical = 0x1000\<rparr>
      0x400000 0 0x400000 PF_Writable small_space = Some (True, t)"
    "space_map t 0x1000 = (\<lambda>w. if w - 0x400000 < 0x400000
      then Some (0 + (w - 0x400000), flags_or (flags_or PF_Writable PF_Present) PF_Huge) else space_map small_space 0x1000 w)"
    using map_range_large_maps_range [OF small_space(1) _ small_range(2), of "\<lparr>pml4 = physical_to_virtual small_space 0x1000, pml4_physical = 0x1000\<rparr>" PF_Writable] small_space(3) by auto
  then show ?thesis by simp
qed

text \<open>
  Both range mappers always return, for every argument and every state: their checks make the
  loop counter reach \<open>size\<close> without wrapping.
\<close>

theorem map_range_terminates:
  "(\<exists>ok t. map_range space virt phys size_bytes flags s = Some (ok, t)) \<and>
   (\<exists>ok t. map_range_large space virt phys size_bytes flags s = Some (ok, t))"
proof -
  have "map_range space virt phys size_bytes flags s \<noteq> None" "map_range_large space virt phys size_bytes flags s \<noteq> None"
    using range_loops_return [of size_bytes space virt phys flags s]
    unfolding map_range_def map_range_large_def small_mask large_mask by auto
  then show ?thesis by auto
qed

text \<open>
  The wrap-around check is one too strict: a range that ends exactly at the top of the address space
  does not wrap, but both range mappers refuse it. \<open>map_page\<close> accepts the last page.
\<close>

theorem map_range_refuses_top:
  assumes "unat virt + unat size_bytes = 2 ^ 64"
  shows "map_range space virt phys size_bytes flags s = Some (False, s)"
    "map_range_large space virt phys size_bytes flags s = Some (False, s)"
proof -
  have "unat (UINT64_MAX - size_bytes) = 2 ^ 64 - 1 - unat size_bytes"
    using u64_bound [of size_bytes] by (simp add: unat_sub_if')
  then have "virt > UINT64_MAX - size_bytes"
    using assms u64_bound [of size_bytes] unfolding word_less_nat_alt by linarith
  then show "map_range space virt phys size_bytes flags s = Some (False, s)"
    "map_range_large space virt phys size_bytes flags s = Some (False, s)"
    by (simp_all add: map_range_def map_range_large_def)
qed

lemma last_page_accepted: "map_page_args 0xFFFFFFFFFFFFF000 0x5000 PF_None"
  by (simp add: map_page_args_def is_canonical_def page_aligned_def kPhysicalAddressMask_def)

end
