(* ===== verification/Vmm_Kernel.thy ===== *)
theory Vmm_Kernel
  imports Vmm_Range
begin

text \<open>
  The kernel address space that \<open>build_kernel_address_space\<close> of \<open>src/src/mm/vmm.cpp\<close> constructs: the
  direct map in 2 MiB pages and the four segments of the kernel image in 4 KiB pages, each with its
  own rights. The theorems give the complete translation of the result, the separation of writable
  and executable pages, and that the tables stay reachable through the new direct map.
\<close>

section \<open>Segments\<close>

definition image_phys :: "KernelLayout \<Rightarrow> u64 \<Rightarrow> u64" where
  "image_phys layout v = v - virtual_base layout + physical_base layout"

definition segment_ok :: "KernelLayout \<Rightarrow> u64 \<Rightarrow> u64 \<Rightarrow> bool" where
  "segment_ok layout a b \<longleftrightarrow> unat a < unat b \<and> page_aligned a \<and> page_aligned b \<and>
     2 ^ 64 - 2 ^ 47 \<le> unat a \<and> page_aligned (image_phys layout a) \<and>
     unat (image_phys layout a) + (unat b - unat a) \<le> 2 ^ 52"

lemma between_iff: "unat a \<le> unat b \<Longrightarrow> w - a < b - a \<longleftrightarrow> a \<le> w \<and> w < (b :: u64)"
  using u64_bound [of w] u64_bound [of b]
  by (auto simp: word_less_nat_alt word_le_nat_alt unat_sub_if')

lemma segment_range:
  assumes "segment_ok layout a b"
  shows "range_ok 12 a (image_phys layout a) (b - a)" "unat (b - a) = unat b - unat a"
proof -
  have s: "unat a < unat b" "unat a mod 4096 = 0" "unat b mod 4096 = 0" "2 ^ 64 - 2 ^ 47 \<le> unat a"
    "take_bit 12 a = 0" "take_bit 12 (image_phys layout a) = 0"
    "unat (image_phys layout a) + (unat b - unat a) \<le> 2 ^ 52"
    using assms unfolding segment_ok_def page_aligned_iff [symmetric] page_aligned_def [symmetric] by blast+
  show u: "unat (b - a) = unat b - unat a" using s(1) by (simp add: unat_sub_if')
  have "(unat b - unat a) mod 4096 = 0"
    using s(2,3) by (metis mod_0_imp_dvd dvd_diff_nat dvd_imp_mod_0)
  then have "page_aligned (b - a)" by (simp add: page_aligned_iff u)
  moreover have "b - a \<noteq> 0" using s(1) by auto
  moreover have "unat a + (unat b - unat a) < 2 ^ 64" using s(1) u64_bound [of b] by simp
  ultimately show "range_ok 12 a (image_phys layout a) (b - a)"
    unfolding range_ok_def u using s by (simp add: page_aligned_def)
qed

lemma map_segment_result:
  assumes wf: "vm_wf s root" and sp: "pml4 space = physical_to_virtual s root" and seg: "segment_ok layout a b"
    and f: "flags_only flags" "\<not> huge flags"
    and budget: "(unat b - unat a) div 4096 * 3 \<le> card (free_frames s)"
    and unmapped: "\<And>w. a \<le> w \<Longrightarrow> w < b \<Longrightarrow> space_map s root w = None"
  shows "\<exists>t m. map_segment space layout a b flags s = Some (True, t) \<and>
    m \<le> (unat b - unat a) div 4096 * 3 \<and> extends s t root m \<and>
    space_map t root = (\<lambda>w. if a \<le> w \<and> w < b then Some (image_phys layout w, flags_or flags PF_Present)
      else space_map s root w)"
proof -
  note r = segment_range [OF seg]
  have le: "unat a \<le> unat b" using seg by (simp add: segment_ok_def)
  have "w - a < b - a \<Longrightarrow> space_map s root w = None" for w
    using unmapped [of w] by (simp add: between_iff [OF le])
  from map_range_result [OF wf sp r(1) f _ this] budget
  obtain t m where t: "map_range space a (image_phys layout a) (b - a) flags s = Some (True, t)"
    "m \<le> (unat b - unat a) div 4096 * 3" "extends s t root m"
    and m: "space_map t root = (\<lambda>w. if w - a < b - a
      then Some (image_phys layout a + (w - a), flags_or flags PF_Present) else space_map s root w)"
    unfolding r(2) by blast
  have "image_phys layout a + (w - a) = image_phys layout w" for w by (simp add: image_phys_def)
  then have "space_map t root = (\<lambda>w. if a \<le> w \<and> w < b
      then Some (image_phys layout w, flags_or flags PF_Present) else space_map s root w)"
    unfolding m between_iff [OF le] by metis
  with t show ?thesis by (auto simp: map_segment_def image_phys_def [symmetric])
qed

section \<open>The image\<close>

definition data_end_rounded :: "KernelLayout \<Rightarrow> u64" where
  "data_end_rounded layout = align_up (data_end layout) kPageSize"

definition layout_ok :: "KernelLayout \<Rightarrow> bool" where
  "layout_ok layout \<longleftrightarrow> segment_ok layout (image_start layout) (text_start layout) \<and>
     segment_ok layout (text_start layout) (rodata_start layout) \<and>
     segment_ok layout (rodata_start layout) (data_start layout) \<and>
     segment_ok layout (data_start layout) (data_end_rounded layout)"

definition image_map :: "KernelLayout \<Rightarrow> u64 \<Rightarrow> (u64 \<times> PageFlags) option" where
  "image_map layout w =
     (if image_start layout \<le> w \<and> w < text_start layout then Some (image_phys layout w, flags_or PF_NoExecute PF_Present)
      else if text_start layout \<le> w \<and> w < rodata_start layout then Some (image_phys layout w, flags_or PF_None PF_Present)
      else if rodata_start layout \<le> w \<and> w < data_start layout then Some (image_phys layout w, flags_or PF_NoExecute PF_Present)
      else if data_start layout \<le> w \<and> w < data_end_rounded layout
      then Some (image_phys layout w, flags_or (flags_or PF_Writable PF_NoExecute) PF_Present)
      else None)"

definition image_pages :: "KernelLayout \<Rightarrow> nat" where
  "image_pages layout = (unat (data_end_rounded layout) - unat (image_start layout)) div 4096"

lemma div_sum_le: "x div 4096 + y div 4096 \<le> (x + y) div (4096 :: nat)"
proof -
  have "4096 * (x div 4096) + 4096 * (y div 4096) \<le> x + y" by (intro add_mono) simp_all
  then have "(4096 * (x div 4096) + 4096 * (y div 4096)) div 4096 \<le> (x + y) div 4096" by (rule div_le_mono)
  then show ?thesis by simp
qed

lemma map_image_result:
  assumes wf: "vm_wf s root" and sp: "pml4 space = physical_to_virtual s root" and lay: "layout_ok layout"
    and budget: "image_pages layout * 3 \<le> card (free_frames s)"
    and unmapped: "\<And>w. image_start layout \<le> w \<Longrightarrow> space_map s root w = None"
  shows "\<exists>t m. map_image space layout s = Some (True, t) \<and> extends s t root m \<and>
    space_map t root = (\<lambda>w. case image_map layout w of None \<Rightarrow> space_map s root w | Some x \<Rightarrow> Some x)"
proof -
  let ?a = "image_start layout" and ?b = "text_start layout" and ?c = "rodata_start layout"
    and ?d = "data_start layout" and ?e = "data_end_rounded layout"
  have seg: "segment_ok layout ?a ?b" "segment_ok layout ?b ?c" "segment_ok layout ?c ?d" "segment_ok layout ?d ?e"
    using lay by (simp_all add: layout_ok_def)
  then have lt: "unat ?a < unat ?b" "unat ?b < unat ?c" "unat ?c < unat ?d" "unat ?d < unat ?e"
    by (simp_all add: segment_ok_def)
  let ?p = "\<lambda>x y. (unat y - unat x) div 4096"
  have sum: "?p ?a ?b + ?p ?b ?c + ?p ?c ?d + ?p ?d ?e \<le> image_pages layout"
    unfolding image_pages_def
    using lt div_sum_le [of "unat ?b - unat ?a" "unat ?c - unat ?b"] div_sum_le [of "unat ?c - unat ?a" "unat ?d - unat ?c"]
      div_sum_le [of "unat ?d - unat ?a" "unat ?e - unat ?d"] by simp
  note f = flags_only_PF flags_or_def flags_only_or
  have tr: "pml4 space = physical_to_virtual t root" "vm_wf t root" "card (free_frames t) + m = card (free_frames u)"
    if "extends u t root m" "pml4 space = physical_to_virtual u root" for t u m
    using that by (simp_all add: extends_def physical_to_virtual_def)
  obtain s1 m1 where 1: "map_segment space layout ?a ?b PF_NoExecute s = Some (True, s1)" "m1 \<le> ?p ?a ?b * 3"
    "extends s s1 root m1" and M1: "space_map s1 root = (\<lambda>w. if ?a \<le> w \<and> w < ?b
      then Some (image_phys layout w, flags_or PF_NoExecute PF_Present) else space_map s root w)"
    using map_segment_result [OF wf sp seg(1), of PF_NoExecute] unmapped sum budget by (auto simp: f)
  note t1 = tr [OF 1(3) sp]
  obtain s2 m2 where 2: "map_segment space layout ?b ?c PF_None s1 = Some (True, s2)" "m2 \<le> ?p ?b ?c * 3"
    "extends s1 s2 root m2" and M2: "space_map s2 root = (\<lambda>w. if ?b \<le> w \<and> w < ?c
      then Some (image_phys layout w, flags_or PF_None PF_Present) else space_map s1 root w)"
    using map_segment_result [OF t1(2,1) seg(2), of PF_None] unmapped sum budget t1(3) 1(2) lt
    by (auto simp: f M1 word_le_nat_alt word_less_nat_alt)
  note t2 = tr [OF 2(3) t1(1)]
  obtain s3 m3 where 3: "map_segment space layout ?c ?d PF_NoExecute s2 = Some (True, s3)" "m3 \<le> ?p ?c ?d * 3"
    "extends s2 s3 root m3" and M3: "space_map s3 root = (\<lambda>w. if ?c \<le> w \<and> w < ?d
      then Some (image_phys layout w, flags_or PF_NoExecute PF_Present) else space_map s2 root w)"
    using map_segment_result [OF t2(2,1) seg(3), of PF_NoExecute] unmapped sum budget t1(3) 1(2) t2(3) 2(2) lt
    by (auto simp: f M1 M2 word_le_nat_alt word_less_nat_alt)
  note t3 = tr [OF 3(3) t2(1)]
  obtain s4 m4 where 4: "map_segment space layout ?d ?e (flags_or PF_Writable PF_NoExecute) s3 = Some (True, s4)"
    "extends s3 s4 root m4" and M4: "space_map s4 root = (\<lambda>w. if ?d \<le> w \<and> w < ?e
      then Some (image_phys layout w, flags_or (flags_or PF_Writable PF_NoExecute) PF_Present) else space_map s3 root w)"
    using map_segment_result [OF t3(2,1) seg(4), of "flags_or PF_Writable PF_NoExecute"] unmapped sum budget
      t1(3) 1(2) t2(3) 2(2) t3(3) 3(2) lt
    by (auto simp: f bit_or_iff M1 M2 M3 word_le_nat_alt word_less_nat_alt)
  have "map_image space layout s = Some (True, s4)"
    using 1(1) 2(1) 3(1) 4(1) by (simp add: map_image_def data_end_rounded_def [symmetric])
  moreover have "extends s s4 root (m1 + m2 + m3 + m4)"
    by (intro extends_trans [OF _ 4(2)] extends_trans [OF _ 3(3)] extends_trans [OF 1(3) 2(3)])
  moreover have "space_map s4 root w = (case image_map layout w of None \<Rightarrow> space_map s root w | Some x \<Rightarrow> Some x)" for w
    using lt by (simp add: M1 M2 M3 M4 image_map_def word_le_nat_alt word_less_nat_alt)
  ultimately show ?thesis by (intro exI [of _ s4]) (auto simp: fun_eq_iff)
qed

section \<open>The kernel address space\<close>

definition direct_size :: "MemoryRegion list \<Rightarrow> u64" where
  "direct_size regions = align_up (highest_end regions 0) kLargePageSize"

text \<open>
  What the boot code hands over: a usable frame pool, a direct map that fits below the image, a
  linked image layout, and frames for the PML4 and the tables of both parts.
\<close>

definition kernel_inputs_ok :: "machine \<Rightarrow> MemoryRegion list \<Rightarrow> u64 \<Rightarrow> KernelLayout \<Rightarrow> bool" where
  "kernel_inputs_ok s regions hhdm layout \<longleftrightarrow> pool_ok s \<and> regions \<noteq> [] \<and>
     range_ok 21 hhdm 0 (direct_size regions) \<and> layout_ok layout \<and>
     unat hhdm + unat (direct_size regions) \<le> unat (image_start layout) \<and>
     1 + unat (direct_size regions) div 2 ^ 21 * 2 + image_pages layout * 3 \<le> card (free_frames s)"

abbreviation direct_flags :: PageFlags where
  "direct_flags \<equiv> flags_or (flags_or (flags_or PF_Writable PF_NoExecute) PF_Present) PF_Huge"

definition kernel_map :: "MemoryRegion list \<Rightarrow> u64 \<Rightarrow> KernelLayout \<Rightarrow> u64 \<Rightarrow> (u64 \<times> PageFlags) option" where
  "kernel_map regions hhdm layout w =
     (if w - hhdm < direct_size regions then Some (w - hhdm, direct_flags) else image_map layout w)"

lemma enable_nx_pool: "pool_ok s \<Longrightarrow> pool_ok (enable_nx s) \<and> free_frames (enable_nx s) = free_frames s"
proof -
  assume p: "pool_ok s"
  have sp: "same_pool (enable_nx s) s" by (simp add: same_pool_def)
  then show ?thesis using same_pool_ok [OF p sp] same_pool_frames(4) [OF sp pool_ok_shape [OF p]] by blast
qed

lemma direct_size_nonzero: "direct_size regions \<noteq> 0 \<Longrightarrow> highest_end regions 0 \<noteq> 0"
proof
  assume h: "highest_end regions 0 = 0" and d: "direct_size regions \<noteq> 0"
  have "align_up 0 kLargePageSize = 0" by (simp add: align_up_def kLargePageSize_def)
  with h d show False by (simp add: direct_size_def)
qed

lemma image_map_below: "layout_ok layout \<Longrightarrow> unat w < unat (image_start layout) \<Longrightarrow> image_map layout w = None"
  by (auto simp: image_map_def layout_ok_def segment_ok_def word_le_nat_alt)

lemma kernel_map_translate:
  assumes "vm_wf t root" "pml4 space = physical_to_virtual t root" "space_map t root = kernel_map regions hhdm layout"
    "unat hhdm + unat (direct_size regions) \<le> unat (image_start layout)"
  shows "p < direct_size regions \<Longrightarrow> translate space (hhdm + p) t = p"
    "\<lbrakk> image_start layout \<le> v; v < data_end_rounded layout \<rbrakk> \<Longrightarrow> translate space v t = image_phys layout v"
proof -
  note tr = translate_leaf [OF assms(1,2), unfolded assms(3)]
  show "p < direct_size regions \<Longrightarrow> translate space (hhdm + p) t = p" by (simp add: tr kernel_map_def)
  assume v: "image_start layout \<le> v" "v < data_end_rounded layout"
  have "\<not> v - hhdm < direct_size regions"
    using v(1) assms(4) by (auto simp: word_less_nat_alt word_le_nat_alt unat_sub_if')
  then show "translate space v t = image_phys layout v"
    using v by (auto simp: tr kernel_map_def image_map_def)
qed

lemma build_kernel_result:
  assumes ok: "kernel_inputs_ok s regions hhdm layout"
  shows "\<exists>space t m. build_kernel_address_space out (Some regions) hhdm layout s = Some (True, space, t) \<and>
    pml4 space = physical_to_virtual t (pml4_physical space) \<and>
    extends (after_alloc (enable_nx s)) t (pml4_physical space) m \<and>
    space_map t (pml4_physical space) = kernel_map regions hhdm layout \<and>
    pml4_physical space = Min (free_frames s) * kPageSize"
proof -
  let ?D = "direct_size regions" and ?n = "enable_nx s"
  have pool: "pool_ok ?n" and fr: "free_frames ?n = free_frames s" and ne: "regions \<noteq> []"
    and r: "range_ok 21 hhdm 0 ?D" and lay: "layout_ok layout" and below: "unat hhdm + unat ?D \<le> unat (image_start layout)"
    and budget: "1 + unat ?D div 2 ^ 21 * 2 + image_pages layout * 3 \<le> card (free_frames s)"
    using ok enable_nx_pool by (auto simp: kernel_inputs_ok_def)
  have free: "free_frames ?n \<noteq> {}" using budget fr by auto
  let ?root = "fresh_table ?n" and ?s1 = "after_alloc ?n"
  let ?sp = "\<lparr>pml4 = physical_to_virtual ?n ?root, pml4_physical = ?root\<rparr>"
  note c = create_address_space_fresh [OF pool free]
  note eff = after_alloc_effect [OF pool free]
  have p1: "pml4 ?sp = physical_to_virtual ?s1 ?root" by simp
  have card: "Suc (card (free_frames ?s1)) = card (free_frames s)"
    unfolding eff(1) by (subst card_Suc_Diff1 [OF finite_free_frames fresh_frame_free [OF free]]) (simp add: fr)
  obtain s2 m2 where 2: "map_range_large ?sp hhdm 0 ?D (flags_or PF_Writable PF_NoExecute) ?s1 = Some (True, s2)"
    "m2 \<le> unat ?D div 2 ^ 21 * 2" "extends ?s1 s2 ?root m2"
    and M2: "space_map s2 ?root = (\<lambda>w. if w - hhdm < ?D then Some (0 + (w - hhdm), direct_flags) else space_map ?s1 ?root w)"
    using map_range_large_result [OF c(2) p1 r, of "flags_or PF_Writable PF_NoExecute"] budget card empty_slot_free [OF eff(4)]
    by (auto simp: flags_or_def flags_only_or)
  have wf2: "vm_wf s2 ?root" and p2: "pml4 ?sp = physical_to_virtual s2 ?root"
    and card2: "card (free_frames s2) + m2 = card (free_frames ?s1)"
    using 2(3) by (simp_all add: extends_def physical_to_virtual_def)
  have above: "\<not> w - hhdm < ?D" if "image_start layout \<le> w" for w
    using that below by (auto simp: word_less_nat_alt word_le_nat_alt unat_sub_if')
  have un: "space_map s2 ?root w = None" if "image_start layout \<le> w" for w
    using above [OF that] by (simp add: M2 c(3))
  have b2: "image_pages layout * 3 \<le> card (free_frames s2)" using budget card card2 2(2) by linarith
  obtain t m where t: "map_image ?sp layout s2 = Some (True, t)" "extends s2 t ?root m"
    and M: "space_map t ?root = (\<lambda>w. case image_map layout w of None \<Rightarrow> space_map s2 ?root w | Some x \<Rightarrow> Some x)"
    using map_image_result [OF wf2 p2 lay b2 un] by auto
  have "space_map t ?root w = kernel_map regions hhdm layout w" for w
  proof (cases "w - hhdm < ?D")
    case True
    then have "unat w < unat (image_start layout)"
      using above [of w] unfolding word_le_nat_alt by (meson not_le)
    then show ?thesis using True by (simp add: M M2 kernel_map_def image_map_below [OF lay])
  qed (simp add: M M2 c(3) kernel_map_def split: option.splits)
  then have "space_map t ?root = kernel_map regions hhdm layout" by (rule ext)
  moreover have "build_kernel_address_space out (Some regions) hhdm layout s = Some (True, ?sp, t)"
    using ne c(1) [of out] 2(1) t(1) range_guards(5,6) [OF r] direct_size_nonzero
    by (simp add: build_kernel_address_space_def large_mask direct_size_def [symmetric] Let_def)
  moreover have "extends ?s1 t ?root (m2 + m)" by (rule extends_trans [OF 2(3) t(2)])
  moreover from this have "pml4 ?sp = physical_to_virtual t ?root" by (simp add: extends_def physical_to_virtual_def)
  moreover have "?root = Min (free_frames s) * kPageSize" by (simp add: fresh_table_def fresh_frame_def fr)
  ultimately show ?thesis by (metis AddressSpace.select_convs(2))
qed

section \<open>Rights and reachability\<close>

lemma space_map_rights:
  assumes "vm_wf s root"
  shows "rights s root (indices w) = Some r \<Longrightarrow> is_canonical w \<Longrightarrow>
      \<exists>p f. space_map s root w = Some (p, f) \<and> r = (bit f 1, bit f 2, \<not> bit f 63)"
    "space_map s root w = Some (p, f) \<Longrightarrow> rights s root (indices w) = Some (bit f 1, bit f 2, \<not> bit f 63)"
proof -
  have b: "bit (page_entry_flags e) n = bit e n" if "n < 12 \<or> 52 \<le> n" for e n
    using that bit_imp_le_length [of e n] by (auto simp: page_entry_flags_def bit_simps bit_kPhysicalAddressMask)
  have r: "rights s root (indices w) = map_option leaf_rights (leaf s root (indices w))"
    using rights_leaf [OF assms, of "[]" "indices w"] by simp
  show "rights s root (indices w) = Some r \<Longrightarrow> is_canonical w \<Longrightarrow>
      \<exists>p f. space_map s root w = Some (p, f) \<and> r = (bit f 1, bit f 2, \<not> bit f 63)"
    by (auto simp: r space_map_def leaf_rights_def leaf_target_def b)
  show "space_map s root w = Some (p, f) \<Longrightarrow> rights s root (indices w) = Some (bit f 1, bit f 2, \<not> bit f 63)"
    by (auto simp: r space_map_def leaf_rights_def leaf_target_def b split: if_splits)
qed

lemma kernel_map_flags:
  "kernel_map regions hhdm layout w = Some (p, f) \<Longrightarrow> \<not> (bit f 1 \<and> \<not> bit f 63) \<and> \<not> bit f 2"
  by (auto simp: kernel_map_def image_map_def flags_or_def bit_or_iff split: if_splits)

lemma kernel_map_table:
  assumes "pool_ok t" "table_ok t P" "4096 * unat (frame_count t) \<le> unat (direct_size regions)"
  shows "kernel_map regions (g_hhdm_offset t) layout (physical_to_virtual t P) = Some (P, direct_flags)"
proof -
  obtain f where f: "P = f * kPageSize" "frame_valid t f" using assms(2) by (auto elim: table_okE)
  have "unat P = 4096 * unat f" using valid_frame_address(1) [OF assms(1) f(2)] f(1) by simp
  then have "P < direct_size regions" using f(2) assms(3) by (simp add: frame_valid_def word_less_nat_alt)
  then show ?thesis by (simp add: kernel_map_def physical_to_virtual_def)
qed

lemma tree_table_reachable:
  assumes wf: "vm_wf t root" and P: "P \<in> tree_tables t root"
    and m: "space_map t root = kernel_map regions (g_hhdm_offset t) layout"
    and cover: "4096 * unat (frame_count t) \<le> unat (direct_size regions)"
  shows "space_map t root (physical_to_virtual t P) = Some (P, direct_flags)"
proof -
  have "table_ok t P" using P vm_wfD(2) [OF wf] by (auto simp: tree_tables_def)
  then show ?thesis unfolding m by (rule kernel_map_table [OF vm_wfD(1) [OF wf] _ cover])
qed

section \<open>A bootable machine\<close>

definition demo_regions :: "MemoryRegion list" where
  "demo_regions = [\<lparr>base = 0, length_of = 0x40000, type_of = Usable\<rparr>]"

definition demo_layout :: KernelLayout where
  "demo_layout = \<lparr>virtual_base = 0xFFFFFFFF80000000, physical_base = 0x10000, image_start = 0xFFFFFFFF80000000,
     text_start = 0xFFFFFFFF80001000, rodata_start = 0xFFFFFFFF80002000, data_start = 0xFFFFFFFF80003000,
     data_end = 0xFFFFFFFF80003800\<rparr>"

lemma demo_ok: "kernel_inputs_ok small_machine demo_regions 0xFFFF800000000000 demo_layout"
proof -
  have d: "direct_size demo_regions = 0x200000"
    by (simp add: direct_size_def demo_regions_def align_up_def kLargePageSize_def)
  have e: "data_end_rounded demo_layout = 0xFFFFFFFF80004000"
    by (simp add: data_end_rounded_def demo_layout_def align_up_def kPageSize_def)
  have "layout_ok demo_layout"
    unfolding layout_ok_def e segment_ok_def page_aligned_iff
    by (simp add: demo_layout_def image_phys_def)
  moreover have "image_pages demo_layout = 4" unfolding image_pages_def e by (simp add: demo_layout_def)
  moreover have "range_ok 21 0xFFFF800000000000 0 0x200000" unfolding range_ok_def by simp
  ultimately show ?thesis
    unfolding kernel_inputs_ok_def d using pool_small small_free_facts(1)
    by (simp add: demo_regions_def demo_layout_def)
qed

section \<open>Properties\<close>

text \<open>
  C6: for a usable memory map, a linked image below which the direct map fits, and enough frames,
  \<open>build_kernel_address_space\<close> succeeds with an address space whose translation is exactly: the
  direct map (physical memory at \<open>hhdm_offset\<close>, writable, no-execute), the image segments at their
  load address with their rights, and nothing else. The no-execute bit is enabled in EFER.
\<close>

theorem build_kernel_address_space_translation:
  assumes "kernel_inputs_ok s regions hhdm layout"
  shows "\<exists>space t. build_kernel_address_space out (Some regions) hhdm layout s = Some (True, space, t) \<and>
    vm_wf t (pml4_physical space) \<and> pml4 space = physical_to_virtual t (pml4_physical space) \<and>
    space_map t (pml4_physical space) = kernel_map regions hhdm layout \<and> bit (msrs t kEferMsr) 11 \<and> cr3 t = cr3 s"
proof -
  obtain space t m where "build_kernel_address_space out (Some regions) hhdm layout s = Some (True, space, t)"
    "pml4 space = physical_to_virtual t (pml4_physical space)"
    "extends (after_alloc (enable_nx s)) t (pml4_physical space) m"
    "space_map t (pml4_physical space) = kernel_map regions hhdm layout"
    using build_kernel_result [OF assms, of out] by blast
  then show ?thesis
    by (intro exI [of _ space] exI [of _ t]) (simp add: extends_def enable_nx_eq bit_or_iff bit_kEferNxe)
qed

theorem build_kernel_address_space_translation_witness:
  "\<exists>space t. build_kernel_address_space \<lparr>pml4 = 0, pml4_physical = 0\<rparr> (Some demo_regions) 0xFFFF800000000000
       demo_layout small_machine = Some (True, space, t) \<and>
     space_map t (pml4_physical space) 0xFFFFFFFF80001010 = Some (0x11010, flags_or PF_None PF_Present)"
proof -
  have "kernel_map demo_regions 0xFFFF800000000000 demo_layout 0xFFFFFFFF80001010 = Some (0x11010, flags_or PF_None PF_Present)"
    by (simp add: kernel_map_def image_map_def demo_layout_def image_phys_def direct_size_def demo_regions_def
        align_up_def kLargePageSize_def)
  then show ?thesis
    using build_kernel_address_space_translation [OF demo_ok, of "\<lparr>pml4 = 0, pml4_physical = 0\<rparr>"] by auto
qed

text \<open>
  C10: in the kernel address space no page is both writable and executable and none is reachable
  from user mode, judged by the rights the processor computes over all levels; every address of the
  text segment is executable and read-only.
\<close>

theorem kernel_space_write_xor_execute:
  assumes "kernel_inputs_ok s regions hhdm layout"
    "build_kernel_address_space out (Some regions) hhdm layout s = Some (ok, space, t)"
  shows "(\<forall>v w u x. is_canonical v \<longrightarrow> rights t (pml4_physical space) (indices v) = Some (w, u, x) \<longrightarrow>
       \<not> (w \<and> x) \<and> \<not> u) \<and>
    (\<forall>v. text_start layout \<le> v \<longrightarrow> v < rodata_start layout \<longrightarrow>
       rights t (pml4_physical space) (indices v) = Some (False, False, True))"
proof -
  let ?r = "pml4_physical space"
  have m: "space_map t ?r = kernel_map regions hhdm layout" and wf: "vm_wf t ?r"
    using build_kernel_result [OF assms(1), of out] assms(2) by (auto simp: extends_def)
  have lay: "layout_ok layout" and below: "unat hhdm + unat (direct_size regions) \<le> unat (image_start layout)"
    using assms(1) by (simp_all add: kernel_inputs_ok_def)
  have "\<not> (w \<and> x) \<and> \<not> u" if "is_canonical v" "rights t ?r (indices v) = Some (w, u, x)" for v w u x
    using space_map_rights(1) [OF wf that(2,1)] kernel_map_flags [of regions hhdm layout v] by (auto simp: m)
  moreover have "rights t ?r (indices v) = Some (False, False, True)"
    if v: "text_start layout \<le> v" "v < rodata_start layout" for v
  proof -
    have lt: "unat (image_start layout) < unat (text_start layout)" using lay by (simp add: layout_ok_def segment_ok_def)
    then have "\<not> v - hhdm < direct_size regions"
      using v(1) below by (auto simp: word_less_nat_alt word_le_nat_alt unat_sub_if')
    then have "space_map t ?r v = Some (image_phys layout v, flags_or PF_None PF_Present)"
      using v by (simp add: m kernel_map_def image_map_def leD)
    from space_map_rights(2) [OF wf this] show ?thesis by (simp add: flags_or_def bit_or_iff)
  qed
  ultimately show ?thesis by blast
qed

theorem kernel_space_write_xor_execute_witness:
  "\<exists>space t. build_kernel_address_space \<lparr>pml4 = 0, pml4_physical = 0\<rparr> (Some demo_regions) 0xFFFF800000000000
       demo_layout small_machine = Some (True, space, t) \<and>
     rights t (pml4_physical space) (indices 0xFFFFFFFF80001000) = Some (False, False, True)"
proof -
  obtain space t where b: "build_kernel_address_space \<lparr>pml4 = 0, pml4_physical = 0\<rparr> (Some demo_regions)
      0xFFFF800000000000 demo_layout small_machine = Some (True, space, t)"
    using build_kernel_result [OF demo_ok] by blast
  with kernel_space_write_xor_execute [OF demo_ok b] show ?thesis
    by (intro exI [of _ space] exI [of _ t]) (simp add: demo_layout_def)
qed

text \<open>
  The page tables of the kernel address space stay reachable once CR3 is loaded: if the direct
  map covers the managed frames, the pointer the kernel uses for any table of the tree translates,
  under that same tree, to the table's own frame, writable.
\<close>

theorem kernel_tables_stay_reachable:
  assumes "kernel_inputs_ok s regions (g_hhdm_offset s) layout"
    "4096 * unat (frame_count s) \<le> unat (direct_size regions)"
    "build_kernel_address_space out (Some regions) (g_hhdm_offset s) layout s = Some (ok, space, t)"
  shows "\<forall>P \<in> tree_tables t (pml4_physical space).
    space_map t (pml4_physical space) (physical_to_virtual t P) = Some (P, direct_flags)"
proof
  fix P
  assume P: "P \<in> tree_tables t (pml4_physical space)"
  obtain m where x: "extends (after_alloc (enable_nx s)) t (pml4_physical space) m"
    and m: "space_map t (pml4_physical space) = kernel_map regions (g_hhdm_offset s) layout"
    using build_kernel_result [OF assms(1), of out] assms(3) by auto
  have s: "vm_wf t (pml4_physical space)" "g_hhdm_offset t = g_hhdm_offset s" "frame_count t = frame_count s"
    using x by (simp_all add: extends_def)
  show "space_map t (pml4_physical space) (physical_to_virtual t P) = Some (P, direct_flags)"
    using tree_table_reachable [OF s(1) P] m assms(2) by (simp add: s)
qed

text \<open>
  C24: \<open>translate\<close> on the kernel address space gives, for every address of the direct map, its
  distance from \<open>hhdm_offset\<close> and, for every address of the image, its load address. In particular
  \<open>hhdm_offset\<close> itself is mapped, to physical frame 0, and \<open>translate\<close> returns there the same 0 it
  returns for an unmapped address.
\<close>

theorem kernel_space_translate:
  assumes "kernel_inputs_ok s regions hhdm layout"
    "build_kernel_address_space out (Some regions) hhdm layout s = Some (ok, space, t)"
  shows "(\<forall>p < direct_size regions. translate space (hhdm + p) t = p) \<and>
    (\<forall>v. image_start layout \<le> v \<longrightarrow> v < data_end_rounded layout \<longrightarrow> translate space v t = image_phys layout v) \<and>
    space_map t (pml4_physical space) hhdm = Some (0, direct_flags) \<and> translate space hhdm t = 0"
proof -
  let ?r = "pml4_physical space"
  have m: "space_map t ?r = kernel_map regions hhdm layout" and wf: "vm_wf t ?r"
    and sp: "pml4 space = physical_to_virtual t ?r"
    using build_kernel_result [OF assms(1), of out] assms(2) by (auto simp: extends_def)
  have below: "unat hhdm + unat (direct_size regions) \<le> unat (image_start layout)" and pos: "0 < direct_size regions"
    using assms(1) by (auto simp: kernel_inputs_ok_def range_ok_def word_gt_0)
  note tr = kernel_map_translate [OF wf sp m below]
  have "space_map t ?r hhdm = Some (0, direct_flags)" using pos by (simp add: m kernel_map_def)
  then show ?thesis using tr tr(1) [OF pos] by simp
qed

theorem kernel_space_translate_witness:
  "\<exists>space t. build_kernel_address_space \<lparr>pml4 = 0, pml4_physical = 0\<rparr> (Some demo_regions) 0xFFFF800000000000
       demo_layout small_machine = Some (True, space, t) \<and>
     translate space 0xFFFF800000000000 t = 0 \<and> space_map t (pml4_physical space) 0xFFFF800000000000 \<noteq> None"
proof -
  obtain space t where b: "build_kernel_address_space \<lparr>pml4 = 0, pml4_physical = 0\<rparr> (Some demo_regions)
      0xFFFF800000000000 demo_layout small_machine = Some (True, space, t)"
    using build_kernel_result [OF demo_ok] by blast
  with kernel_space_translate [OF demo_ok b] show ?thesis by auto
qed

lemma build_returns: "build_kernel_address_space out regions hhdm layout s \<noteq> None"
proof -
  have r: "map_range space virt phys sz fl u \<noteq> None" "map_range_large space virt phys sz fl u \<noteq> None" for space virt phys sz fl u
    using range_loops_return [of sz space virt phys fl u]
    unfolding map_range_def map_range_large_def small_mask large_mask by auto
  have i: "map_image space layout u \<noteq> None" for space u
    by (auto simp: map_image_def map_segment_def Let_def r(1) split: prod.splits option.splits bind_splits)
  show ?thesis
    by (auto simp: build_kernel_address_space_def Let_def r(2) i split: prod.splits option.splits bind_splits)
qed

text \<open>
  \<open>build_kernel_address_space\<close> always returns; a null or empty region list or an
  \<open>hhdm_offset\<close> that is not 2 MiB aligned makes it fail before it touches any state.
\<close>

theorem build_kernel_address_space_returns:
  "(\<exists>ok space t. build_kernel_address_space out regions hhdm layout s = Some (ok, space, t)) \<and>
   (regions = None \<or> regions = Some [] \<or> unat hhdm mod 0x200000 \<noteq> 0 \<longrightarrow>
      build_kernel_address_space out regions hhdm layout s = Some (False, out, s))"
proof -
  have "take_bit 21 hhdm = 0 \<longleftrightarrow> unat hhdm mod 0x200000 = 0"
    using unat_take_bit [of 21 hhdm] unat_eq_0 [of "take_bit 21 hhdm"] by simp
  then show ?thesis
    using build_returns [of out regions hhdm layout s]
    by (auto simp: build_kernel_address_space_def large_mask split: option.splits)
qed

end
