(* ===== verification/Pmm_Init.thy ===== *)
theory Pmm_Init
  imports Pmm
begin

text \<open>
  What \<open>mm::init\<close> of \<open>src/src/mm/pmm.cpp\<close> establishes: each of its loops as an effect on the
  free set, the counter and memory, and the state it leaves for a memory map.
\<close>

section \<open>The loops\<close>

lemma init_all_used_eq:
  "init_all_used i s =
     s\<lparr>mem := (\<lambda>p. if \<exists>j. i \<le> j \<and> j < bitmap_words s \<and> p = bitmap s + 8 * j then UINT64_MAX else mem s p)\<rparr>"
proof (induction i s rule: init_all_used.induct)
  case (1 i s)
  show ?case
  proof (cases "i < bitmap_words s")
    case False
    then have "\<not> (\<exists>j. i \<le> j \<and> j < bitmap_words s \<and> p = bitmap s + 8 * j)" for p
      by auto
    then have "(\<lambda>p. if \<exists>j. i \<le> j \<and> j < bitmap_words s \<and> p = bitmap s + 8 * j
        then UINT64_MAX else mem s p) = mem s"
      by (simp only: if_False)
    with False show ?thesis by (simp add: init_all_used.simps [of i s])
  next
    case True
    have "i \<le> j \<longleftrightarrow> j = i \<or> i + 1 \<le> j" for j
      using unat_Suc_less [OF True] by (auto simp: word_le_nat_alt le_Suc_eq Suc_le_eq intro: unat_eqI)
    then have ex: "(\<exists>j. i \<le> j \<and> j < bitmap_words s \<and> p = bitmap s + 8 * j) \<longleftrightarrow>
        p = bitmap s + 8 * i \<or> (\<exists>j. i + 1 \<le> j \<and> j < bitmap_words s \<and> p = bitmap s + 8 * j)" for p
      using True by auto
    have "(\<lambda>p. if \<exists>j. i + 1 \<le> j \<and> j < bitmap_words s \<and> p = bitmap s + 8 * j then UINT64_MAX
          else mem (bitmap_set i UINT64_MAX s) p) =
        (\<lambda>p. if \<exists>j. i \<le> j \<and> j < bitmap_words s \<and> p = bitmap s + 8 * j then UINT64_MAX else mem s p)"
      unfolding ex by (rule ext) (auto simp: bitmap_set_def)
    moreover have "(bitmap_set i UINT64_MAX s)\<lparr>mem := m\<rparr> = s\<lparr>mem := m\<rparr>" for m
      by (simp add: bitmap_set_def)
    ultimately show ?thesis
      using True "1.IH" [OF True] by (simp only: init_all_used.simps [of i s] if_True bitmap_set_fields)
  qed
qed

lemma init_all_used_fields [simp]:
  "bitmap (init_all_used i s) = bitmap s" "bitmap_phys (init_all_used i s) = bitmap_phys s"
  "bitmap_words (init_all_used i s) = bitmap_words s" "bitmap_bytes (init_all_used i s) = bitmap_bytes s"
  "frame_count (init_all_used i s) = frame_count s" "g_hhdm_offset (init_all_used i s) = g_hhdm_offset s"
  "msrs (init_all_used i s) = msrs s" "cr3 (init_all_used i s) = cr3 s" "klog (init_all_used i s) = klog s"
  "free_frame_count (init_all_used i s) = free_frame_count s"
  by (simp_all add: init_all_used_eq)

lemma free_frames_init_all_used:
  assumes "bitmap_shape s"
  shows "free_frames (init_all_used 0 s) = {}"
proof -
  have max: "(UINT64_MAX :: u64) = mask 64" by (simp add: mask_eq_exp_minus_1)
  have "frame_used (init_all_used 0 s) f" if v: "frame_valid s f" for f
  proof -
    have "bitmap_get (init_all_used 0 s) (f div kWordBits) = UINT64_MAX"
      using frame_word_in_range [OF assms v] by (auto simp: bitmap_get_def init_all_used_eq)
    then show ?thesis
      using frame_mod_less [of f] unfolding frame_used_def max by (simp only: bit_mask_iff) simp
  qed
  then show ?thesis
    by (auto simp: free_frames_def frame_valid_def)
qed

text \<open>The valid frames of a half-open interval.\<close>

definition frames_in :: "machine \<Rightarrow> u64 \<Rightarrow> u64 \<Rightarrow> u64 set" where
  "frames_in s a b = {f. a \<le> f \<and> f < b \<and> frame_valid s f}"

lemma frames_in_step:
  assumes "a < b"
  shows "frames_in s a b = (if frame_valid s a then insert a (frames_in s (a + 1) b) else frames_in s (a + 1) b)"
proof -
  have "a \<le> f \<longleftrightarrow> f = a \<or> a + 1 \<le> f" for f
    using unat_Suc_less [OF assms] by (auto simp: word_le_nat_alt le_Suc_eq Suc_le_eq intro: unat_eqI)
  with assms show ?thesis by (auto simp: frames_in_def)
qed

lemma frames_in_not_start: "a < b \<Longrightarrow> a \<notin> frames_in s (a + 1) b"
  using unat_Suc_less [of a b] by (simp add: frames_in_def word_le_nat_alt)

lemma frames_in_empty: "\<not> a < b \<Longrightarrow> frames_in s a b = {}"
  by (auto simp: frames_in_def)

lemma frames_in_cong: "frame_count t = frame_count s \<Longrightarrow> frames_in t a b = frames_in s a b"
  by (simp add: frames_in_def frame_valid_def)

text \<open>What the phases leave alone.\<close>

definition same_layout :: "machine \<Rightarrow> machine \<Rightarrow> bool" where
  "same_layout t s \<longleftrightarrow> bitmap t = bitmap s \<and> bitmap_phys t = bitmap_phys s \<and>
     bitmap_words t = bitmap_words s \<and> bitmap_bytes t = bitmap_bytes s \<and> frame_count t = frame_count s \<and>
     g_hhdm_offset t = g_hhdm_offset s \<and> msrs t = msrs s \<and> cr3 t = cr3 s \<and> klog t = klog s \<and>
     (bitmap_shape s \<longrightarrow> (\<forall>p. p \<notin> bitmap_cells s \<longrightarrow> mem t p = mem s p))"

lemma same_layout_refl [simp]: "same_layout s s"
  by (simp add: same_layout_def)

lemma same_layout_trans: "same_layout u t \<Longrightarrow> same_layout t s \<Longrightarrow> same_layout u s"
  by (auto simp: same_layout_def bitmap_shape_def bitmap_cells_def)

lemma same_layout_shape: "same_layout t s \<Longrightarrow> bitmap_shape t = bitmap_shape s"
  by (simp add: same_layout_def bitmap_shape_def)

lemma same_layout_steps:
  "same_layout ((set_frame_free f s)\<lparr>free_frame_count := n\<rparr>) s"
  "same_layout (set_frame_used f s) s"
  "same_layout (s\<lparr>free_frame_count := n\<rparr>) s"
  by (simp_all add: same_layout_def mem_set_frame_other)

lemma free_region_frames_effect:
  "same_layout (free_region_frames a b s) s \<and>
   free_frames (free_region_frames a b s) = free_frames s \<union> frames_in s a b \<and>
   free_frame_count (free_region_frames a b s) = free_frame_count s + of_nat (card (frames_in s a b))"
proof (induction a b s rule: free_region_frames.induct)
  case (1 a b s)
  show ?case
  proof (cases "a < b")
    case False
    then show ?thesis by (simp add: free_region_frames.simps [of a b s] frames_in_empty)
  next
    case less: True
    show ?thesis
    proof (cases "frame_valid s a")
      case False
      with less "1.IH"(1) [OF less False] show ?thesis
        by (simp add: free_region_frames.simps [of a b s] frames_in_step)
    next
      case True
      let ?t = "(set_frame_free a s)\<lparr>free_frame_count := free_frame_count (set_frame_free a s) + 1\<rparr>"
      have eq: "free_region_frames a b s = free_region_frames (a + 1) b ?t"
        using less True by (simp add: free_region_frames.simps [of a b s])
      have t: "free_frames ?t = insert a (free_frames s)" "frames_in ?t (a + 1) b = frames_in s (a + 1) b"
        using True by (simp_all add: free_frames_set_free frames_in_def)
      have "finite (frames_in s (a + 1) b)" by (rule finite)
      then have "card (frames_in s a b) = Suc (card (frames_in s (a + 1) b))"
        using less True frames_in_not_start [OF less] by (simp add: frames_in_step)
      moreover note IH = "1.IH"(2) [OF less, simplified, OF True refl, folded eq, unfolded t]
      moreover have "same_layout (free_region_frames a b s) s"
        using IH same_layout_steps(1) by (blast intro: same_layout_trans)
      ultimately show ?thesis
        using less True by (simp add: frames_in_step free_frames_set_free)
    qed
  qed
qed

lemma reserve_frames_effect:
  "same_layout (reserve_frames a b s) s \<and>
   free_frames (reserve_frames a b s) = free_frames s - frames_in s a b \<and>
   free_frame_count (reserve_frames a b s) =
     free_frame_count s - of_nat (card (free_frames s \<inter> frames_in s a b))"
proof (induction a b s rule: reserve_frames.induct)
  case (1 a b s)
  show ?case
  proof (cases "a < b")
    case False
    then show ?thesis by (simp add: reserve_frames.simps [of a b s] frames_in_empty)
  next
    case less: True
    show ?thesis
    proof (cases "frame_valid s a")
      case False
      with less "1.IH"(1) [OF less False] show ?thesis
        by (simp add: reserve_frames.simps [of a b s] frames_in_step)
    next
      case True
      let ?u = "if \<not> frame_used s a then s\<lparr>free_frame_count := free_frame_count s - 1\<rparr> else s"
      let ?t = "set_frame_used a ?u"
      have eq: "reserve_frames a b s = reserve_frames (a + 1) b ?t"
        using less True by (simp add: reserve_frames.simps [of a b s] Let_def frame_used_test [simplified])
      have lay: "same_layout ?t s"
        by (auto intro: same_layout_trans same_layout_steps)
      have t: "free_frames ?t = free_frames s - {a}" "frames_in ?t (a + 1) b = frames_in s (a + 1) b"
        by (simp_all add: free_frames_set_used frames_in_def)
      have "card (free_frames s \<inter> insert a (frames_in s (a + 1) b)) =
          (if frame_used s a then 0 else 1) + card ((free_frames s - {a}) \<inter> frames_in s (a + 1) b)"
        using frames_in_not_start [OF less, of s] True
        by (simp add: Int_insert_right mem_free_frames_iff Diff_Int_distrib2 insert_absorb)
      moreover note IH = "1.IH"(2) [OF less, simplified, OF True refl refl refl,
          unfolded frame_used_test [simplified], folded eq, unfolded t]
      moreover have "same_layout (reserve_frames a b s) s"
        using IH lay by (blast intro: same_layout_trans)
      moreover have "free_frame_count ?u = free_frame_count s - (if frame_used s a then 0 else 1)"
        by simp
      ultimately show ?thesis
        using less True by (auto simp: frames_in_step diff_diff_eq)
    qed
  qed
qed

section \<open>The memory map\<close>

text \<open>The frames phase 2 frees for one region.\<close>

definition region_frames :: "machine \<Rightarrow> MemoryRegion \<Rightarrow> u64 set" where
  "region_frames s r =
     (if type_of r = Usable
      then frames_in s ((base r + kPageSize - 1) div kPageSize) ((base r + length_of r) div kPageSize)
      else {})"

lemma region_frames_cong: "frame_count t = frame_count s \<Longrightarrow> region_frames t r = region_frames s r"
  by (simp add: region_frames_def frames_in_def frame_valid_def)

lemma init_free_regions_effect:
  "same_layout (init_free_regions regions s) s \<and>
   free_frames (init_free_regions regions s) = free_frames s \<union> (\<Union>r\<in>set regions. region_frames s r) \<and>
   free_frame_count (init_free_regions regions s) =
     free_frame_count s + of_nat (\<Sum>r\<leftarrow>regions. card (region_frames s r))"
proof (induction regions arbitrary: s)
  case Nil
  then show ?case by simp
next
  case (Cons r regions)
  show ?case
  proof (cases "type_of r = Usable")
    case False
    with Cons.IH [of s] show ?thesis by (simp add: region_frames_def)
  next
    case True
    let ?a = "(base r + kPageSize - 1) div kPageSize" and ?b = "(base r + length_of r) div kPageSize"
    let ?t = "free_region_frames ?a ?b s"
    have rf: "region_frames s r = frames_in s ?a ?b"
      unfolding region_frames_def using True by (rule if_P)
    have t: "same_layout ?t s" "free_frames ?t = free_frames s \<union> region_frames s r"
      "free_frame_count ?t = free_frame_count s + of_nat (card (region_frames s r))"
      using free_region_frames_effect [of ?a ?b s] unfolding rf by blast+
    have "region_frames ?t q = region_frames s q" for q
      using t(1) by (intro region_frames_cong) (simp add: same_layout_def)
    moreover have eq: "init_free_regions (r # regions) s = init_free_regions regions ?t"
      using True by simp
    moreover have "same_layout (init_free_regions (r # regions) s) s"
      using Cons.IH [of ?t] t(1) unfolding eq by (blast intro: same_layout_trans)
    ultimately show ?thesis
      using Cons.IH [of ?t] t(2,3) by (simp add: Un_assoc add.assoc)
  qed
qed

text \<open>The highest usable end found by the first loop.\<close>

fun usable_top :: "MemoryRegion list \<Rightarrow> u64 \<Rightarrow> u64" where
  "usable_top [] h = h"
| "usable_top (r # rs) h =
     usable_top rs (if type_of r = Usable then max h (base r + length_of r) else h)"

fun usable_sum :: "MemoryRegion list \<Rightarrow> u64 \<Rightarrow> u64" where
  "usable_sum [] b = b"
| "usable_sum (r # rs) b = usable_sum rs (if type_of r = Usable then b + length_of r else b)"

definition map_line :: "MemoryRegion \<Rightarrow> kcall" where
  "map_line r = Kprintf ''  %p - %p  length=%lu  type=%s\<newline>''
     [Ptr (base r), Ptr (base r + length_of r), Word (length_of r),
      CStr (Some (region_type_name (type_of r)))]"

lemma init_scan_eq:
  "init_scan regions h b s =
     (usable_top regions h, usable_sum regions b, s\<lparr>klog := klog s @ map map_line regions\<rparr>)"
  by (induction regions arbitrary: h b s)
    (auto simp: Let_def log_printf_def map_line_def max_def not_less)

lemma usable_top_ge: "h \<le> usable_top regions h"
  by (induction regions arbitrary: h) (auto intro: order_trans [OF max.cobounded1])

lemma usable_top_upper:
  "r \<in> set regions \<Longrightarrow> type_of r = Usable \<Longrightarrow> base r + length_of r \<le> usable_top regions h"
proof (induction regions arbitrary: h)
  case (Cons q regions)
  show ?case
  proof (cases "r = q")
    case True
    with Cons.prems(2) show ?thesis
      using usable_top_ge [of "max h (base q + length_of q)" regions] by simp
  next
    case False
    with Cons show ?thesis by simp
  qed
qed simp

lemma usable_top_attained:
  "usable_top regions h = h \<or>
   (\<exists>r\<in>set regions. type_of r = Usable \<and> usable_top regions h = base r + length_of r)"
proof (induction regions arbitrary: h)
  case (Cons q regions)
  show ?case
    using Cons [of "if type_of q = Usable then max h (base q + length_of q) else h"]
    by (auto simp: max_def split: if_splits)
qed simp

lemma find_bitmap_region_Some:
  "find_bitmap_region regions pages = Some a \<Longrightarrow>
     \<exists>r\<in>set regions. type_of r = Usable \<and> a = base r \<and> pages * kPageSize \<le> length_of r"
  by (induction regions) (auto simp: Let_def split: if_splits)

lemma find_bitmap_region_None:
  "find_bitmap_region regions pages = None \<longleftrightarrow>
     (\<forall>r\<in>set regions. type_of r = Usable \<longrightarrow> length_of r < pages * kPageSize)"
  by (induction regions) (auto simp: Let_def not_le)

section \<open>The state after initialisation\<close>

text \<open>The sizes \<open>init\<close> computes from the highest usable address.\<close>

definition init_frame_count :: "MemoryRegion list \<Rightarrow> u64" where
  "init_frame_count regions = (usable_top regions 0 + kPageSize - 1) div kPageSize"

definition init_words :: "MemoryRegion list \<Rightarrow> u64" where
  "init_words regions = (init_frame_count regions + kWordBits - 1) div kWordBits"

definition init_pages :: "MemoryRegion list \<Rightarrow> u64" where
  "init_pages regions = (init_words regions * 8 + kPageSize - 1) div kPageSize"

text \<open>The state when the bitmap is about to be filled.\<close>

definition init_ready :: "MemoryRegion list \<Rightarrow> u64 \<Rightarrow> u64 \<Rightarrow> machine \<Rightarrow> machine \<Rightarrow> bool" where
  "init_ready regions hhdm phys s s0 \<longleftrightarrow> mem s0 = mem s \<and> g_hhdm_offset s0 = hhdm \<and>
     frame_count s0 = init_frame_count regions \<and> bitmap_words s0 = init_words regions \<and>
     bitmap_bytes s0 = init_words regions * 8 \<and> bitmap_phys s0 = phys \<and> bitmap s0 = hhdm + phys \<and>
     msrs s0 = msrs s \<and> cr3 s0 = cr3 s"

lemmas init_sizes = init_pages_def init_words_def init_frame_count_def

lemma pmm_init_Ret:
  assumes "pmm_init regions hhdm s = Ret u t"
  shows "usable_top regions 0 \<noteq> 0 \<and>
    (\<exists>s0 phys. init_ready regions hhdm phys s s0 \<and>
       find_bitmap_region regions (init_pages regions) = Some phys \<and>
       t = init_fill_bitmap regions (init_pages regions) s0)"
proof -
  have top: "usable_top regions 0 \<noteq> 0"
    using assms by (auto simp: pmm_init_def Let_def init_scan_eq)
  then obtain phys where f: "find_bitmap_region regions (init_pages regions) = Some phys"
    using assms by (auto simp: pmm_init_def Let_def init_scan_eq init_sizes split: option.splits)
  have "\<exists>s0. t = init_fill_bitmap regions (init_pages regions) s0 \<and> init_ready regions hhdm phys s s0"
    using assms top f
    unfolding pmm_init_def Let_def init_scan_eq init_sizes init_ready_def
    by (intro exI conjI) (simp, rule sym, assumption, simp_all)
  with top f show ?thesis by blast
qed

lemma init_fill_bitmap_effect:
  fixes regions :: "MemoryRegion list" and pages :: u64
  assumes "bitmap_shape s"
  defines "t \<equiv> init_fill_bitmap regions pages s"
    and "own \<equiv> frames_in s (bitmap_phys s div kPageSize) (bitmap_phys s div kPageSize + pages)"
    and "usable \<equiv> (\<Union>r\<in>set regions. region_frames s r)"
  shows "free_frames t = usable - own"
    "free_frame_count t =
       of_nat (\<Sum>r\<leftarrow>regions. card (region_frames s r)) - of_nat (card (usable \<inter> own))"
    "bitmap t = bitmap s" "bitmap_phys t = bitmap_phys s" "bitmap_words t = bitmap_words s"
    "bitmap_bytes t = bitmap_bytes s" "frame_count t = frame_count s" "g_hhdm_offset t = g_hhdm_offset s"
    "msrs t = msrs s" "cr3 t = cr3 s" "p \<notin> bitmap_cells s \<Longrightarrow> mem t p = mem s p"
proof -
  let ?s1 = "(init_all_used 0 s)\<lparr>free_frame_count := 0\<rparr>"
  let ?s2 = "init_free_regions regions ?s1"
  let ?s3 = "reserve_frames (bitmap_phys s div kPageSize) (bitmap_phys s div kPageSize + pages) ?s2"
  have s1: "frame_count ?s1 = frame_count s" "free_frames ?s1 = {}" "bitmap_cells ?s1 = bitmap_cells s"
    "bitmap_shape ?s1"
    using assms(1) by (simp_all add: free_frames_init_all_used bitmap_cells_def bitmap_shape_def)
  note e2 = init_free_regions_effect [of regions ?s1]
  note e3 = reserve_frames_effect [of "bitmap_phys s div kPageSize" "bitmap_phys s div kPageSize + pages" ?s2]
  have lay: "same_layout ?s3 ?s1" using e2 e3 by (blast intro: same_layout_trans)
  have fc: "frame_count ?s2 = frame_count s" using e2 by (simp add: same_layout_def)
  have rf: "region_frames ?s1 r = region_frames s r" for r
    by (rule region_frames_cong) simp
  have bp: "bitmap_phys ?s2 = bitmap_phys s" using e2 by (simp add: same_layout_def)
  have own: "frames_in ?s2 a b = frames_in s a b" for a b
    using fc by (rule frames_in_cong)
  have t: "\<exists>l. t = ?s3\<lparr>klog := l\<rparr>"
    unfolding t_def init_fill_bitmap_def Let_def bp log_printf_def by auto
  then obtain l where t: "t = ?s3\<lparr>klog := l\<rparr>" ..
  have ft: "free_frames t = free_frames ?s3"
    by (simp add: t free_frames_def frame_valid_def frame_used_def bitmap_get_def)
  show "free_frames t = usable - own"
    using e2 e3 unfolding ft own own_def usable_def rf s1(2) by simp
  show "free_frame_count t =
       of_nat (\<Sum>r\<leftarrow>regions. card (region_frames s r)) - of_nat (card (usable \<inter> own))"
    using e2 e3 unfolding t own own_def usable_def rf s1(2) by simp
  show "bitmap t = bitmap s" "bitmap_phys t = bitmap_phys s" "bitmap_words t = bitmap_words s"
    "bitmap_bytes t = bitmap_bytes s" "frame_count t = frame_count s" "g_hhdm_offset t = g_hhdm_offset s"
    "msrs t = msrs s" "cr3 t = cr3 s"
    using lay by (simp_all add: t same_layout_def)
  show "mem t p = mem s p" if p: "p \<notin> bitmap_cells s"
  proof -
    have "mem t p = mem ?s1 p"
      using lay p s1(3,4) by (simp add: t same_layout_def)
    also have "\<dots> = mem s p"
      using p by (auto simp: init_all_used_eq bitmap_cells_def)
    finally show ?thesis .
  qed
qed

section \<open>Frames and bytes\<close>

text \<open>
  A usable region that does not wrap around the address space, with room for rounding up. The
  boot protocol reports physical ranges, so real maps satisfy it.
\<close>

definition usable_in_range :: "MemoryRegion list \<Rightarrow> bool" where
  "usable_in_range regions \<longleftrightarrow>
     (\<forall>r\<in>set regions. type_of r = Usable \<longrightarrow> unat (base r) + unat (length_of r) + 4096 \<le> 2 ^ 64)"

text \<open>Frame \<open>f\<close> lies completely inside region \<open>r\<close>.\<close>

definition frame_inside :: "u64 \<Rightarrow> MemoryRegion \<Rightarrow> bool" where
  "frame_inside f r \<longleftrightarrow> unat (base r) \<le> 4096 * unat f \<and>
     4096 * (unat f + 1) \<le> unat (base r) + unat (length_of r)"

lemma unat_kPageSize [simp]: "unat kPageSize = 4096"
  by (simp add: kPageSize_def)

lemma unat_page_up:
  "unat x + 4095 < 2 ^ 64 \<Longrightarrow> unat ((x + kPageSize - 1) div kPageSize) = (unat x + 4095) div 4096"
proof -
  assume "unat x + 4095 < 2 ^ 64"
  then have "unat (x + 4095) = unat x + 4095"
    by (subst unat_add_nowrap) simp_all
  moreover have "x + kPageSize - 1 = x + 4095" by (simp add: kPageSize_def)
  ultimately show ?thesis by (simp only: unat_div unat_kPageSize)
qed

lemma region_frames_iff:
  assumes "usable_in_range regions" "r \<in> set regions" "type_of r = Usable"
  shows "f \<in> region_frames s r \<longleftrightarrow> frame_inside f r \<and> frame_valid s f"
proof -
  have r: "unat (base r) + unat (length_of r) + 4096 \<le> 2 ^ 64"
    using assms by (simp add: usable_in_range_def)
  then have a: "unat ((base r + kPageSize - 1) div kPageSize) = (unat (base r) + 4095) div 4096"
    by (intro unat_page_up) simp
  have b: "unat ((base r + length_of r) div kPageSize) = (unat (base r) + unat (length_of r)) div 4096"
    using r by (simp add: unat_div unat_add_nowrap)
  show ?thesis
    unfolding region_frames_def frames_in_def frame_inside_def if_P [OF assms(3)] mem_Collect_eq
      word_le_nat_alt word_less_nat_alt a b page_up_le_iff less_page_down_iff by blast
qed

lemma unat_usable_top:
  assumes "usable_in_range regions"
  shows "unat (usable_top regions 0) + 4096 \<le> 2 ^ 64"
    "r \<in> set regions \<Longrightarrow> type_of r = Usable \<Longrightarrow>
       unat (base r) + unat (length_of r) \<le> unat (usable_top regions 0)"
proof -
  have e: "unat (base r + length_of r) = unat (base r) + unat (length_of r)"
    "unat (base r) + unat (length_of r) + 4096 \<le> 2 ^ 64"
    if "r \<in> set regions" "type_of r = Usable" for r
    using assms that by (auto simp: usable_in_range_def intro!: unat_add_nowrap)
  show "unat (usable_top regions 0) + 4096 \<le> 2 ^ 64"
    using usable_top_attained [of regions 0]
  proof
    assume "\<exists>r\<in>set regions. type_of r = Usable \<and> usable_top regions 0 = base r + length_of r"
    then show ?thesis using e by metis
  qed simp
  show "unat (base r) + unat (length_of r) \<le> unat (usable_top regions 0)"
    if "r \<in> set regions" "type_of r = Usable"
    using usable_top_upper [OF that, of 0] e [OF that] by (simp add: word_le_nat_alt)
qed

lemma unat_init_frame_count:
  assumes "usable_in_range regions"
  shows "unat (init_frame_count regions) = (unat (usable_top regions 0) + 4095) div 4096"
  unfolding init_frame_count_def using unat_usable_top(1) [OF assms] by (intro unat_page_up) simp

lemma inside_is_valid:
  assumes "usable_in_range regions" "r \<in> set regions" "type_of r = Usable" "frame_inside f r"
    "frame_count s = init_frame_count regions"
  shows "frame_valid s f"
proof -
  have "4096 * (unat f + 1) \<le> unat (usable_top regions 0)"
    using assms(4) unat_usable_top(2) [OF assms(1-3)] by (simp add: frame_inside_def)
  then have "unat f < (unat (usable_top regions 0) + 4095) div 4096"
    unfolding less_page_down_iff by simp
  then show ?thesis
    by (simp add: frame_valid_def word_less_nat_alt assms(5) unat_init_frame_count [OF assms(1)])
qed

lemma div_4096_bound: "unat (x div kPageSize) < 2 ^ 52"
  using u64_bound [of x] by (simp add: unat_div)

lemma init_shape:
  assumes "init_ready regions hhdm phys s s0"
  shows "bitmap_shape s0"
  using assms div_4096_bound [of "usable_top regions 0 + kPageSize - 1"]
  by (simp add: bitmap_shape_def init_ready_def init_words_def init_frame_count_def)

lemma unat_init_pages:
  "unat (init_words regions) \<le> 2 ^ 46 + 1"
  "unat (init_words regions * 8) = unat (init_words regions) * 8"
  "unat (init_pages regions) = (unat (init_words regions) * 8 + 4095) div 4096"
proof -
  have "unat (init_frame_count regions) < 2 ^ 52"
    unfolding init_frame_count_def by (rule div_4096_bound)
  then have "unat (init_frame_count regions + 63) = unat (init_frame_count regions) + 63"
    by (subst unat_add_nowrap) simp_all
  moreover have "init_frame_count regions + kWordBits - 1 = init_frame_count regions + 63"
    by (simp add: kWordBits_def)
  ultimately have w: "unat (init_words regions) = (unat (init_frame_count regions) + 63) div 64"
    by (simp only: init_words_def unat_frame_div)
  then show le: "unat (init_words regions) \<le> 2 ^ 46 + 1"
    using \<open>unat (init_frame_count regions) < 2 ^ 52\<close> by simp
  then show m: "unat (init_words regions * 8) = unat (init_words regions) * 8"
    by (subst unat_mult_nowrap) simp_all
  show "unat (init_pages regions) = (unat (init_words regions) * 8 + 4095) div 4096"
    unfolding init_pages_def using le m by (subst unat_page_up) simp_all
qed

text \<open>
  The frames \<open>init\<close> reserves for the bitmap, and the frames that hold a byte of the bitmap, as frame
  numbers. They are the same when the bitmap starts on a page boundary.
\<close>

definition bitmap_frames :: "machine \<Rightarrow> nat set" where
  "bitmap_frames s = {n. 4096 * n < unat (bitmap_phys s) + unat (bitmap_bytes s) \<and> unat (bitmap_phys s) < 4096 * (n + 1)}"

definition reserved_frames :: "machine \<Rightarrow> nat set" where
  "reserved_frames s = {unat (bitmap_phys s) div 4096 ..<
     unat (bitmap_phys s) div 4096 + (unat (bitmap_bytes s) + 4095) div 4096}"

lemma reserved_frames_aligned:
  assumes "page_aligned (bitmap_phys s)"
  shows "reserved_frames s = bitmap_frames s"
proof -
  obtain b where b: "unat (bitmap_phys s) = 4096 * b"
    using assms by (metis add.right_neutral mult_div_mod_eq page_aligned_iff)
  have "n \<in> reserved_frames s \<longleftrightarrow> n \<in> bitmap_frames s" for n
    using page_up_le_iff [of "unat (bitmap_bytes s)" "n - b"]
    by (cases "b \<le> n") (auto simp: reserved_frames_def bitmap_frames_def b)
  then show ?thesis by blast
qed

lemma frames_in_bitmap:
  assumes "init_ready regions hhdm phys s s0"
  shows "f \<in> frames_in s0 (phys div kPageSize) (phys div kPageSize + init_pages regions) \<longleftrightarrow>
    unat f \<in> reserved_frames s0 \<and> frame_valid s0 f"
proof -
  have p: "unat (phys div kPageSize) < 2 ^ 52" by (rule div_4096_bound)
  have "unat (init_pages regions) \<le> 2 ^ 40"
    using unat_init_pages(1) [of regions] by (simp add: unat_init_pages(3))
  then have "unat (phys div kPageSize + init_pages regions) =
      unat (phys div kPageSize) + unat (init_pages regions)"
    using p by (intro unat_add_nowrap) simp
  then show ?thesis
    using assms unat_init_pages(2) [of regions]
    by (auto simp: frames_in_def reserved_frames_def init_ready_def word_le_nat_alt word_less_nat_alt
        unat_init_pages(3) unat_div)
qed

lemma init_bitmap_region:
  assumes "usable_in_range regions" "find_bitmap_region regions (init_pages regions) = Some phys"
  shows "\<exists>r\<in>set regions. type_of r = Usable \<and> phys = base r \<and>
    4096 * unat (init_pages regions) \<le> unat (length_of r)"
proof -
  obtain r where r: "r \<in> set regions" "type_of r = Usable" "phys = base r"
    "init_pages regions * kPageSize \<le> length_of r"
    using find_bitmap_region_Some [OF assms(2)] by blast
  have "unat (init_pages regions) \<le> 2 ^ 40"
    using unat_init_pages(1) [of regions] by (simp add: unat_init_pages(3))
  then have "unat (init_pages regions * kPageSize) = unat (init_pages regions) * 4096"
    by (subst unat_mult_nowrap) simp_all
  with r show ?thesis by (auto simp: word_le_nat_alt mult.commute)
qed

lemma pmm_init_free_frames:
  assumes "usable_in_range regions" "pmm_init regions hhdm s = Ret u t"
  shows "f \<in> free_frames t \<longleftrightarrow>
    (\<exists>r\<in>set regions. type_of r = Usable \<and> frame_inside f r) \<and> unat f \<notin> reserved_frames t"
proof -
  obtain s0 phys where s0: "init_ready regions hhdm phys s s0"
    and t: "t = init_fill_bitmap regions (init_pages regions) s0"
    using pmm_init_Ret [OF assms(2)] by blast
  note e = init_fill_bitmap_effect [OF init_shape [OF s0], where regions = regions and pages = "init_pages regions",
      folded t]
  have bp: "bitmap_phys s0 = phys" and fc: "frame_count s0 = init_frame_count regions"
    using s0 by (simp_all add: init_ready_def)
  have bf: "reserved_frames t = reserved_frames s0"
    by (simp add: reserved_frames_def e)
  have reg: "f \<in> region_frames s0 r \<longleftrightarrow> type_of r = Usable \<and> frame_inside f r" if "r \<in> set regions" for r
    using region_frames_iff [OF assms(1) that] inside_is_valid [OF assms(1) that _ _ fc]
    by (cases "type_of r = Usable") (auto simp: region_frames_def)
  then have "f \<in> (\<Union>r\<in>set regions. region_frames s0 r) \<longleftrightarrow>
      (\<exists>r\<in>set regions. type_of r = Usable \<and> frame_inside f r)"
    by auto
  moreover have "frame_valid s0 f" if "r \<in> set regions" "type_of r = Usable" "frame_inside f r" for r
    using inside_is_valid [OF assms(1) that fc] .
  ultimately show ?thesis
    unfolding e(1) bp bf using frames_in_bitmap [OF s0, of f] by blast
qed

text \<open>Regions that share no byte.\<close>

fun usable_disjoint :: "MemoryRegion list \<Rightarrow> bool" where
  "usable_disjoint [] = True"
| "usable_disjoint (r # rs) \<longleftrightarrow> usable_disjoint rs \<and>
     (type_of r = Usable \<longrightarrow> (\<forall>q\<in>set rs. type_of q = Usable \<longrightarrow>
        unat (base r) + unat (length_of r) \<le> unat (base q) \<or> unat (base q) + unat (length_of q) \<le> unat (base r)))"

lemma frame_inside_apart:
  assumes "unat (base r) + unat (length_of r) \<le> unat (base q) \<or> unat (base q) + unat (length_of q) \<le> unat (base r)"
    "frame_inside f r"
  shows "\<not> frame_inside f q"
  using assms by (auto simp: frame_inside_def)

lemma card_region_frames:
  "usable_in_range regions \<Longrightarrow> usable_disjoint regions \<Longrightarrow>
     card (\<Union>r\<in>set regions. region_frames s r) = (\<Sum>r\<leftarrow>regions. card (region_frames s r))"
proof (induction regions)
  case (Cons r regions)
  have ok: "usable_in_range regions" using Cons.prems(1) by (simp add: usable_in_range_def)
  have "region_frames s r \<inter> (\<Union>q\<in>set regions. region_frames s q) = {}"
  proof (rule ccontr)
    assume "region_frames s r \<inter> (\<Union>q\<in>set regions. region_frames s q) \<noteq> {}"
    then obtain f q where f: "f \<in> region_frames s r" "q \<in> set regions" "f \<in> region_frames s q"
      by blast
    then have u: "type_of r = Usable" "type_of q = Usable"
      by (auto simp: region_frames_def split: if_splits)
    then have "frame_inside f r" "frame_inside f q"
      using f region_frames_iff [OF Cons.prems(1), of _ f s] by auto
    with u f(2) Cons.prems(2) show False
      using frame_inside_apart [of r q f] by auto
  qed
  moreover have "finite (region_frames s r)" "finite (\<Union>q\<in>set regions. region_frames s q)"
    by (rule finite)+
  ultimately show ?case
    using Cons.IH [OF ok] Cons.prems(2) by (simp add: card_Un_disjoint)
qed simp

lemma pmm_init_shape:
  assumes "pmm_init regions hhdm s = Ret u t"
  shows "bitmap_shape t" "bitmap t = hhdm + bitmap_phys t" "g_hhdm_offset t = hhdm"
    "bitmap_bytes t = bitmap_words t * 8" "frame_count t = init_frame_count regions"
    "bitmap_words t = init_words regions" "msrs t = msrs s" "cr3 t = cr3 s"
    "p \<notin> bitmap_cells t \<Longrightarrow> mem t p = mem s p"
proof -
  obtain s0 phys where s0: "init_ready regions hhdm phys s s0"
    and t: "t = init_fill_bitmap regions (init_pages regions) s0"
    using pmm_init_Ret [OF assms] by blast
  note e = init_fill_bitmap_effect [OF init_shape [OF s0], where regions = regions and pages = "init_pages regions",
      folded t]
  show "bitmap_shape t" using init_shape [OF s0] by (simp add: bitmap_shape_def e)
  show "bitmap t = hhdm + bitmap_phys t" "g_hhdm_offset t = hhdm" "bitmap_bytes t = bitmap_words t * 8"
    "frame_count t = init_frame_count regions" "bitmap_words t = init_words regions"
    "msrs t = msrs s" "cr3 t = cr3 s"
    using s0 by (simp_all add: e init_ready_def)
  show "mem t p = mem s p" if "p \<notin> bitmap_cells t"
    using that e(11) [of p] s0 by (simp add: bitmap_cells_def e init_ready_def)
qed

lemma pmm_init_wf:
  assumes "usable_in_range regions" "usable_disjoint regions" "pmm_init regions hhdm s = Ret u t"
  shows "pmm_wf t"
proof -
  obtain s0 phys where s0: "init_ready regions hhdm phys s s0"
    and t: "t = init_fill_bitmap regions (init_pages regions) s0"
    using pmm_init_Ret [OF assms(3)] by blast
  note e = init_fill_bitmap_effect [OF init_shape [OF s0], where regions = regions and pages = "init_pages regions",
      folded t]
  let ?u = "\<Union>r\<in>set regions. region_frames s0 r"
  let ?o = "frames_in s0 (bitmap_phys s0 div kPageSize) (bitmap_phys s0 div kPageSize + init_pages regions)"
  have "card (?u \<inter> ?o) \<le> card ?u" by (rule card_mono) (auto intro: finite)
  moreover have "card (?u - ?o) = card ?u - card (?u \<inter> ?o)"
    by (rule card_Diff_subset_Int) (rule finite)
  ultimately have "free_frame_count t = of_nat (card (free_frames t))"
    unfolding e(1,2) card_region_frames [OF assms(1,2), symmetric] by (simp only: of_nat_diff)
  then show ?thesis using pmm_init_shape(1) [OF assms(3)] by (simp add: pmm_wf_def)
qed

lemma pmm_init_bitmap_phys:
  assumes "pmm_init regions hhdm s = Ret u t"
  shows "find_bitmap_region regions (init_pages regions) = Some (bitmap_phys t)"
    "unat (bitmap_bytes t) = unat (init_words regions) * 8"
proof -
  obtain s0 phys where s0: "init_ready regions hhdm phys s s0"
    and f: "find_bitmap_region regions (init_pages regions) = Some phys"
    and t: "t = init_fill_bitmap regions (init_pages regions) s0"
    using pmm_init_Ret [OF assms] by blast
  have "bitmap_phys t = phys"
    using init_fill_bitmap_effect(4) [OF init_shape [OF s0], where regions = regions and pages = "init_pages regions"]
      s0 by (simp add: t init_ready_def)
  with f show "find_bitmap_region regions (init_pages regions) = Some (bitmap_phys t)" by simp
  show "unat (bitmap_bytes t) = unat (init_words regions) * 8"
    by (simp add: pmm_init_shape [OF assms] unat_init_pages(2))
qed

lemma pmm_init_bitmap_region:
  assumes "usable_in_range regions" "pmm_init regions hhdm s = Ret u t"
  shows "\<exists>r\<in>set regions. type_of r = Usable \<and> bitmap_phys t = base r \<and>
    4096 * ((unat (bitmap_bytes t) + 4095) div 4096) \<le> unat (length_of r)"
  using init_bitmap_region [OF assms(1) pmm_init_bitmap_phys(1) [OF assms(2)]] pmm_init_bitmap_phys(2) [OF assms(2)]
  by (simp add: unat_init_pages(3))

lemma pmm_init_apart:
  assumes "usable_in_range regions" "\<forall>r\<in>set regions. type_of r = Usable \<longrightarrow> page_aligned (base r)"
    "pmm_init regions hhdm s = Ret u t" "f \<in> free_frames t"
  shows "4096 * unat f + 4096 \<le> unat (bitmap_phys t) \<or> unat (bitmap_phys t) + unat (bitmap_bytes t) \<le> 4096 * unat f"
proof -
  let ?n = "(unat (bitmap_bytes t) + 4095) div 4096"
  have "unat (bitmap_phys t) mod 4096 = 0"
    using assms(2) pmm_init_bitmap_region [OF assms(1,3)] by (auto simp: page_aligned_iff)
  then have q: "unat (bitmap_phys t) = 4096 * (unat (bitmap_phys t) div 4096)"
    by (metis add.right_neutral mult_div_mod_eq)
  have "unat f \<notin> reserved_frames t"
    using assms(4) pmm_init_free_frames [OF assms(1,3)] by blast
  then have "unat f < unat (bitmap_phys t) div 4096 \<or> unat (bitmap_phys t) div 4096 + ?n \<le> unat f"
    by (auto simp: reserved_frames_def)
  moreover have "unat (bitmap_bytes t) \<le> 4096 * ?n"
    using page_up_le_iff [of "unat (bitmap_bytes t)" ?n] by simp
  ultimately show ?thesis using q by linarith
qed

lemma pmm_init_returns:
  assumes "usable_top regions 0 \<noteq> 0" "find_bitmap_region regions (init_pages regions) = Some phys"
  shows "\<exists>t. pmm_init regions hhdm s = Ret () t"
  using assms by (simp add: pmm_init_def Let_def init_scan_eq init_sizes)

lemma usable_top_zero:
  "usable_top regions 0 = 0 \<longleftrightarrow> (\<forall>r\<in>set regions. type_of r = Usable \<longrightarrow> base r + length_of r = 0)"
proof
  assume z: "usable_top regions 0 = 0"
  show "\<forall>r\<in>set regions. type_of r = Usable \<longrightarrow> base r + length_of r = 0"
  proof (intro ballI impI)
    fix r
    assume "r \<in> set regions" "type_of r = Usable"
    from usable_top_upper [OF this, of 0] z show "base r + length_of r = 0" by simp
  qed
next
  assume "\<forall>r\<in>set regions. type_of r = Usable \<longrightarrow> base r + length_of r = 0"
  then show "usable_top regions 0 = 0" using usable_top_attained [of regions 0] by auto
qed

text \<open>The three ways \<open>init\<close> can end.\<close>

lemma pmm_init_outcome:
  "\<exists>s1 s2 s3. pmm_init regions hhdm s =
     (if usable_top regions 0 = 0 then Halt (log_printf ''fatal: no usable memory\<newline>'' [] s1)
      else if find_bitmap_region regions (init_pages regions) = None
      then Halt (log_printf ''fatal: no usable region large enough for bitmap\<newline>'' [] s2)
      else Ret () s3)"
  by (auto simp: pmm_init_def Let_def init_scan_eq init_sizes split: option.splits)

section \<open>Two memory maps\<close>

text \<open>The memory map of the project's own allocator test.\<close>

definition probe_regions :: "MemoryRegion list" where
  "probe_regions =
     [\<lparr>base = 0, length_of = 0x1000, type_of = Reserved\<rparr>,
      \<lparr>base = 0x1000, length_of = 0x1F000, type_of = Usable\<rparr>,
      \<lparr>base = 0x20000, length_of = 0x10000, type_of = Reserved\<rparr>,
      \<lparr>base = 0x30000, length_of = 0x8000, type_of = Usable\<rparr>]"

lemma probe_ok:
  "usable_in_range probe_regions" "usable_disjoint probe_regions" "usable_top probe_regions 0 = 0x38000"
  "find_bitmap_region probe_regions (init_pages probe_regions) = Some 0x1000"
  by (simp_all add: probe_regions_def usable_in_range_def init_sizes kPageSize_def kWordBits_def max_def Let_def)

lemma probe_returns: "\<exists>t. pmm_init probe_regions hhdm s = Ret () t"
  by (rule pmm_init_returns [of _ "0x1000"]) (simp_all add: probe_ok)

text \<open>A memory map whose first usable region is frame 0, too small for a bitmap of two pages.\<close>

definition low_regions :: "MemoryRegion list" where
  "low_regions = [\<lparr>base = 0, length_of = 0x1000, type_of = Usable\<rparr>, \<lparr>base = 0x100000, length_of = 0x8000000, type_of = Usable\<rparr>]"

lemma low_ok:
  "usable_in_range low_regions" "usable_disjoint low_regions"
  "\<forall>r\<in>set low_regions. type_of r = Usable \<longrightarrow> page_aligned (base r)" "usable_top low_regions 0 = 0x8100000"
  "find_bitmap_region low_regions (init_pages low_regions) = Some 0x100000"
  by (simp_all add: low_regions_def usable_in_range_def init_sizes kPageSize_def kWordBits_def max_def Let_def page_aligned_iff)

section \<open>Frame 0\<close>

lemma pmm_init_bitmap_bytes:
  assumes "pmm_init regions hhdm s = Ret u t" "frame_valid t f"
  shows "0 < unat (bitmap_bytes t)"
proof -
  have "bitmap_words t \<noteq> 0"
    using frame_word_in_range [OF pmm_init_shape(1) [OF assms(1)] assms(2)] by auto
  then have "unat (init_words regions) \<noteq> 0" by (simp add: pmm_init_shape(6) [OF assms(1)] unat_eq_0)
  then show ?thesis using pmm_init_bitmap_phys(2) [OF assms(1)] by simp
qed

lemma alloc_frame_zero_iff:
  assumes "pmm_wf s" "free_frames s \<noteq> {}"
  shows "fst (alloc_frame s) = 0 \<longleftrightarrow> 0 \<in> free_frames s"
proof -
  have m: "Min (free_frames s) \<in> free_frames s" by (rule pmm.Min_in_pool [OF assms(2)])
  then have "unat (Min (free_frames s)) < 2 ^ 52" using pmm.managed_bound pmm.pool_managed assms(1) by blast
  then have "unat (Min (free_frames s) * kPageSize) = unat (Min (free_frames s)) * 4096"
    by (subst unat_mult_nowrap) (simp_all add: kPageSize_def)
  then have "Min (free_frames s) * kPageSize = 0 \<longleftrightarrow> Min (free_frames s) = 0" by (metis mult_is_0 unat_eq_0 zero_neq_numeral)
  also have "\<dots> \<longleftrightarrow> 0 \<in> free_frames s" using m by (metis Min_le finite word_le_0_iff)
  finally show ?thesis by (simp add: pmm.alloc_least [OF assms])
qed

section \<open>Properties\<close>

text \<open>
  C17: when \<open>init\<close> returns for a memory map whose usable regions start on page boundaries and stay
  inside the address space, a frame is free exactly when it lies completely inside a usable region and
  holds no byte of the bitmap.
\<close>

theorem init_free_frames:
  assumes "usable_in_range regions" "\<forall>r\<in>set regions. type_of r = Usable \<longrightarrow> page_aligned (base r)"
    "pmm_init regions hhdm s = Ret u t"
  shows "f \<in> free_frames t \<longleftrightarrow>
    (\<exists>r\<in>set regions. type_of r = Usable \<and> frame_inside f r) \<and> unat f \<notin> bitmap_frames t"
proof -
  have "page_aligned (bitmap_phys t)" using pmm_init_bitmap_region [OF assms(1,3)] assms(2) by auto
  then show ?thesis using pmm_init_free_frames [OF assms(1,3)] reserved_frames_aligned by simp
qed

theorem init_free_frames_witness:
  "\<exists>t. pmm_init probe_regions 0 two_frames = Ret () t \<and> 1 \<notin> free_frames t \<and> 2 \<in> free_frames t \<and> 0x20 \<notin> free_frames t"
proof -
  obtain t where t: "pmm_init probe_regions 0 two_frames = Ret () t" using probe_returns by blast
  have p: "bitmap_phys t = 0x1000" "bitmap_bytes t = 8"
    using pmm_init_bitmap_phys(1) [OF t] pmm_init_bitmap_bytes [OF t] probe_ok(4)
    by (simp_all add: pmm_init_shape [OF t] probe_regions_def init_sizes kPageSize_def kWordBits_def max_def Let_def)
  have "\<forall>r\<in>set probe_regions. type_of r = Usable \<longrightarrow> page_aligned (base r)"
    by (simp add: probe_regions_def page_aligned_iff)
  note f = init_free_frames [OF probe_ok(1) this t]
  show ?thesis
    by (intro exI [of _ t] conjI t; unfold f) (auto simp: p probe_regions_def frame_inside_def bitmap_frames_def)
qed

text \<open>
  Without the alignment too few frames are reserved: for one usable region at 0x1800 of almost 80 MiB,
  \<open>init\<close> puts the bitmap at 0x1800 to 0x2200, reserves frame 1 only and hands out frame 2, which holds
  the end of the bitmap.
\<close>

theorem init_unaligned_bitmap_free:
  "\<exists>t. pmm_init [\<lparr>base = 0x1800, length_of = 0x4FFE800, type_of = Usable\<rparr>] hhdm s = Ret () t \<and>
     2 \<in> free_frames t \<and> 2 \<in> bitmap_frames t"
proof -
  let ?r = "[\<lparr>base = 0x1800, length_of = 0x4FFE800, type_of = Usable\<rparr>]"
  have p: "init_pages ?r = 1" "init_words ?r = 320"
    by (simp_all add: init_sizes init_pages_def init_words_def init_frame_count_def align_up_def kPageSize_def kWordBits_def max_def)
  have f: "find_bitmap_region ?r (init_pages ?r) = Some 0x1800" unfolding p by (simp add: kPageSize_def)
  obtain t where t: "pmm_init ?r hhdm s = Ret () t" using pmm_init_returns [OF _ f] by auto
  have b: "bitmap_phys t = 0x1800" "bitmap_bytes t = 2560"
    using pmm_init_bitmap_phys(1) [OF t] f pmm_init_shape [OF t] p(2) by simp_all
  have "usable_in_range ?r" by (simp add: usable_in_range_def)
  from pmm_init_free_frames [OF this t, of 2] have "2 \<in> free_frames t"
    by (simp add: frame_inside_def reserved_frames_def b)
  moreover have "2 \<in> bitmap_frames t" by (simp add: bitmap_frames_def b)
  ultimately show ?thesis using t by blast
qed

text \<open>
  C18: for a memory map with page-aligned, pairwise disjoint usable regions, \<open>init\<close> leaves a
  well-formed allocator whose counter equals the number of free frames; the bitmap lies inside a
  usable region, no free frame overlaps it, and no memory outside the bitmap was written.
\<close>

theorem init_establishes_invariant:
  assumes "usable_in_range regions" "usable_disjoint regions"
    "\<forall>r\<in>set regions. type_of r = Usable \<longrightarrow> page_aligned (base r)"
    "pmm_init regions hhdm s = Ret u t"
  shows "pmm_wf t \<and>
    (\<exists>r\<in>set regions. type_of r = Usable \<and> unat (base r) \<le> unat (bitmap_phys t) \<and>
       unat (bitmap_phys t) + unat (bitmap_bytes t) \<le> unat (base r) + unat (length_of r)) \<and>
    (\<forall>f\<in>free_frames t. 4096 * unat f + 4096 \<le> unat (bitmap_phys t) \<or>
       unat (bitmap_phys t) + unat (bitmap_bytes t) \<le> 4096 * unat f) \<and>
    (\<forall>p. p \<notin> bitmap_cells t \<longrightarrow> mem t p = mem s p)"
proof (intro conjI ballI allI impI)
  let ?n = "(unat (bitmap_bytes t) + 4095) div 4096"
  show "pmm_wf t" by (rule pmm_init_wf [OF assms(1,2,4)])
  obtain r where r: "r \<in> set regions" "type_of r = Usable" "bitmap_phys t = base r"
    "4096 * ?n \<le> unat (length_of r)"
    using pmm_init_bitmap_region [OF assms(1,4)] by blast
  have n: "unat (bitmap_bytes t) \<le> 4096 * ?n"
    using page_up_le_iff [of "unat (bitmap_bytes t)" ?n] by simp
  show "\<exists>r\<in>set regions. type_of r = Usable \<and> unat (base r) \<le> unat (bitmap_phys t) \<and>
       unat (bitmap_phys t) + unat (bitmap_bytes t) \<le> unat (base r) + unat (length_of r)"
    using r n by auto
  show "4096 * unat f + 4096 \<le> unat (bitmap_phys t) \<or>
       unat (bitmap_phys t) + unat (bitmap_bytes t) \<le> 4096 * unat f" if "f \<in> free_frames t" for f
    by (rule pmm_init_apart [OF assms(1,3,4) that])
  show "mem t p = mem s p" if "p \<notin> bitmap_cells t" for p
    by (rule pmm_init_shape(9) [OF assms(4) that])
qed

theorem init_establishes_invariant_witness:
  "\<exists>t. pmm_init probe_regions 0 two_frames = Ret () t \<and> pmm_wf t"
proof -
  obtain t where t: "pmm_init probe_regions 0 two_frames = Ret () t" using probe_returns by blast
  have "\<forall>r\<in>set probe_regions. type_of r = Usable \<longrightarrow> page_aligned (base r)"
    by (simp add: probe_regions_def page_aligned_iff)
  from init_establishes_invariant [OF probe_ok(1,2) this t] t show ?thesis by blast
qed

text \<open>
  \<open>init\<close> stops the machine exactly when no usable region ends above address 0 or no usable
  region can hold the bitmap rounded up to whole pages, after printing the matching fatal message.
\<close>

theorem init_halts_iff:
  "((\<exists>t. pmm_init regions hhdm s = Halt t \<and>
       last (klog t) = Kprintf ''fatal: no usable memory\<newline>'' []) \<longleftrightarrow>
     (\<forall>r\<in>set regions. type_of r = Usable \<longrightarrow> base r + length_of r = 0)) \<and>
   ((\<exists>t. pmm_init regions hhdm s = Halt t \<and>
       last (klog t) = Kprintf ''fatal: no usable region large enough for bitmap\<newline>'' []) \<longleftrightarrow>
     (\<exists>r\<in>set regions. type_of r = Usable \<and> base r + length_of r \<noteq> 0) \<and>
     (\<forall>r\<in>set regions. type_of r = Usable \<longrightarrow> length_of r < init_pages regions * kPageSize)) \<and>
   ((\<exists>t. pmm_init regions hhdm s = Ret () t) \<longleftrightarrow>
     (\<exists>r\<in>set regions. type_of r = Usable \<and> base r + length_of r \<noteq> 0) \<and>
     (\<exists>r\<in>set regions. type_of r = Usable \<and> init_pages regions * kPageSize \<le> length_of r))"
proof -
  have none: "(\<exists>r\<in>set regions. type_of r = Usable \<and> init_pages regions * kPageSize \<le> length_of r) \<longleftrightarrow>
      \<not> (\<forall>r\<in>set regions. type_of r = Usable \<longrightarrow> length_of r < init_pages regions * kPageSize)"
    by (auto simp: not_less)
  have some: "(\<exists>r\<in>set regions. type_of r = Usable \<and> base r + length_of r \<noteq> 0) \<longleftrightarrow> usable_top regions 0 \<noteq> 0"
    by (auto simp: usable_top_zero)
  show ?thesis
    using pmm_init_outcome [of regions hhdm s]
    unfolding none some find_bitmap_region_None [symmetric] usable_top_zero [symmetric]
    by (cases "usable_top regions 0 = 0"; cases "find_bitmap_region regions (init_pages regions) = None")
      (auto simp: log_printf_def)
qed

text \<open>
  C28: the answer 0 of the allocator is ambiguous. After \<open>init\<close> on a memory map with page-aligned,
  disjoint usable regions, while frames are free, the first allocation answers 0, the value for
  exhaustion, exactly when a usable region starts with frame 0 and the bitmap was placed elsewhere:
  \<open>init\<close> does not keep frame 0 back.
\<close>

theorem first_allocation_zero_iff:
  assumes "usable_in_range regions" "usable_disjoint regions"
    "\<forall>r\<in>set regions. type_of r = Usable \<longrightarrow> page_aligned (base r)"
    "pmm_init regions hhdm s = Ret u t" "free_frames t \<noteq> {}"
  shows "fst (alloc_frame t) = 0 \<longleftrightarrow>
    (\<exists>r\<in>set regions. type_of r = Usable \<and> base r = 0 \<and> 4096 \<le> unat (length_of r)) \<and> bitmap_phys t \<noteq> 0"
proof -
  have "unat (bitmap_phys t) mod 4096 = 0"
    using assms(3) pmm_init_bitmap_region [OF assms(1,4)] by (auto simp: page_aligned_iff)
  then have "unat (bitmap_phys t) div 4096 = 0 \<longleftrightarrow> bitmap_phys t = 0" by (auto simp: unat_eq_0)
  moreover have "0 < unat (bitmap_bytes t)"
    using pmm_init_bitmap_bytes [OF assms(4)] assms(5) by (auto simp: free_frames_def)
  ultimately have "0 \<in> reserved_frames t \<longleftrightarrow> bitmap_phys t = 0" by (auto simp: reserved_frames_def)
  then have "0 \<in> free_frames t \<longleftrightarrow>
      (\<exists>r\<in>set regions. type_of r = Usable \<and> base r = 0 \<and> 4096 \<le> unat (length_of r)) \<and> bitmap_phys t \<noteq> 0"
    using pmm_init_free_frames [OF assms(1,4), of 0] by (auto simp: frame_inside_def unat_eq_0)
  then show ?thesis using alloc_frame_zero_iff [OF pmm_init_wf [OF assms(1,2,4)] assms(5)] by simp
qed

theorem first_allocation_zero_iff_witness:
  "\<exists>t. pmm_init low_regions 0xFFFF800000000000 two_frames = Ret () t \<and> free_frames t \<noteq> {} \<and> fst (alloc_frame t) = 0"
proof -
  obtain t where t: "pmm_init low_regions 0xFFFF800000000000 two_frames = Ret () t"
    using pmm_init_returns [OF _ low_ok(5)] low_ok(4) by fastforce
  have p: "bitmap_phys t = 0x100000" using pmm_init_bitmap_phys(1) [OF t] low_ok(5) by simp
  have "unat (bitmap_phys t) div 4096 = 256" by (simp add: p)
  then have "0 \<notin> reserved_frames t" by (simp add: reserved_frames_def)
  then have f: "0 \<in> free_frames t"
    using pmm_init_free_frames [OF low_ok(1) t, of 0] by (auto simp: low_regions_def frame_inside_def)
  then have "fst (alloc_frame t) = 0"
    using first_allocation_zero_iff [OF low_ok(1,2,3) t] p by (auto simp: low_regions_def)
  with t f show ?thesis by blast
qed

end
