(* ===== verification/Serial.thy ===== *)
theory Serial
  imports Print
begin

text \<open>
  The serial console, \<open>src/src/arch/x86_64/serial.cpp\<close> over the port access of
  \<open>src/src/arch/x86_64/io.hpp\<close>. The UART is hardware: it is a parameter, two functions that say what
  an \<open>inb\<close> and an \<open>outb\<close> do to the state of the device. The driver's own state is its
  \<open>initialized\<close> flag beside that device.

  The lemmas describe the bounded polling loop for every device, give the register writes of
  initialisation, and show that on a device that keeps accepting bytes the text written goes out
  with every newline preceded by a carriage return.
\<close>

section \<open>Port access\<close>

text \<open>The 8-bit instance of the \<open>Port\<close> template, the only one the kernel uses.\<close>

record 'd port_io =
  inb :: "u16 \<Rightarrow> 'd \<Rightarrow> u8 \<times> 'd"
  outb :: "u16 \<Rightarrow> u8 \<Rightarrow> 'd \<Rightarrow> 'd"

definition port_write :: "'d port_io \<Rightarrow> u16 \<Rightarrow> u8 \<Rightarrow> 'd \<Rightarrow> 'd" where
  "port_write io port v d = outb io port v d"

definition port_read :: "'d port_io \<Rightarrow> u16 \<Rightarrow> 'd \<Rightarrow> u8 \<times> 'd" where
  "port_read io port d = inb io port d"

section \<open>The driver\<close>

definition UART_BASE :: u16 where
  "UART_BASE = 0x3F8"

datatype Reg = Data | InterruptEnable | FifoControl | InterruptID | LineControl | ModemControl
  | LineStatus | ModemStatus | Scratch | DivisorLow | DivisorHigh

fun reg_offset :: "Reg \<Rightarrow> u16" where
  "reg_offset Data = 0"
| "reg_offset InterruptEnable = 1"
| "reg_offset FifoControl = 2"
| "reg_offset InterruptID = 2"
| "reg_offset LineControl = 3"
| "reg_offset ModemControl = 4"
| "reg_offset LineStatus = 5"
| "reg_offset ModemStatus = 6"
| "reg_offset Scratch = 7"
| "reg_offset DivisorLow = 0"
| "reg_offset DivisorHigh = 1"

definition LCR_DLAB :: u8 where "LCR_DLAB = 0x80"
definition LSR_DR :: u8 where "LSR_DR = 0x01"
definition LSR_THRE :: u8 where "LSR_THRE = 0x20"
definition LOOPBACK_TEST_BYTE :: u8 where "LOOPBACK_TEST_BYTE = 0xAE"
definition LOOPBACK_TIMEOUT :: u32 where "LOOPBACK_TIMEOUT = 100000"
definition TX_TIMEOUT :: u32 where "TX_TIMEOUT = 100000"
definition RX_TIMEOUT :: u32 where "RX_TIMEOUT = 100000"

record 'd serial =
  initialized :: bool
  device :: 'd

definition reg :: "Reg \<Rightarrow> u16" where
  "reg r = UART_BASE + reg_offset r"

text \<open>\<open>reg(r).write(v)\<close> and \<open>reg(r).read()\<close> on the driver's state.\<close>

definition reg_write :: "'d port_io \<Rightarrow> Reg \<Rightarrow> u8 \<Rightarrow> 'd serial \<Rightarrow> 'd serial" where
  "reg_write io r v s = s\<lparr>device := port_write io (reg r) v (device s)\<rparr>"

definition reg_read :: "'d port_io \<Rightarrow> Reg \<Rightarrow> 'd serial \<Rightarrow> u8 \<times> 'd serial" where
  "reg_read io r s = (case port_read io (reg r) (device s) of (v, d) \<Rightarrow> (v, s\<lparr>device := d\<rparr>))"

function wait_for_loop :: "'d port_io \<Rightarrow> u8 \<Rightarrow> u32 \<Rightarrow> u32 \<Rightarrow> 'd serial \<Rightarrow> bool \<times> 'd serial" where
  "wait_for_loop io m timeout i s =
     (if i < timeout then
        case reg_read io LineStatus s of
          (status, s) \<Rightarrow> if status AND m \<noteq> 0 then (True, s) else wait_for_loop io m timeout (i + 1) s
      else (False, s))"
  by pat_completeness auto
termination
  by (relation "measure (\<lambda>(io, m, timeout, i, s). unat timeout - unat i)")
    (auto simp: word_less_nat_alt unat_Suc_less)

declare wait_for_loop.simps [simp del]

definition wait_for :: "'d port_io \<Rightarrow> u8 \<Rightarrow> u32 \<Rightarrow> 'd serial \<Rightarrow> bool \<times> 'd serial" where
  "wait_for io m timeout s = wait_for_loop io m timeout 0 s"

definition serial_init :: "'d port_io \<Rightarrow> u32 \<Rightarrow> 'd serial \<Rightarrow> bool \<times> 'd serial" where
  "serial_init io baud s =
     (if baud = 0 then (False, s)
      else let divisor = 115200 div baud
      in if divisor = 0 \<or> divisor > 0xFFFF then (False, s)
      else
        let s = s\<lparr>initialized := False\<rparr>;
            s = reg_write io InterruptEnable 0x00 s;
            s = reg_write io LineControl LCR_DLAB s;
            s = reg_write io DivisorLow (ucast (divisor AND 0xFF)) s;
            s = reg_write io DivisorHigh (ucast (drop_bit 8 divisor AND 0xFF)) s;
            s = reg_write io LineControl 0x03 s;
            s = reg_write io FifoControl 0xC7 s;
            s = reg_write io ModemControl 0x03 s;
            s = reg_write io ModemControl 0x1E s;
            s = reg_write io Data LOOPBACK_TEST_BYTE s;
            (ok, s) = wait_for io LSR_DR LOOPBACK_TIMEOUT s
        in if \<not> ok then (False, reg_write io ModemControl 0x00 s)
           else let (v, s) = reg_read io Data s
           in if v \<noteq> LOOPBACK_TEST_BYTE then (False, reg_write io ModemControl 0x00 s)
           else let s = reg_write io ModemControl 0x0F s
           in (True, s\<lparr>initialized := True\<rparr>))"

text \<open>\<open>putc\<close> calls itself once, with a carriage return, before a newline.\<close>

function serial_putc :: "'d port_io \<Rightarrow> char \<Rightarrow> 'd serial \<Rightarrow> 'd serial" where
  "serial_putc io c s =
     (if \<not> initialized s then s
      else let s = (if c = CHR 0x0A then serial_putc io CHR 0x0D s else s);
               (ok, s) = wait_for io LSR_THRE TX_TIMEOUT s
      in if \<not> ok then s
         else reg_write io Data (of_nat (of_char c)) s)"
  by pat_completeness auto
termination
  by (relation "measure (\<lambda>(io, c, s). if c = CHR 0x0A then 1 else 0)") auto

declare serial_putc.simps [simp del]

definition serial_getc :: "'d port_io \<Rightarrow> 'd serial \<Rightarrow> int \<times> 'd serial" where
  "serial_getc io s =
     (if \<not> initialized s then (-1, s)
      else let (ok, s) = wait_for io LSR_DR RX_TIMEOUT s
      in if \<not> ok then (-1, s)
         else let (v, s) = reg_read io Data s in (uint v, s))"

fun serial_write_loop :: "'d port_io \<Rightarrow> string \<Rightarrow> 'd serial \<Rightarrow> 'd serial" where
  "serial_write_loop io [] s = s"
| "serial_write_loop io (c # str) s = serial_write_loop io str (serial_putc io c s)"

definition serial_write :: "'d port_io \<Rightarrow> string option \<Rightarrow> 'd serial \<Rightarrow> 'd serial" where
  "serial_write io str s = (case str of None \<Rightarrow> s | Some str \<Rightarrow> serial_write_loop io str s)"

section \<open>Polling\<close>

text \<open>The state of the driver after \<open>n\<close> reads of the line status, and what the next one returns.\<close>

definition polled :: "'d port_io \<Rightarrow> nat \<Rightarrow> 'd serial \<Rightarrow> 'd serial" where
  "polled io n s = ((\<lambda>s. snd (reg_read io LineStatus s)) ^^ n) s"

definition poll_hits :: "'d port_io \<Rightarrow> u8 \<Rightarrow> nat \<Rightarrow> 'd serial \<Rightarrow> bool" where
  "poll_hits io m n s \<longleftrightarrow> fst (reg_read io LineStatus (polled io n s)) AND m \<noteq> 0"

lemma polled_0 [simp]: "polled io 0 s = s"
  by (simp add: polled_def)

lemma polled_Suc: "polled io (Suc n) s = polled io n (snd (reg_read io LineStatus s))"
  by (simp add: polled_def funpow_Suc_right del: funpow.simps)

lemma poll_hits_Suc: "poll_hits io m (Suc n) s = poll_hits io m n (snd (reg_read io LineStatus s))"
  by (simp add: poll_hits_def polled_Suc)

lemma reg_fields [simp]:
  "initialized (reg_write io r v s) = initialized s" "initialized (snd (reg_read io r s)) = initialized s"
  by (simp_all add: reg_write_def reg_read_def split: prod.splits)

lemma polled_initialized [simp]: "initialized (polled io n s) = initialized s"
  by (induction n arbitrary: s) (simp_all add: polled_Suc)

lemma wait_for_loop_hit:
  "\<lbrakk> n < unat timeout - unat i; \<And>k. k < n \<Longrightarrow> \<not> poll_hits io m k s; poll_hits io m n s \<rbrakk> \<Longrightarrow>
     wait_for_loop io m timeout i s = (True, polled io (Suc n) s)"
proof (induction n arbitrary: i s)
  case 0
  then have "i < timeout" by (simp add: word_less_nat_alt)
  with 0 show ?case
    by (simp add: wait_for_loop.simps [of io m timeout i] poll_hits_def polled_Suc case_prod_beta)
next
  case (Suc n)
  let ?s = "snd (reg_read io LineStatus s)"
  have i: "i < timeout" using Suc.prems(1) by (simp add: word_less_nat_alt)
  have miss: "fst (reg_read io LineStatus s) AND m = 0" using Suc.prems(2) [of 0] by (simp add: poll_hits_def)
  have "wait_for_loop io m timeout (i + 1) ?s = (True, polled io (Suc n) ?s)"
    using Suc.prems(2) [of "Suc k" for k] Suc.prems(1,3) unat_Suc_less [OF i]
    by (intro Suc.IH) (simp_all add: poll_hits_Suc)
  with i miss show ?case
    by (simp add: wait_for_loop.simps [of io m timeout i s] polled_Suc case_prod_beta)
qed

lemma wait_for_loop_miss:
  "(\<And>k. k < unat timeout - unat i \<Longrightarrow> \<not> poll_hits io m k s) \<Longrightarrow>
     wait_for_loop io m timeout i s = (False, polled io (unat timeout - unat i) s)"
proof (induction "unat timeout - unat i" arbitrary: i s)
  case 0
  then show ?case by (simp add: wait_for_loop.simps [of io m timeout i s] word_less_nat_alt)
next
  case (Suc n)
  let ?s = "snd (reg_read io LineStatus s)"
  have i: "i < timeout" using Suc.hyps(2) by (simp add: word_less_nat_alt)
  have n: "n = unat timeout - unat (i + 1)" using Suc.hyps(2) unat_Suc_less [OF i] by simp
  have miss: "fst (reg_read io LineStatus s) AND m = 0"
    using Suc.prems [of 0] Suc.hyps(2) by (simp add: poll_hits_def)
  have "wait_for_loop io m timeout (i + 1) ?s = (False, polled io n ?s)"
    using Suc.hyps(1) [OF n, of ?s] Suc.prems [of "Suc k" for k] Suc.hyps(2) n by (simp add: poll_hits_Suc)
  with i miss show ?case
    by (simp add: wait_for_loop.simps [of io m timeout i s] polled_Suc Suc.hyps(2) [symmetric] case_prod_beta)
qed

lemma wait_for_eq:
  "wait_for io m timeout s =
     (if \<exists>n < unat timeout. poll_hits io m n s then (True, polled io (Suc (LEAST n. poll_hits io m n s)) s)
      else (False, polled io (unat timeout) s))"
proof (cases "\<exists>n < unat timeout. poll_hits io m n s")
  case True
  then obtain n where n: "n < unat timeout" "poll_hits io m n s" by blast
  let ?l = "LEAST n. poll_hits io m n s"
  have "poll_hits io m ?l s" using n(2) by (rule LeastI)
  moreover have "?l \<le> n" using n(2) by (rule Least_le)
  ultimately have "wait_for_loop io m timeout 0 s = (True, polled io (Suc ?l) s)"
    using n(1) by (intro wait_for_loop_hit) (auto dest: not_less_Least)
  with True show ?thesis by (simp add: wait_for_def)
next
  case False
  then show ?thesis using wait_for_loop_miss [of timeout 0 io m s] by (auto simp: wait_for_def)
qed

lemma wait_for_initialized [simp]: "initialized (snd (wait_for io m timeout s)) = initialized s"
  by (simp add: wait_for_eq)

section \<open>Transmission\<close>

text \<open>
  The contract of a transmitter, as the 16550 documents it: reading the line status sends nothing,
  within \<open>TX_TIMEOUT\<close> reads the holding register is reported empty, and a byte written to the data
  register after it was reported empty is sent. \<open>good\<close> is the mode the device has to be in and
  \<open>sent\<close> the bytes that have gone out.
\<close>

definition transmits :: "'d port_io \<Rightarrow> ('d \<Rightarrow> bool) \<Rightarrow> ('d \<Rightarrow> u8 list) \<Rightarrow> bool" where
  "transmits io good sent \<longleftrightarrow>
     (\<forall>d v d'. good d \<and> inb io (reg LineStatus) d = (v, d') \<longrightarrow> good d' \<and> sent d' = sent d \<and>
        (v AND LSR_THRE \<noteq> 0 \<longrightarrow> (\<forall>b. good (outb io (reg Data) b d') \<and> sent (outb io (reg Data) b d') = sent d' @ [b]))) \<and>
     (\<forall>s. good (device s) \<longrightarrow> (\<exists>n < unat TX_TIMEOUT. poll_hits io LSR_THRE n s))"

definition byte_of :: "char \<Rightarrow> u8" where
  "byte_of c = of_nat (of_char c)"

definition crlf :: "string \<Rightarrow> string" where
  "crlf str = concat (map (\<lambda>c. if c = CHR 0x0A then [CHR 0x0D, CHR 0x0A] else [c]) str)"

lemma crlf_append: "crlf (xs @ ys) = crlf xs @ crlf ys"
  by (simp add: crlf_def)

lemma reg_read_contract:
  assumes "transmits io good sent" "good (device s)" "reg_read io LineStatus s = (v, t)"
  shows "good (device t)" "sent (device t) = sent (device s)"
    "v AND LSR_THRE \<noteq> 0 \<Longrightarrow> good (device (reg_write io Data b t))"
    "v AND LSR_THRE \<noteq> 0 \<Longrightarrow> sent (device (reg_write io Data b t)) = sent (device s) @ [b]"
proof -
  obtain d where d: "inb io (reg LineStatus) (device s) = (v, d)" "t = s\<lparr>device := d\<rparr>"
    using assms(3) by (auto simp: reg_read_def port_read_def split: prod.splits)
  note c = assms(1) [unfolded transmits_def, THEN conjunct1, rule_format, OF conjI [OF assms(2) d(1)]]
  show "good (device t)" "sent (device t) = sent (device s)" using c by (simp_all add: d(2))
  assume "v AND LSR_THRE \<noteq> 0"
  then show "good (device (reg_write io Data b t))" "sent (device (reg_write io Data b t)) = sent (device s) @ [b]"
    using c by (simp_all add: d(2) reg_write_def port_write_def)
qed

lemma polled_contract:
  assumes "transmits io good sent"
  shows "good (device s) \<Longrightarrow> good (device (polled io n s)) \<and> sent (device (polled io n s)) = sent (device s)"
proof (induction n arbitrary: s)
  case (Suc n)
  obtain v t where r: "reg_read io LineStatus s = (v, t)" by fastforce
  show ?case
    using Suc.IH [of t] reg_read_contract(1,2) [OF assms Suc.prems r] by (simp add: polled_Suc r)
qed simp

lemma transmit_byte:
  assumes "transmits io good sent" "good (device s)"
  shows "\<exists>t. wait_for io LSR_THRE TX_TIMEOUT s = (True, t) \<and> initialized t = initialized s \<and>
    good (device (reg_write io Data b t)) \<and> sent (device (reg_write io Data b t)) = sent (device s) @ [b]"
proof -
  let ?n = "LEAST n. poll_hits io LSR_THRE n s"
  have ex: "\<exists>n < unat TX_TIMEOUT. poll_hits io LSR_THRE n s" using assms by (simp add: transmits_def)
  then have hit: "poll_hits io LSR_THRE ?n s" by (metis LeastI)
  obtain v t where r: "reg_read io LineStatus (polled io ?n s) = (v, t)" by fastforce
  note p = polled_contract [OF assms, of ?n]
  have "v AND LSR_THRE \<noteq> 0" using hit r by (simp add: poll_hits_def)
  note c = reg_read_contract(3,4) [OF assms(1) conjunct1 [OF p] r this, of b]
  have "polled io (Suc ?n) s = t"
    using r by (simp add: polled_def)
  then have "wait_for io LSR_THRE TX_TIMEOUT s = (True, t)" using ex by (simp add: wait_for_eq)
  moreover have "initialized t = initialized s"
    by (metis calculation snd_conv wait_for_initialized)
  ultimately show ?thesis using c p by auto
qed

lemma putc_sends:
  assumes "transmits io good sent" "good (device s)" "initialized s"
  shows "initialized (serial_putc io c s) \<and> good (device (serial_putc io c s)) \<and>
    sent (device (serial_putc io c s)) = sent (device s) @ map byte_of (crlf [c])"
proof -
  have plain: "initialized (serial_putc io b s) \<and> good (device (serial_putc io b s)) \<and>
      sent (device (serial_putc io b s)) = sent (device s) @ [byte_of b]"
    if "b \<noteq> CHR 0x0A" "good (device s)" "initialized s" for b s
    using transmit_byte [OF assms(1) that(2), of "byte_of b"] that(1,3)
    by (auto simp: serial_putc.simps [of io b s] byte_of_def)
  show ?thesis
  proof (cases "c = CHR 0x0A")
    case True
    let ?s = "serial_putc io CHR 0x0D s"
    have r: "initialized ?s" "good (device ?s)" "sent (device ?s) = sent (device s) @ [byte_of CHR 0x0D]"
      using plain [OF _ assms(2,3), of "CHR 0x0D"] by simp_all
    then show ?thesis
      using transmit_byte [OF assms(1) r(2), of "byte_of c"] assms(3) True
      by (auto simp: serial_putc.simps [of io "CHR 0x0A" s] byte_of_def crlf_def)
  next
    case False
    then show ?thesis using plain [OF False assms(2,3)] by (simp add: crlf_def)
  qed
qed

text \<open>The driver is a sink for \<open>print::set_sink\<close> on every device that honours the contract.\<close>

interpretation uart: char_sink "serial_putc io" "\<lambda>s. transmits io good sent \<and> good (device s) \<and> initialized s"
    "\<lambda>s. sent (device s)" "\<lambda>c. map byte_of (crlf [c])" for io good sent
  by unfold_locales (auto dest: putc_sends)

lemma encode_crlf: "concat (map (\<lambda>c. map byte_of (crlf [c])) str) = map byte_of (crlf str)"
  by (induction str) (simp_all add: crlf_def)

lemma emit_serial_sends:
  assumes "transmits io good sent" "initialized s" "good (device s)"
  shows "initialized (emit_chars (Some (serial_putc io)) str s) \<and> good (device (emit_chars (Some (serial_putc io)) str s)) \<and>
    sent (device (emit_chars (Some (serial_putc io)) str s)) = sent (device s) @ map byte_of (crlf str)"
  using uart.emit_ready [of io good sent s str] uart.emit_outputs [of io good sent s str] assms by (simp add: encode_crlf)

lemma serial_write_emits: "serial_write io (Some str) s = emit_chars (Some (serial_putc io)) str s"
proof -
  have "serial_write_loop io str s = emit_chars (Some (serial_putc io)) str s"
    by (induction str arbitrary: s) (simp_all add: emit_def)
  then show ?thesis by (simp add: serial_write_def)
qed

lemma silent_before_init: "\<not> initialized s \<Longrightarrow> emit_chars (Some (serial_putc io)) str s = s"
  by (induction str) (simp_all add: emit_def serial_putc.simps [of io _ s])

section \<open>Programming\<close>

definition reg_writes :: "'d port_io \<Rightarrow> (Reg \<times> u8) list \<Rightarrow> 'd serial \<Rightarrow> 'd serial" where
  "reg_writes io ws s = fold (\<lambda>(r, v). reg_write io r v) ws s"

text \<open>The writes that program a divisor and start the loopback test.\<close>

definition program_writes :: "u8 \<Rightarrow> u8 \<Rightarrow> (Reg \<times> u8) list" where
  "program_writes lo hi =
     [(InterruptEnable, 0), (LineControl, 0x80), (DivisorLow, lo), (DivisorHigh, hi), (LineControl, 0x03),
      (FifoControl, 0xC7), (ModemControl, 0x03), (ModemControl, 0x1E), (Data, 0xAE)]"

definition loopback_passes :: "'d port_io \<Rightarrow> 'd serial \<Rightarrow> bool" where
  "loopback_passes io s \<longleftrightarrow> (\<exists>n < unat LOOPBACK_TIMEOUT. poll_hits io LSR_DR n s \<and> (\<forall>k < n. \<not> poll_hits io LSR_DR k s) \<and>
     fst (reg_read io Data (polled io (Suc n) s)) = 0xAE)"

lemma reg_writes_initialized [simp]: "initialized (reg_writes io ws s) = initialized s"
proof (induction ws arbitrary: s)
  case (Cons w ws)
  then show ?case by (cases w) (simp add: reg_writes_def)
qed (simp add: reg_writes_def)

lemma serial_init_initialized: "fst (serial_init io baud s) \<Longrightarrow> initialized (snd (serial_init io baud s))"
  by (auto simp: serial_init_def Let_def split: prod.splits if_splits)

lemma divisor_range:
  "(115200 div baud = 0 \<or> 115200 div baud > 0xFFFF) \<or> baud = 0 \<longleftrightarrow> unat (baud :: u32) < 2 \<or> 115200 < unat baud"
proof -
  have u: "unat (115200 div baud) = 115200 div unat baud" by (simp add: unat_div)
  have z: "115200 div baud = 0 \<longleftrightarrow> 115200 div unat baud = 0" using u by (metis unat_eq_0)
  consider "unat baud = 0" | "unat baud = 1" | "2 \<le> unat baud" "unat baud \<le> 115200" | "115200 < unat baud" by linarith
  then show ?thesis
  proof cases
    case 1
    then have "baud = 0" by (simp add: unat_eq_0)
    then show ?thesis by simp
  next
    case 2
    then have "baud = 1" by (metis unat_1 unat_eqI)
    then show ?thesis by simp
  next
    case 3
    have "0 < 115200 div unat baud" using 3 by (simp add: div_greater_zero_iff)
    moreover have "115200 div unat baud \<le> 115200 div 2" by (rule div_le_mono2) (use 3 in simp_all)
    moreover have "baud \<noteq> 0" using 3 by auto
    ultimately show ?thesis using 3 u z by (simp add: word_less_nat_alt)
  next
    case 4
    then show ?thesis using z by simp
  qed
qed

lemma divisor_bytes:
  assumes "unat (d :: u32) \<le> 0xFFFF"
  shows "unat (ucast (d AND 0xFF) :: u8) + 256 * unat (ucast (drop_bit 8 d AND 0xFF) :: u8) = unat d"
proof -
  have "unat d div 256 < 256" using assms by (simp add: div_less_iff_less_mult)
  moreover have "unat (d mod 256) = unat d mod 256" "unat (drop_bit 8 d mod 256) = unat d div 256 mod 256"
    by (simp_all add: unat_mod unat_drop_bit)
  ultimately show ?thesis by (simp add: mask_simps unsigned_ucast_eq take_bit_eq_mod)
qed

lemma serial_init_programmed:
  fixes io :: "'d port_io" and s :: "'d serial" and baud :: u32
  assumes "2 \<le> unat baud" "unat baud \<le> 115200"
  defines "p \<equiv> reg_writes io (program_writes (ucast ((115200 div baud) AND 0xFF))
    (ucast (drop_bit 8 (115200 div baud) AND 0xFF))) (s\<lparr>initialized := False\<rparr>)"
  shows "serial_init io baud s =
    (case wait_for io LSR_DR LOOPBACK_TIMEOUT p of
       (False, t) \<Rightarrow> (False, reg_write io ModemControl 0x00 t)
     | (True, t) \<Rightarrow> (case reg_read io Data t of (v, t) \<Rightarrow>
         if v = 0xAE then (True, (reg_write io ModemControl 0x0F t)\<lparr>initialized := True\<rparr>)
         else (False, reg_write io ModemControl 0x00 t)))"
proof -
  have "\<not> (115200 div baud = 0 \<or> 115200 div baud > 0xFFFF)" "baud \<noteq> 0"
    using divisor_range [of baud] assms(1,2) by auto
  then show ?thesis
    by (simp add: serial_init_def p_def Let_def LCR_DLAB_def LOOPBACK_TEST_BYTE_def reg_writes_def program_writes_def
        split: prod.splits bool.splits)
qed

lemma loopback_passes_wait:
  "loopback_passes io p \<longleftrightarrow> fst (wait_for io LSR_DR LOOPBACK_TIMEOUT p) \<and>
     fst (reg_read io Data (snd (wait_for io LSR_DR LOOPBACK_TIMEOUT p))) = 0xAE"
proof (cases "\<exists>n < unat LOOPBACK_TIMEOUT. poll_hits io LSR_DR n p")
  case True
  let ?l = "LEAST n. poll_hits io LSR_DR n p"
  have l: "poll_hits io LSR_DR ?l p" "?l < unat LOOPBACK_TIMEOUT"
    using True LeastI [of "\<lambda>n. poll_hits io LSR_DR n p"] Least_le [of "\<lambda>n. poll_hits io LSR_DR n p"]
    by (blast, metis le_less_trans)
  moreover have "n = ?l" if "poll_hits io LSR_DR n p" "\<forall>k < n. \<not> poll_hits io LSR_DR k p" for n
    using that l(1) by (metis LeastI not_less_Least linorder_neqE_nat)
  ultimately show ?thesis
    using True unfolding loopback_passes_def wait_for_eq by (auto dest: not_less_Least)
qed (auto simp: loopback_passes_def wait_for_eq)

section \<open>A sample device\<close>

text \<open>A minimal 16550: loopback and transmission of single bytes, always ready.\<close>

record sample_uart =
  mcr :: u8
  rx :: "u8 list"
  tx :: "u8 list"

definition sample_io :: "sample_uart port_io" where
  "sample_io = \<lparr>
     inb = (\<lambda>p d. if p = 0x3FD then ((if rx d = [] then 0x60 else 0x61), d)
                  else if p = 0x3F8 then (case rx d of [] \<Rightarrow> (0, d) | b # bs \<Rightarrow> (b, d\<lparr>rx := bs\<rparr>))
                  else (0, d)),
     outb = (\<lambda>p v d. if p = 0x3FC then d\<lparr>mcr := v\<rparr>
                     else if p = 0x3F8 then (if bit (mcr d) 4 then d\<lparr>rx := rx d @ [v]\<rparr> else d\<lparr>tx := tx d @ [v]\<rparr>)
                     else d)\<rparr>"

definition sample_serial :: "sample_uart serial" where
  "sample_serial = \<lparr>initialized = True, device = \<lparr>mcr = 0x0F, rx = [], tx = []\<rparr>\<rparr>"

lemma sample_transmits: "transmits sample_io (\<lambda>d. \<not> bit (mcr d) 4) tx"
proof -
  have "poll_hits sample_io LSR_THRE 0 s" for s
    by (simp add: poll_hits_def reg_read_def port_read_def sample_io_def reg_def UART_BASE_def LSR_THRE_def)
  then have "\<exists>n < unat TX_TIMEOUT. poll_hits sample_io LSR_THRE n s" for s
    by (intro exI [of _ 0]) (simp add: TX_TIMEOUT_def)
  then show ?thesis
    by (auto simp: transmits_def sample_io_def reg_def UART_BASE_def)
qed

section \<open>Properties\<close>

text \<open>
  C37: waiting for a status bit is bounded for every device: \<open>wait_for\<close> succeeds exactly when one of
  the first \<open>timeout\<close> reads of the line status shows the bit, and it stops after the first such
  read; otherwise it gives up after exactly \<open>timeout\<close> reads. It touches nothing but that register.
\<close>

theorem wait_for_polls:
  "wait_for io m timeout s =
     (if \<exists>n < unat timeout. poll_hits io m n s then (True, polled io (Suc (LEAST n. poll_hits io m n s)) s)
      else (False, polled io (unat timeout) s))"
  by (rule wait_for_eq)

text \<open>
  C36: \<open>init\<close> refuses a baud rate below 2 or above 115200 without touching the device. Otherwise it
  programs the divisor 115200 / baud through the two latch bytes, runs the loopback test, succeeds
  exactly when the test byte comes back, and leaves the driver initialised exactly when it
  succeeds.
\<close>

theorem serial_init_programs:
  "(unat baud < 2 \<or> 115200 < unat baud \<longrightarrow> serial_init io baud s = (False, s)) \<and>
   (2 \<le> unat baud \<and> unat baud \<le> 115200 \<longrightarrow>
     (\<exists>lo hi. unat lo + 256 * unat hi = 115200 div unat baud \<and>
        fst (serial_init io baud s) = loopback_passes io (reg_writes io (program_writes lo hi) (s\<lparr>initialized := False\<rparr>)) \<and>
        initialized (snd (serial_init io baud s)) = fst (serial_init io baud s)))"
proof (intro conjI impI)
  assume "unat baud < 2 \<or> 115200 < unat baud"
  then show "serial_init io baud s = (False, s)"
    using divisor_range [of baud] by (auto simp: serial_init_def Let_def)
next
  assume b: "2 \<le> unat baud \<and> unat baud \<le> 115200"
  let ?d = "115200 div baud"
  have u: "unat ?d = 115200 div unat baud" by (simp add: unat_div)
  have "unat ?d \<le> 0xFFFF" using divisor_range [of baud] b by (auto simp: word_less_nat_alt)
  note d = divisor_bytes [OF this, unfolded u]
  let ?p = "reg_writes io (program_writes (ucast (?d AND 0xFF)) (ucast (drop_bit 8 ?d AND 0xFF))) (s\<lparr>initialized := False\<rparr>)"
  have e: "serial_init io baud s = (case wait_for io LSR_DR LOOPBACK_TIMEOUT ?p of
       (False, t) \<Rightarrow> (False, reg_write io ModemControl 0x00 t)
     | (True, t) \<Rightarrow> (case reg_read io Data t of (v, t) \<Rightarrow>
         if v = 0xAE then (True, (reg_write io ModemControl 0x0F t)\<lparr>initialized := True\<rparr>)
         else (False, reg_write io ModemControl 0x00 t)))"
    using b by (intro serial_init_programmed) simp_all
  have i: "\<not> initialized (snd (wait_for io LSR_DR LOOPBACK_TIMEOUT ?p))" by simp
  have "fst (serial_init io baud s) = loopback_passes io ?p"
    by (simp add: e loopback_passes_wait case_prod_beta split: bool.splits)
  moreover have "initialized (snd (serial_init io baud s)) = fst (serial_init io baud s)"
    using i by (simp add: e case_prod_beta split: bool.splits)
  ultimately show "\<exists>lo hi. unat lo + 256 * unat hi = 115200 div unat baud \<and>
      fst (serial_init io baud s) = loopback_passes io (reg_writes io (program_writes lo hi) (s\<lparr>initialized := False\<rparr>)) \<and>
      initialized (snd (serial_init io baud s)) = fst (serial_init io baud s)"
    using d by blast
qed

theorem serial_init_programs_witness:
  "serial_init sample_io 1 sample_serial = (False, sample_serial) \<and>
   (\<exists>lo hi. unat (lo :: u8) + 256 * unat (hi :: u8) = 384 \<and> fst (serial_init sample_io 300 sample_serial) =
      loopback_passes sample_io (reg_writes sample_io (program_writes lo hi) (sample_serial\<lparr>initialized := False\<rparr>)))"
  using serial_init_programs [of 1 sample_io sample_serial] serial_init_programs [of 300 sample_io sample_serial] by auto

text \<open>
  C35: on an initialised console with a transmitter that honours its contract, \<open>write\<close> sends exactly
  the characters of the string, each newline preceded by a carriage return, and \<open>kprintf\<close> through
  \<open>putc\<close> sends the rendered text the same way. Nothing is dropped or reordered.
\<close>

theorem serial_console_transmits:
  assumes "transmits io good sent" "good (device s)" "initialized s"
  shows "sent (device (serial_write io (Some str) s)) = sent (device s) @ map byte_of (crlf str) \<and>
    (\<forall>text. render format ap = Inr text \<longrightarrow>
       (\<exists>t. kprintf (Some (serial_putc io)) (Some format) ap s = Inr t \<and> initialized t \<and>
          sent (device t) = sent (device s) @ map byte_of (crlf text)))"
proof -
  have r: "transmits io good sent \<and> good (device s) \<and> initialized s" using assms by simp
  show ?thesis
    using uart.kprintf_outputs [OF r, of format ap] emit_serial_sends [OF assms(1,3,2), of str]
    by (auto simp: serial_write_emits encode_crlf)
qed

theorem serial_console_transmits_witness:
  "tx (device (serial_write sample_io (Some ''ok\<newline>'') sample_serial)) = [0x6F, 0x6B, 0x0D, 0x0A]"
proof -
  have g: "\<not> bit (mcr (device sample_serial)) 4" "initialized sample_serial" by (simp_all add: sample_serial_def)
  have "tx (device (serial_write sample_io (Some ''ok\<newline>'') sample_serial)) =
      tx (device sample_serial) @ map byte_of (crlf ''ok\<newline>'')"
    using serial_console_transmits [OF sample_transmits g, of "''ok\<newline>''"] by blast
  then show ?thesis by (simp add: sample_serial_def crlf_def byte_of_def of_char_def)
qed

end
