(* ===== verification/Console.thy ===== *)
theory Console
  imports Machine Serial
begin

text \<open>
  The console as the rest of the kernel uses it: \<open>serial::write\<close> and \<open>print::kprintf\<close> with
  \<open>serial::putc\<close> as its sink, the state of affairs after \<open>print::set_sink(serial::putc)\<close>. A recorded
  list of calls has a text; playing the calls on the serial device sends that text.
\<close>

fun call_text :: "kcall \<Rightarrow> print_error + string" where
  "call_text (Kprintf format ap) = render format ap"
| "call_text (SerialWrite str) = Inr str"

fun console_text :: "kcall list \<Rightarrow> print_error + string" where
  "console_text [] = Inr []"
| "console_text (c # cs) = (case call_text c of Inl e \<Rightarrow> Inl e | Inr t \<Rightarrow> map_sum id ((@) t) (console_text cs))"

fun run_call :: "'d port_io \<Rightarrow> 'd serial sink \<Rightarrow> kcall \<Rightarrow> 'd serial \<Rightarrow> print_error + 'd serial" where
  "run_call io output_sink (Kprintf format ap) s = kprintf output_sink (Some format) ap s"
| "run_call io output_sink (SerialWrite str) s = Inr (serial_write io (Some str) s)"

fun run_console :: "'d port_io \<Rightarrow> 'd serial sink \<Rightarrow> kcall list \<Rightarrow> 'd serial \<Rightarrow> print_error + 'd serial" where
  "run_console io output_sink [] s = Inr s"
| "run_console io output_sink (c # cs) s =
     (case run_call io output_sink c s of Inl e \<Rightarrow> Inl e | Inr t \<Rightarrow> run_console io output_sink cs t)"

lemma run_call_eq: "run_call io (Some (serial_putc io)) c s = map_sum id (\<lambda>t. emit_chars (Some (serial_putc io)) t s) (call_text c)"
  by (cases c) (simp_all add: serial_write_emits kprintf_def kprintf_loop_eq)

lemma run_console_eq:
  "run_console io (Some (serial_putc io)) cs s = map_sum id (\<lambda>t. emit_chars (Some (serial_putc io)) t s) (console_text cs)"
proof (induction cs arbitrary: s)
  case (Cons c cs)
  then show ?case
    by (cases "call_text c"; cases "console_text cs") (simp_all add: run_call_eq emit_chars_append)
qed simp

lemma console_text_append:
  "console_text (xs @ ys) = (case console_text xs of Inl e \<Rightarrow> Inl e | Inr t \<Rightarrow> map_sum id ((@) t) (console_text ys))"
proof (induction xs)
  case Nil
  then show ?case by (cases "console_text ys") simp_all
next
  case (Cons x xs)
  then show ?case
    by (cases "call_text x"; cases "console_text xs"; cases "console_text ys") simp_all
qed

text \<open>
  Calls that the console carries out: the format is not read past its end, and every conversion finds
  an argument that provides the bytes it reads. The types that differ are listed separately.
\<close>

definition call_ok :: "kcall \<Rightarrow> bool" where
  "call_ok c \<longleftrightarrow> (\<exists>t. call_text c = Inr t)"

fun call_mismatches :: "kcall \<Rightarrow> (arg_type \<times> arg_type) list" where
  "call_mismatches (Kprintf format ap) = type_mismatches format ap"
| "call_mismatches (SerialWrite str) = []"

lemma console_text_ok: "list_all call_ok cs \<longleftrightarrow> (\<exists>t. console_text cs = Inr t)"
proof (induction cs)
  case (Cons c cs)
  then show ?case
    by (cases "call_text c"; cases "console_text cs") (simp_all add: call_ok_def)
qed simp

lemma run_console_sends:
  assumes "transmits io good sent" "good (device s)" "initialized s" "console_text cs = Inr text"
  shows "\<exists>t. run_console io (Some (serial_putc io)) cs s = Inr t \<and> initialized t \<and> good (device t) \<and>
    sent (device t) = sent (device s) @ map byte_of (crlf text)"
  using emit_serial_sends [OF assms(1,3,2), of "text"] assms(4) by (simp add: run_console_eq)

text \<open>Between \<open>s\<close> and \<open>t\<close> the console calls of \<open>t\<close> beyond those of \<open>s\<close> print \<open>str\<close>.\<close>

definition prints :: "machine \<Rightarrow> machine \<Rightarrow> string \<Rightarrow> bool" where
  "prints s t str \<longleftrightarrow> (\<exists>calls. klog t = klog s @ calls \<and> console_text calls = Inr str)"

lemma prints_refl: "klog t = klog s \<Longrightarrow> prints s t []"
  by (simp add: prints_def)

lemma prints_trans: "prints s t x \<Longrightarrow> prints t u y \<Longrightarrow> prints s u (x @ y)"
  by (auto simp: prints_def console_text_append)

lemma prints_printf: "prints s t x \<Longrightarrow> render f a = Inr y \<Longrightarrow> prints s (log_printf f a t) (x @ y)"
  by (auto simp: prints_def console_text_append)

lemma prints_serial: "prints s t x \<Longrightarrow> prints s (log_serial y t) (x @ y)"
  by (auto simp: prints_def console_text_append)

end
