(* ===== verification/Descriptors.thy ===== *)
theory Descriptors
  imports Prelude
begin

text \<open>
  The descriptor tables of the kernel: the GDT of \<open>src/src/arch/x86_64/gdt.hpp\<close> and
  \<open>src/src/arch/x86_64/gdt.cpp\<close> and the IDT of \<open>src/src/arch/x86_64/idt.hpp\<close> and
  \<open>src/src/arch/x86_64/idt.cpp\<close>. The state is what the two \<open>init\<close> functions change: the table
  registers, the segment registers and the static array \<open>idt\<close>. The addresses at which the linker
  places the tables and the exception stubs are parameters.

  The lemmas decode the encoded values with the field layout of the architecture, so they tie the
  shifts and masks of the source to what the processor reads.
\<close>

section \<open>The global descriptor table\<close>

definition make_descriptor :: "u32 \<Rightarrow> u32 \<Rightarrow> u8 \<Rightarrow> u8 \<Rightarrow> u64" where
  "make_descriptor base limit access flags =
     (let descriptor = 0;
          descriptor = descriptor OR ucast (limit AND 0xFFFF);
          descriptor = descriptor OR push_bit 16 (ucast (base AND 0xFFFFFF));
          descriptor = descriptor OR push_bit 40 (ucast access);
          descriptor = descriptor OR push_bit 48 (ucast (drop_bit 16 limit AND 0xF));
          descriptor = descriptor OR push_bit 52 (ucast (flags AND 0xF));
          descriptor = descriptor OR push_bit 56 (ucast (drop_bit 24 base AND 0xFF))
      in descriptor)"

definition null_descriptor :: u64 where "null_descriptor = make_descriptor 0 0 0x00 0x0"
definition kernel_code :: u64 where "kernel_code = make_descriptor 0 0xFFFFF 0x9A 0xA"
definition kernel_data :: u64 where "kernel_data = make_descriptor 0 0xFFFFF 0x92 0xC"
definition user_data :: u64 where "user_data = make_descriptor 0 0xFFFFF 0xF2 0xC"
definition user_code :: u64 where "user_code = make_descriptor 0 0xFFFFF 0xFA 0xA"

definition kNullSelector :: u16 where "kNullSelector = 0x00"
definition kKernelCodeSelector :: u16 where "kKernelCodeSelector = 0x08"
definition kKernelDataSelector :: u16 where "kKernelDataSelector = 0x10"
definition kUserDataSelector :: u16 where "kUserDataSelector = 0x18"
definition kUserCodeSelector :: u16 where "kUserCodeSelector = 0x20"

definition gdt :: "u64 list" where
  "gdt = [null_descriptor, kernel_code, kernel_data, user_data, user_code]"

text \<open>The operand of \<open>lgdt\<close> and \<open>lidt\<close>: \<open>GdtPointer\<close> and \<open>idt::Pointer\<close> have the same fields.\<close>

record Pointer =
  limit :: u16
  pointer_base :: u64

section \<open>The interrupt descriptor table\<close>

record Entry =
  offset_low :: u16
  selector :: u16
  ist :: u8
  type_attr :: u8
  offset_mid :: u16
  offset_high :: u32
  zero :: u32

definition make_entry :: "u64 \<Rightarrow> u16 \<Rightarrow> u8 \<Rightarrow> u8 \<Rightarrow> Entry" where
  "make_entry handler sel i attr =
     \<lparr>offset_low = ucast (handler AND 0xFFFF),
      selector = sel,
      ist = i AND 0x07,
      type_attr = attr,
      offset_mid = ucast (drop_bit 16 handler AND 0xFFFF),
      offset_high = ucast (drop_bit 32 handler AND 0xFFFFFFFF),
      zero = 0\<rparr>"

definition empty_entry :: Entry where
  "empty_entry = \<lparr>offset_low = 0, selector = 0, ist = 0, type_attr = 0, offset_mid = 0, offset_high = 0, zero = 0\<rparr>"

record segments =
  gdtr :: Pointer
  idtr :: Pointer
  seg_cs :: u16
  seg_ds :: u16
  seg_es :: u16
  seg_fs :: u16
  seg_gs :: u16
  seg_ss :: u16
  idt :: "Entry list"

text \<open>\<open>gdt_address\<close> is where the linker puts the array \<open>gdt\<close>.\<close>

definition gdt_pointer :: "u64 \<Rightarrow> Pointer" where
  "gdt_pointer gdt_address = \<lparr>limit = of_nat (8 * length gdt) - 1, pointer_base = gdt_address\<rparr>"

definition gdt_init :: "u64 \<Rightarrow> segments \<Rightarrow> segments" where
  "gdt_init gdt_address s =
     (let s = s\<lparr>gdtr := gdt_pointer gdt_address\<rparr>;
          s = s\<lparr>seg_cs := kKernelCodeSelector\<rparr>;
          s = s\<lparr>seg_ds := kKernelDataSelector\<rparr>;
          s = s\<lparr>seg_es := kKernelDataSelector\<rparr>;
          s = s\<lparr>seg_fs := kKernelDataSelector\<rparr>;
          s = s\<lparr>seg_gs := kKernelDataSelector\<rparr>
      in s\<lparr>seg_ss := kKernelDataSelector\<rparr>)"

definition lidt :: "Pointer \<Rightarrow> segments \<Rightarrow> segments" where
  "lidt pointer s = s\<lparr>idtr := pointer\<rparr>"

text \<open>The two loops of \<open>idt::init\<close>; \<open>isr_stub_table\<close> holds the addresses of the stubs.\<close>

function idt_clear :: "u64 \<Rightarrow> Entry list \<Rightarrow> Entry list" where
  "idt_clear i table = (if i < 256 then idt_clear (i + 1) (table[unat i := empty_entry]) else table)"
  by pat_completeness auto
termination
  by (relation "measure (\<lambda>(i, table). 256 - unat i)") (auto simp: word_less_nat_alt unat_Suc_less [of _ 256])

function idt_fill :: "u64 list \<Rightarrow> u64 \<Rightarrow> Entry list \<Rightarrow> Entry list" where
  "idt_fill isr_stub_table i table =
     (if i < 32
      then idt_fill isr_stub_table (i + 1)
             (table[unat i := make_entry (isr_stub_table ! unat i) kKernelCodeSelector 0 0x8E])
      else table)"
  by pat_completeness auto
termination
  by (relation "measure (\<lambda>(stubs, i, table). 32 - unat i)") (auto simp: word_less_nat_alt unat_Suc_less [of _ 32])

declare idt_clear.simps [simp del] idt_fill.simps [simp del]

definition idt_init :: "u64 \<Rightarrow> u64 list \<Rightarrow> segments \<Rightarrow> segments" where
  "idt_init idt_address isr_stub_table s =
     (let s = s\<lparr>idt := idt_clear 0 (idt s)\<rparr>;
          s = s\<lparr>idt := idt_fill isr_stub_table 0 (idt s)\<rparr>;
          pointer = \<lparr>limit = of_nat (16 * 256) - 1, pointer_base = idt_address\<rparr>
      in lidt pointer s)"

section \<open>Decoding\<close>

text \<open>How the processor reads a segment descriptor.\<close>

definition segment_base :: "u64 \<Rightarrow> u32" where
  "segment_base d = ucast (take_bit 24 (drop_bit 16 d) OR push_bit 24 (take_bit 8 (drop_bit 56 d)))"

definition segment_limit :: "u64 \<Rightarrow> u32" where
  "segment_limit d = ucast (take_bit 16 d OR push_bit 16 (take_bit 4 (drop_bit 48 d)))"

definition segment_access :: "u64 \<Rightarrow> u8" where
  "segment_access d = ucast (drop_bit 40 d)"

definition segment_flags :: "u64 \<Rightarrow> u8" where
  "segment_flags d = ucast (take_bit 4 (drop_bit 52 d))"

text \<open>The attributes of a segment: present, privilege level, code or data, and the mode bits.\<close>

definition segment_present :: "u64 \<Rightarrow> bool" where
  "segment_present d \<longleftrightarrow> bit d 47"

definition segment_dpl :: "u64 \<Rightarrow> nat" where
  "segment_dpl d = (if bit d 45 then 1 else 0) + (if bit d 46 then 2 else 0)"

definition code64 :: "u64 \<Rightarrow> bool" where
  "code64 d \<longleftrightarrow> bit d 44 \<and> bit d 43 \<and> bit d 53 \<and> \<not> bit d 54"

definition writable_data :: "u64 \<Rightarrow> bool" where
  "writable_data d \<longleftrightarrow> bit d 44 \<and> \<not> bit d 43 \<and> bit d 41"

text \<open>The descriptor a selector picks, if the whole descriptor lies within the table's limit.\<close>

definition selected :: "u64 list \<Rightarrow> Pointer \<Rightarrow> u16 \<Rightarrow> u64 option" where
  "selected table pointer sel =
     (let i = unat (drop_bit 3 sel)
      in if i = 0 \<or> bit sel 2 \<or> 8 * i + 7 > unat (limit pointer) then None else Some (table ! i))"

text \<open>How the processor reads a gate.\<close>

definition gate_handler :: "Entry \<Rightarrow> u64" where
  "gate_handler e = push_bit 32 (ucast (offset_high e)) OR push_bit 16 (ucast (offset_mid e)) OR ucast (offset_low e)"

definition interrupt_gate :: "Entry \<Rightarrow> nat \<Rightarrow> bool" where
  "interrupt_gate e dpl \<longleftrightarrow> bit (type_attr e) 7 \<and> unat (take_bit 2 (drop_bit 5 (type_attr e))) = dpl \<and>
     take_bit 5 (type_attr e) = 0xE"

lemma bit_field:
  "bit (push_bit k (ucast (take_bit m x) :: u64)) n \<longleftrightarrow> k \<le> n \<and> n < k + m \<and> n < 64 \<and> bit (x :: 'a::len word) (n - k)"
  by (auto simp: bit_simps dest: bit_imp_le_length)

lemma make_descriptor_bits:
  "bit (make_descriptor base lim access flags) n \<longleftrightarrow>
     n < 16 \<and> bit lim n \<or> 16 \<le> n \<and> n < 40 \<and> bit base (n - 16) \<or> 40 \<le> n \<and> n < 48 \<and> bit access (n - 40) \<or>
     48 \<le> n \<and> n < 52 \<and> bit lim (16 + (n - 48)) \<or> 52 \<le> n \<and> n < 56 \<and> bit flags (n - 52) \<or>
     56 \<le> n \<and> n < 64 \<and> bit base (24 + (n - 56))"
proof -
  have "bit (ucast (take_bit 16 lim) :: u64) n \<longleftrightarrow> n < 16 \<and> bit lim n"
    using bit_field [of 0 16 lim n] by auto
  moreover have "bit (push_bit 16 (ucast (take_bit 24 base)) :: u64) n \<longleftrightarrow> 16 \<le> n \<and> n < 40 \<and> bit base (n - 16)"
    using bit_field [of 16 24 base n] by auto
  moreover have "bit (push_bit 40 (ucast access) :: u64) n \<longleftrightarrow> 40 \<le> n \<and> n < 48 \<and> bit access (n - 40)"
    using bit_field [of 40 8 access n] by (auto simp: take_bit_word_eq_self)
  moreover have "bit (push_bit 48 (ucast (take_bit 4 (drop_bit 16 lim))) :: u64) n \<longleftrightarrow>
      48 \<le> n \<and> n < 52 \<and> bit lim (16 + (n - 48))"
    using bit_field [of 48 4 "drop_bit 16 lim" n] by (auto simp: bit_drop_bit_eq)
  moreover have "bit (push_bit 52 (ucast (take_bit 4 flags)) :: u64) n \<longleftrightarrow> 52 \<le> n \<and> n < 56 \<and> bit flags (n - 52)"
    using bit_field [of 52 4 flags n] by auto
  moreover have "bit (push_bit 56 (ucast (take_bit 8 (drop_bit 24 base))) :: u64) n \<longleftrightarrow>
      56 \<le> n \<and> n < 64 \<and> bit base (24 + (n - 56))"
    using bit_field [of 56 8 "drop_bit 24 base" n] by (auto simp: bit_drop_bit_eq)
  ultimately show ?thesis
    unfolding make_descriptor_def Let_def mask_simps bit_or_iff by (simp only: bit_0_eq bot_apply bot_bool_def simp_thms disj_assoc)
qed

lemma descriptor_fields:
  "segment_base (make_descriptor base lim access flags) = base"
  "segment_limit (make_descriptor base lim access flags) = take_bit 20 lim"
  "segment_access (make_descriptor base lim access flags) = access"
  "segment_flags (make_descriptor base lim access flags) = take_bit 4 flags"
proof -
  let ?d = "make_descriptor base lim access flags"
  note b = make_descriptor_bits
  show "segment_base ?d = base"
  proof (rule bit_word_eqI)
    fix n
    assume "n < LENGTH(32)"
    then show "bit (segment_base ?d) n = bit base n"
      by (cases "n < 24") (auto simp: segment_base_def bit_simps b)
  qed
  show "segment_limit ?d = take_bit 20 lim"
  proof (rule bit_word_eqI)
    fix n
    assume "n < LENGTH(32)"
    then show "bit (segment_limit ?d) n = bit (take_bit 20 lim) n"
      by (cases "n < 16") (auto simp: segment_limit_def bit_simps b)
  qed
  show "segment_access ?d = access"
    by (rule bit_word_eqI) (simp add: segment_access_def bit_simps b)
  show "segment_flags ?d = take_bit 4 flags"
    by (rule bit_word_eqI) (auto simp: segment_flags_def bit_simps b)
qed

lemma gate_handler_make_entry: "gate_handler (make_entry handler sel i attr) = handler"
proof (rule bit_word_eqI)
  fix n
  assume "n < LENGTH(64)"
  then consider "n < 16" | "16 \<le> n" "n < 32" | "32 \<le> n" "n < 64" by fastforce
  then show "bit (gate_handler (make_entry handler sel i attr)) n = bit handler n"
    by cases (auto simp: gate_handler_def make_entry_def mask_simps bit_simps)
qed

section \<open>The interrupt table after initialisation\<close>

lemma idt_clear_nth:
  "length table = 256 \<Longrightarrow> length (idt_clear i table) = 256 \<and>
     (\<forall>k < 256. idt_clear i table ! k = (if unat i \<le> k then empty_entry else table ! k))"
proof (induction i table rule: idt_clear.induct)
  case (1 i table)
  show ?case
  proof (cases "i < 256")
    case True
    have "unat i < 256" using True by (simp add: word_less_nat_alt)
    with 1 True show ?thesis
      by (auto simp: idt_clear.simps [of i table] unat_Suc_less [OF True] nth_list_update)
  next
    case False
    then have "256 \<le> unat i" by (simp add: word_less_nat_alt)
    with 1 False show ?thesis by (simp add: idt_clear.simps [of i table])
  qed
qed

lemma idt_fill_nth:
  "length table = 256 \<Longrightarrow> length (idt_fill stubs i table) = 256 \<and>
     (\<forall>k < 256. idt_fill stubs i table ! k =
        (if unat i \<le> k \<and> k < 32 then make_entry (stubs ! k) kKernelCodeSelector 0 0x8E else table ! k))"
proof (induction stubs i table rule: idt_fill.induct)
  case (1 stubs i table)
  show ?case
  proof (cases "i < 32")
    case True
    have "unat i < 32" using True by (simp add: word_less_nat_alt)
    with 1 True show ?thesis
      by (auto simp: idt_fill.simps [of stubs i table] unat_Suc_less [OF True] nth_list_update)
  next
    case False
    then have "32 \<le> unat i" by (simp add: word_less_nat_alt)
    with 1 False show ?thesis by (auto simp: idt_fill.simps [of stubs i table])
  qed
qed

lemma kernel_code_selected: "\<exists>d. selected gdt (gdt_pointer gdt_address) kKernelCodeSelector = Some d \<and> code64 d"
  by (simp add: selected_def gdt_pointer_def gdt_def kKernelCodeSelector_def code64_def kernel_code_def make_descriptor_bits)

lemma idt_init_nth:
  assumes "length (idt s) = 256" "k < 256"
  shows "length (idt (idt_init a stubs s)) = 256"
    "idt (idt_init a stubs s) ! k = (if k < 32 then make_entry (stubs ! k) kKernelCodeSelector 0 0x8E else empty_entry)"
proof -
  note c = idt_clear_nth [OF assms(1), of 0]
  note f = idt_fill_nth [OF conjunct1 [OF c], of stubs 0]
  show "length (idt (idt_init a stubs s)) = 256" using f by (simp add: idt_init_def lidt_def)
  show "idt (idt_init a stubs s) ! k = (if k < 32 then make_entry (stubs ! k) kKernelCodeSelector 0 0x8E else empty_entry)"
    using c f assms(2) by (simp add: idt_init_def lidt_def)
qed

section \<open>Properties\<close>

text \<open>
  C34: descriptors and gates encode their parameters without loss. The processor's reading of a segment
  descriptor gives back the base, the access byte, the low 20 bits of the limit and the low four flag
  bits, and its reading of a gate gives back the handler's address, the selector, the low three bits of
  the stack-table index and the attribute byte, with the reserved word zero, whatever the parameters are.
\<close>

theorem descriptor_roundtrip:
  "segment_base (make_descriptor base lim access flags) = base \<and>
   segment_limit (make_descriptor base lim access flags) = take_bit 20 lim \<and>
   segment_access (make_descriptor base lim access flags) = access \<and>
   segment_flags (make_descriptor base lim access flags) = take_bit 4 flags \<and>
   gate_handler (make_entry handler sel i attr) = handler \<and> selector (make_entry handler sel i attr) = sel \<and>
   ist (make_entry handler sel i attr) = take_bit 3 i \<and> type_attr (make_entry handler sel i attr) = attr \<and>
   zero (make_entry handler sel i attr) = 0"
proof -
  have "i AND 7 = take_bit 3 i" by (simp add: take_bit_eq_mask mask_eq_exp_minus_1)
  then show ?thesis by (simp add: descriptor_fields gate_handler_make_entry) (simp add: make_entry_def)
qed

text \<open>
  C33: after \<open>gdt::init\<close> every segment register selects a descriptor inside the table's limit: CS a
  present 64-bit code segment and the five data registers a present writable data segment, all at
  privilege level 0. The user selectors pick the level 3 counterparts, in the order SYSRET needs.
\<close>

theorem gdt_init_segments:
  "let s = gdt_init gdt_address s in
     pointer_base (gdtr s) = gdt_address \<and> unat (limit (gdtr s)) + 1 = 8 * length gdt \<and>
     (\<exists>d. selected gdt (gdtr s) (seg_cs s) = Some d \<and> segment_present d \<and> code64 d \<and> segment_dpl d = 0) \<and>
     list_all (\<lambda>sel. \<exists>d. selected gdt (gdtr s) sel = Some d \<and> segment_present d \<and> writable_data d \<and> segment_dpl d = 0)
       [seg_ds s, seg_es s, seg_fs s, seg_gs s, seg_ss s] \<and>
     (\<exists>d. selected gdt (gdtr s) (kUserCodeSelector OR 3) = Some d \<and> segment_present d \<and> code64 d \<and> segment_dpl d = 3) \<and>
     (\<exists>d. selected gdt (gdtr s) (kUserDataSelector OR 3) = Some d \<and> segment_present d \<and> writable_data d \<and> segment_dpl d = 3) \<and>
     kUserDataSelector = kKernelDataSelector + 8 \<and> kUserCodeSelector = kKernelDataSelector + 16"
  by (simp add: gdt_init_def Let_def gdt_pointer_def selected_def gdt_def kKernelCodeSelector_def kKernelDataSelector_def
      kUserDataSelector_def kUserCodeSelector_def segment_present_def code64_def writable_data_def segment_dpl_def
      kernel_code_def kernel_data_def user_code_def user_data_def make_descriptor_bits)

text \<open>
  C32: after \<open>idt::init\<close> the 256 entries of the table are exactly as the processor needs them: each
  of the 32 exception vectors has a present level 0 interrupt gate that leads to its stub through
  a selector that picks a 64-bit code segment of the kernel's GDT, every other vector has no
  present gate, and the loaded limit covers the whole table.
\<close>

theorem idt_init_gates:
  assumes "length (idt s) = 256" "t = idt_init idt_address stubs s"
  shows "length (idt t) = 256 \<and> pointer_base (idtr t) = idt_address \<and> unat (limit (idtr t)) + 1 = 16 * length (idt t) \<and>
    (\<forall>v < 32. gate_handler (idt t ! v) = stubs ! v \<and> interrupt_gate (idt t ! v) 0 \<and> ist (idt t ! v) = 0 \<and>
       (\<exists>d. selected gdt (gdt_pointer gdt_address) (selector (idt t ! v)) = Some d \<and> code64 d)) \<and>
    (\<forall>v. 32 \<le> v \<and> v < 256 \<longrightarrow> \<not> bit (type_attr (idt t ! v)) 7)"
proof -
  note n = idt_init_nth [OF assms(1), of _ idt_address stubs]
  have len: "length (idt t) = 256" using n(1) [of 0] by (simp add: assms(2))
  have l: "unat (limit (idtr t)) + 1 = 4096" "pointer_base (idtr t) = idt_address"
    by (simp_all add: assms(2) idt_init_def lidt_def)
  have g: "gate_handler (idt t ! v) = stubs ! v \<and> interrupt_gate (idt t ! v) 0 \<and> ist (idt t ! v) = 0 \<and>
       (\<exists>d. selected gdt (gdt_pointer gdt_address) (selector (idt t ! v)) = Some d \<and> code64 d)" if "v < 32" for v
  proof -
    have e: "idt t ! v = make_entry (stubs ! v) kKernelCodeSelector 0 0x8E" using n(2) [of v] that by (simp add: assms(2))
    have "interrupt_gate (idt t ! v) 0 \<and> ist (idt t ! v) = 0"
      by (simp add: e make_entry_def interrupt_gate_def)
    moreover note kernel_code_selected [of gdt_address]
    ultimately show ?thesis by (simp add: e gate_handler_make_entry) (simp add: make_entry_def)
  qed
  have "\<not> bit (type_attr (idt t ! v)) 7" if "32 \<le> v" "v < 256" for v
    using n(2) [of v] that by (simp add: assms(2) empty_entry_def)
  then show ?thesis using len l g by simp
qed

theorem idt_init_gates_witness:
  "gate_handler (idt (idt_init 0x5000 (map of_nat [0xA00..<0xA20])
     \<lparr>gdtr = \<lparr>limit = 0, pointer_base = 0\<rparr>, idtr = \<lparr>limit = 0, pointer_base = 0\<rparr>, seg_cs = 0, seg_ds = 0, seg_es = 0,
      seg_fs = 0, seg_gs = 0, seg_ss = 0, idt = replicate 256 empty_entry\<rparr>) ! 14) = 0xA0E"
proof -
  let ?s = "\<lparr>gdtr = \<lparr>limit = 0, pointer_base = 0\<rparr>, idtr = \<lparr>limit = 0, pointer_base = 0\<rparr>, seg_cs = 0, seg_ds = 0, seg_es = 0,
      seg_fs = 0, seg_gs = 0, seg_ss = 0, idt = replicate 256 empty_entry\<rparr> :: segments"
  have "length (idt ?s) = 256" by simp
  from idt_init_gates [OF this refl, of "0x5000" "map of_nat [0xA00..<0xA20]"] show ?thesis by auto
qed

end
