(* ===== verification/Interrupts.thy ===== *)
theory Interrupts
  imports Console Descriptors
begin

text \<open>
  Exceptions: the stubs of \<open>src/src/arch/x86_64/isr.S\<close>, the frame of
  \<open>src/src/arch/x86_64/interrupts.hpp\<close> and the handler of \<open>src/src/arch/x86_64/interrupts.cpp\<close>. The
  processor's part (what it pushes before it enters a stub) is written from the architecture; the
  stub's pushes and the struct are the repository's, and the lemmas show that they fit together.
\<close>

section \<open>Registers and the stack\<close>

record registers =
  rg_rax :: u64
  rg_rbx :: u64
  rg_rcx :: u64
  rg_rdx :: u64
  rg_rsi :: u64
  rg_rdi :: u64
  rg_rbp :: u64
  rg_r8 :: u64
  rg_r9 :: u64
  rg_r10 :: u64
  rg_r11 :: u64
  rg_r12 :: u64
  rg_r13 :: u64
  rg_r14 :: u64
  rg_r15 :: u64
  rg_rip :: u64
  rg_cs :: u64
  rg_rflags :: u64
  rg_rsp :: u64
  rg_ss :: u64

type_synonym stack = "u64 \<times> (ptr \<Rightarrow> u64)"

definition pushq :: "u64 \<Rightarrow> stack \<Rightarrow> stack" where
  "pushq v = (\<lambda>(rsp, m). (rsp - 8, m(rsp - 8 := v)))"

definition push_all :: "u64 list \<Rightarrow> stack \<Rightarrow> stack" where
  "push_all vs st = fold pushq vs st"

text \<open>
  Delivery by the processor: the stack pointer is aligned to 16 bytes, then SS, RSP, RFLAGS, CS and
  RIP are pushed, and an error code for the vectors that have one.
\<close>

definition cpu_pushes_error :: "nat \<Rightarrow> bool" where
  "cpu_pushes_error v \<longleftrightarrow> v \<in> {8, 10, 11, 12, 13, 14, 17, 21, 29, 30}"

definition cpu_deliver :: "nat \<Rightarrow> u64 \<Rightarrow> registers \<Rightarrow> (ptr \<Rightarrow> u64) \<Rightarrow> stack" where
  "cpu_deliver v code r m =
     push_all ([rg_ss r, rg_rsp r, rg_rflags r, rg_cs r, rg_rip r] @ (if cpu_pushes_error v then [code] else []))
       (rg_rsp r AND NOT 0xF, m)"

section \<open>The stubs\<close>

text \<open>The vectors of the \<open>ISR_ERROR\<close> and \<open>ISR_NO_ERROR\<close> lines, in their order.\<close>

definition isr_error_vectors :: "nat list" where
  "isr_error_vectors = [8, 10, 11, 12, 13, 14, 17, 21, 29, 30]"

definition isr_no_error_vectors :: "nat list" where
  "isr_no_error_vectors = [0, 1, 2, 3, 4, 5, 6, 7, 9, 15, 16, 18, 19, 20, 22, 23, 24, 25, 26, 27, 28, 31]"

definition isr_stub :: "nat \<Rightarrow> (stack \<Rightarrow> stack) option" where
  "isr_stub v =
     (if v \<in> set isr_error_vectors then Some (pushq (of_nat v))
      else if v \<in> set isr_no_error_vectors then Some (\<lambda>st. pushq (of_nat v) (pushq 0 st))
      else None)"

text \<open>
  The table of the stubs' addresses, one \<open>.quad\<close> per stub; \<open>isr_stub_address\<close> is where the linker
  puts each of them.
\<close>

definition isr_stub_table :: "(nat \<Rightarrow> u64) \<Rightarrow> u64 list" where
  "isr_stub_table isr_stub_address =
     [isr_stub_address 0, isr_stub_address 1, isr_stub_address 2, isr_stub_address 3, isr_stub_address 4, isr_stub_address
      5, isr_stub_address 6, isr_stub_address 7, isr_stub_address 8, isr_stub_address 9, isr_stub_address 10,
      isr_stub_address 11, isr_stub_address 12, isr_stub_address 13, isr_stub_address 14, isr_stub_address 15,
      isr_stub_address 16, isr_stub_address 17, isr_stub_address 18, isr_stub_address 19, isr_stub_address 20,
      isr_stub_address 21, isr_stub_address 22, isr_stub_address 23, isr_stub_address 24, isr_stub_address 25,
      isr_stub_address 26, isr_stub_address 27, isr_stub_address 28, isr_stub_address 29, isr_stub_address 30,
      isr_stub_address 31]"

text \<open>The pushes of \<open>isr_common\<close>; the stack pointer after them is the handler's argument.\<close>

definition isr_common_push :: "registers \<Rightarrow> stack \<Rightarrow> stack" where
  "isr_common_push r st =
     push_all [rg_rax r, rg_rbx r, rg_rcx r, rg_rdx r, rg_rsi r, rg_rdi r, rg_rbp r, rg_r8 r, rg_r9 r, rg_r10 r,
       rg_r11 r, rg_r12 r, rg_r13 r, rg_r14 r, rg_r15 r] st"

text \<open>The stack pointer at the call of the handler, \<open>andq $-16, %rsp\<close>.\<close>

definition isr_call_rsp :: "stack \<Rightarrow> u64" where
  "isr_call_rsp st = fst st AND (- 16)"

text \<open>\<open>isr_common\<close> after the call: pop the registers, drop vector and error code, \<open>iretq\<close>.\<close>

definition isr_common_pop :: "u64 \<Rightarrow> (ptr \<Rightarrow> u64) \<Rightarrow> registers" where
  "isr_common_pop rsp m =
     \<lparr>rg_rax = m (rsp + 112), rg_rbx = m (rsp + 104), rg_rcx = m (rsp + 96), rg_rdx = m (rsp + 88), rg_rsi = m (rsp + 80),
      rg_rdi = m (rsp + 72), rg_rbp = m (rsp + 64), rg_r8 = m (rsp + 56), rg_r9 = m (rsp + 48), rg_r10 = m (rsp + 40),
      rg_r11 = m (rsp + 32), rg_r12 = m (rsp + 24), rg_r13 = m (rsp + 16), rg_r14 = m (rsp + 8), rg_r15 = m rsp,
      rg_rip = m (rsp + 136), rg_cs = m (rsp + 144), rg_rflags = m (rsp + 152), rg_rsp = m (rsp + 160),
      rg_ss = m (rsp + 168)\<rparr>"

section \<open>The frame\<close>

record InterruptFrame =
  r15 :: u64
  r14 :: u64
  r13 :: u64
  r12 :: u64
  r11 :: u64
  r10 :: u64
  r9 :: u64
  r8 :: u64
  rbp :: u64
  rdi :: u64
  rsi :: u64
  rdx :: u64
  rcx :: u64
  rbx :: u64
  rax :: u64
  vector :: u64
  error_code :: u64
  rip :: u64
  cs :: u64
  rflags :: u64
  rsp :: u64
  ss :: u64

text \<open>The struct at address \<open>p\<close>: its members in declaration order, 8 bytes each.\<close>

definition frame_at :: "(ptr \<Rightarrow> u64) \<Rightarrow> ptr \<Rightarrow> InterruptFrame" where
  "frame_at m p =
     (let f = (\<lambda>i. m (p + 8 * of_nat i))
      in \<lparr>r15 = f 0, r14 = f 1, r13 = f 2, r12 = f 3, r11 = f 4, r10 = f 5, r9 = f 6, r8 = f 7, rbp = f 8, rdi = f 9,
          rsi = f 10, rdx = f 11, rcx = f 12, rbx = f 13, rax = f 14, vector = f 15, error_code = f 16, rip = f 17,
          cs = f 18, rflags = f 19, rsp = f 20, ss = f 21\<rparr>)"

section \<open>The handler\<close>

definition exception_name :: "u64 \<Rightarrow> string" where
  "exception_name v =
     (if v = 0 then ''#DE Divide Error''
      else if v = 1 then ''#DB Debug''
      else if v = 2 then ''NMI''
      else if v = 3 then ''#BP Breakpoint''
      else if v = 4 then ''#OF Overflow''
      else if v = 5 then ''#BR Bound Range''
      else if v = 6 then ''#UD Invalid Opcode''
      else if v = 7 then ''#NM Device Not Available''
      else if v = 8 then ''#DF Double Fault''
      else if v = 9 then ''Reserved''
      else if v = 10 then ''#TS Invalid TSS''
      else if v = 11 then ''#NP Segment Not Present''
      else if v = 12 then ''#SS Stack-Segment Fault''
      else if v = 13 then ''#GP General Protection''
      else if v = 14 then ''#PF Page Fault''
      else if v = 15 then ''Reserved''
      else if v = 16 then ''#MF x87 Floating-Point''
      else if v = 17 then ''#AC Alignment Check''
      else if v = 18 then ''#MC Machine Check''
      else if v = 19 then ''#XM SIMD Floating-Point''
      else if v = 20 then ''Reserved''
      else if v = 21 then ''#CP Control Protection''
      else if v = 22 then ''Reserved''
      else if v = 23 then ''Reserved''
      else if v = 24 then ''Reserved''
      else if v = 25 then ''Reserved''
      else if v = 26 then ''Reserved''
      else if v = 27 then ''Reserved''
      else if v = 28 then ''Reserved''
      else if v = 29 then ''#VC VMM Communication''
      else if v = 30 then ''#SX Security''
      else if v = 31 then ''Reserved''
      else ''Unknown'')"

text \<open>The lines printed for a page fault.\<close>

definition page_fault_report :: "InterruptFrame \<Rightarrow> machine \<Rightarrow> machine" where
  "page_fault_report frame s =
     (let s = log_printf ''  Present: %u\<newline>'' [Word (drop_bit 0 (error_code frame) AND 1)] s;
          s = log_printf ''  Write: %u\<newline>'' [Word (drop_bit 1 (error_code frame) AND 1)] s;
          s = log_printf ''  User: %u\<newline>'' [Word (drop_bit 2 (error_code frame) AND 1)] s;
          s = log_printf ''  Reserved-bit violation: %u\<newline>'' [Word (drop_bit 3 (error_code frame) AND 1)] s;
          s = log_printf ''  Instruction fetch: %u\<newline>'' [Word (drop_bit 4 (error_code frame) AND 1)] s
      in s)"

text \<open>\<open>cr2_register\<close> is the value of CR2. The handler ends in a \<open>cli; hlt\<close> loop.\<close>

definition isr_handler :: "u64 \<Rightarrow> InterruptFrame \<Rightarrow> machine \<Rightarrow> (unit, machine) exec" where
  "isr_handler cr2_register frame s =
     (let s = log_serial ''\<newline>\<newline>*** EXCEPTION ***\<newline>'' s;
          s = log_serial ''Vector: '' s;
          s = log_printf ''%lu\<newline>'' [Word (vector frame)] s;
          s = log_serial ''Exception: '' s;
          s = log_serial (exception_name (vector frame)) s;
          s = log_serial ''\<newline>'' s;
          s = log_printf ''Error code: 0x%lx\<newline>'' [Word (error_code frame)] s;
          (cr2, s) = (if vector frame = 14 then (cr2_register, page_fault_report frame s) else (0, s));
          s = log_printf ''CR2:    %p\<newline>'' [Ptr cr2] s;
          s = log_printf ''RIP:    %p\<newline>'' [Ptr (rip frame)] s;
          s = log_printf ''CS:     0x%lx\<newline>'' [Word (cs frame)] s;
          s = log_printf ''RFLAGS: 0x%lx\<newline>'' [Word (rflags frame)] s;
          s = log_printf ''RSP:    %p\<newline>'' [Ptr (rsp frame)] s;
          s = log_printf ''SS:     0x%lx\<newline>'' [Word (ss frame)] s;
          s = log_printf ''RAX: %p  RBX: %p  RCX: %p\<newline>'' [Ptr (rax frame), Ptr (rbx frame), Ptr (rcx frame)] s;
          s = log_printf ''RDX: %p  RSI: %p  RDI: %p\<newline>'' [Ptr (rdx frame), Ptr (rsi frame), Ptr (rdi frame)] s;
          s = log_printf ''RBP: %p  R8:  %p  R9:  %p\<newline>'' [Ptr (rbp frame), Ptr (r8 frame), Ptr (r9 frame)] s;
          s = log_printf ''R10: %p  R11: %p  R12: %p\<newline>'' [Ptr (r10 frame), Ptr (r11 frame), Ptr (r12 frame)] s;
          s = log_printf ''R13: %p  R14: %p  R15: %p\<newline>'' [Ptr (r13 frame), Ptr (r14 frame), Ptr (r15 frame)] s;
          s = log_serial ''\<newline>System halted.\<newline>'' s
      in Halt s)"

section \<open>Pushed values\<close>

lemma isr_stub_table_map: "isr_stub_table stubs = map stubs [0..<32]"
  by (simp add: isr_stub_table_def upt_rec numeral_eq_Suc)

lemma isr_stub_table_nth [simp]: "v < 32 \<Longrightarrow> isr_stub_table stubs ! v = stubs v"
  by (simp add: isr_stub_table_map)

lemma push_all_simps [simp]:
  "push_all [] st = st" "push_all (v # vs) st = push_all vs (pushq v st)" "push_all (xs @ ys) st = push_all ys (push_all xs st)"
  by (simp_all add: push_all_def)

lemma push_all_top: "fst (push_all vs (p, m)) = p - 8 * of_nat (length vs)"
  by (induction vs rule: rev_induct) (auto simp: pushq_def algebra_simps split: prod.splits)

lemma slot_neq: "k < 2 ^ 61 \<Longrightarrow> l < 2 ^ 61 \<Longrightarrow> (p :: u64) - 8 * of_nat k = p - 8 * of_nat l \<longleftrightarrow> k = l"
proof
  assume k: "k < 2 ^ 61" "l < 2 ^ 61" and "p - 8 * of_nat k = p - 8 * of_nat l"
  then have "(of_nat (8 * k) :: u64) = of_nat (8 * l)" by simp
  then have "unat (of_nat (8 * k) :: u64) = unat (of_nat (8 * l) :: u64)" by (rule arg_cong)
  then have "8 * k = 8 * l" using k by (simp add: unsigned_of_nat take_bit_nat_eq_self del: of_nat_mult)
  then show "k = l" by simp
qed simp

lemma push_all_read:
  "length vs < 2 ^ 60 \<Longrightarrow> k < length vs \<Longrightarrow> snd (push_all vs (p, m)) (p - 8 * of_nat (Suc k)) = vs ! k"
proof (induction vs rule: rev_induct)
  case (snoc v vs)
  have top: "fst (push_all vs (p, m)) - 8 = p - 8 * of_nat (Suc (length vs))"
    by (simp add: push_all_top algebra_simps)
  have "snd (push_all (vs @ [v]) (p, m)) = (snd (push_all vs (p, m)))(p - 8 * of_nat (Suc (length vs)) := v)"
    unfolding top [symmetric] by (simp add: pushq_def split: prod.splits)
  moreover have "p - 8 * of_nat (Suc k) = p - 8 * of_nat (Suc (length vs)) \<longleftrightarrow> k = length vs"
    using snoc.prems slot_neq [of "Suc k" "Suc (length vs)" p] by simp
  ultimately show ?case using snoc by (auto simp: nth_append simp del: of_nat_Suc)
qed simp

text \<open>Reading upwards from the last pushed value.\<close>

lemma push_all_frame:
  assumes "length vs < 2 ^ 60" "i < length vs"
  shows "snd (push_all vs (p, m)) (fst (push_all vs (p, m)) + 8 * of_nat i) = rev vs ! i"
proof -
  have "fst (push_all vs (p, m)) + 8 * of_nat i = p - 8 * of_nat (Suc (length vs - Suc i))"
    using assms(2) by (simp add: push_all_top algebra_simps of_nat_diff)
  then show ?thesis using push_all_read [OF assms(1), of "length vs - Suc i"] assms by (simp add: rev_nth del: of_nat_Suc)
qed

text \<open>What is on the stack when the handler is entered, in the order it was pushed.\<close>

definition isr_pushes :: "nat \<Rightarrow> u64 \<Rightarrow> registers \<Rightarrow> u64 list" where
  "isr_pushes v code r =
     [rg_ss r, rg_rsp r, rg_rflags r, rg_cs r, rg_rip r, if cpu_pushes_error v then code else 0, of_nat v,
      rg_rax r, rg_rbx r, rg_rcx r, rg_rdx r, rg_rsi r, rg_rdi r, rg_rbp r, rg_r8 r, rg_r9 r, rg_r10 r,
      rg_r11 r, rg_r12 r, rg_r13 r, rg_r14 r, rg_r15 r]"

lemma stub_vectors: "v < 32 \<Longrightarrow> v \<in> set isr_error_vectors \<longleftrightarrow> v \<notin> set isr_no_error_vectors"
proof -
  assume "v < 32"
  then have "v \<in> set [0..<32]" by simp
  moreover have "list_all (\<lambda>v. v \<in> set isr_error_vectors \<longleftrightarrow> v \<notin> set isr_no_error_vectors) [0..<32]"
    by (simp add: upt_rec isr_error_vectors_def isr_no_error_vectors_def)
  ultimately show ?thesis by (simp only: list_all_iff)
qed

lemma isr_entry_pushes:
  assumes "v < 32"
  shows "\<exists>stub. isr_stub v = Some stub \<and> isr_common_push r (stub (cpu_deliver v code r m)) =
    push_all (isr_pushes v code r) (rg_rsp r AND NOT 0xF, m)"
proof -
  have e: "v \<in> set isr_error_vectors \<longleftrightarrow> cpu_pushes_error v" by (simp add: isr_error_vectors_def cpu_pushes_error_def)
  show ?thesis
    using stub_vectors [OF assms] e
    by (auto simp: isr_stub_def isr_common_push_def cpu_deliver_def isr_pushes_def)
qed

lemma push_all_other:
  "(\<And>k. k < length vs \<Longrightarrow> a \<noteq> p - 8 * of_nat (Suc k)) \<Longrightarrow> snd (push_all vs (p, m)) a = m a"
proof (induction vs rule: rev_induct)
  case (snoc v vs)
  have "a \<noteq> fst (push_all vs (p, m)) - 8"
    using snoc.prems [of "length vs"] by (simp add: push_all_top algebra_simps)
  then have "snd (push_all (vs @ [v]) (p, m)) a = snd (push_all vs (p, m)) a"
    by (simp add: pushq_def case_prod_beta)
  then show ?case using snoc.IH snoc.prems less_SucI by (simp del: of_nat_Suc)
qed simp

text \<open>The frame a stub has to present for the interrupted registers.\<close>

definition frame_of :: "nat \<Rightarrow> u64 \<Rightarrow> registers \<Rightarrow> InterruptFrame" where
  "frame_of v code r =
     \<lparr>r15 = rg_r15 r, r14 = rg_r14 r, r13 = rg_r13 r, r12 = rg_r12 r, r11 = rg_r11 r, r10 = rg_r10 r, r9 = rg_r9 r,
      r8 = rg_r8 r, rbp = rg_rbp r, rdi = rg_rdi r, rsi = rg_rsi r, rdx = rg_rdx r, rcx = rg_rcx r, rbx = rg_rbx r,
      rax = rg_rax r, vector = of_nat v, error_code = (if cpu_pushes_error v then code else 0), rip = rg_rip r,
      cs = rg_cs r, rflags = rg_rflags r, rsp = rg_rsp r, ss = rg_ss r\<rparr>"

lemma isr_cells:
  assumes "v < 32"
  shows "\<exists>stub. isr_stub v = Some stub \<and> (\<forall>st i. st = isr_common_push r (stub (cpu_deliver v code r m)) \<longrightarrow> i < 22 \<longrightarrow>
    snd st (fst st + 8 * of_nat i) = rev (isr_pushes v code r) ! i)"
proof -
  have "length (isr_pushes v code r) = 22" by (simp add: isr_pushes_def)
  then show ?thesis
    using isr_entry_pushes [OF assms, of r code m] push_all_frame [of "isr_pushes v code r" _ "rg_rsp r AND NOT 0xF" m] by auto
qed

lemma isr_frame_contents:
  assumes "v < 32"
  shows "\<exists>stub. isr_stub v = Some stub \<and> (\<forall>st. st = isr_common_push r (stub (cpu_deliver v code r m)) \<longrightarrow>
    frame_at (snd st) (fst st) = frame_of v code r)"
proof -
  obtain stub where stub: "isr_stub v = Some stub"
    and cell: "\<And>st i. st = isr_common_push r (stub (cpu_deliver v code r m)) \<Longrightarrow> i < 22 \<Longrightarrow>
      snd st (fst st + 8 * of_nat i) = rev (isr_pushes v code r) ! i"
    using isr_cells [OF assms] by blast
  have "frame_at (snd st) (fst st) = frame_of v code r" if "st = isr_common_push r (stub (cpu_deliver v code r m))" for st
    unfolding frame_at_def Let_def by (simp only: cell [OF that]) (simp add: isr_pushes_def frame_of_def)
  with stub show ?thesis by blast
qed

section \<open>The report\<close>

abbreviation dec :: "u64 \<Rightarrow> string" where "dec w \<equiv> numeral_string 10 (unat w)"
abbreviation hex :: "u64 \<Rightarrow> string" where "hex w \<equiv> numeral_string 16 (unat w)"
abbreviation flag_digit :: "u64 \<Rightarrow> nat \<Rightarrow> string" where "flag_digit w n \<equiv> if bit w n then ''1'' else ''0''"

definition page_fault_text :: "u64 \<Rightarrow> string" where
  "page_fault_text code =
     ''  Present: '' @ flag_digit code 0 @ ''\<newline>'' @ ''  Write: '' @ flag_digit code 1 @ ''\<newline>'' @
     ''  User: '' @ flag_digit code 2 @ ''\<newline>'' @ ''  Reserved-bit violation: '' @ flag_digit code 3 @ ''\<newline>'' @
     ''  Instruction fetch: '' @ flag_digit code 4 @ ''\<newline>''"

definition report_text :: "u64 \<Rightarrow> InterruptFrame \<Rightarrow> string" where
  "report_text fault_address f =
     ''\<newline>\<newline>*** EXCEPTION ***\<newline>Vector: '' @ dec (vector f) @ ''\<newline>Exception: '' @ exception_name (vector f) @
     ''\<newline>Error code: 0x'' @ hex (error_code f) @ ''\<newline>'' @
     (if vector f = 14 then page_fault_text (error_code f) else []) @
     ''CR2:    '' @ pointer_string (if vector f = 14 then fault_address else 0) @
     ''\<newline>RIP:    '' @ pointer_string (rip f) @ ''\<newline>CS:     0x'' @ hex (cs f) @ ''\<newline>RFLAGS: 0x'' @ hex (rflags f) @
     ''\<newline>RSP:    '' @ pointer_string (rsp f) @ ''\<newline>SS:     0x'' @ hex (ss f) @
     ''\<newline>RAX: '' @ pointer_string (rax f) @ ''  RBX: '' @ pointer_string (rbx f) @ ''  RCX: '' @ pointer_string (rcx f) @
     ''\<newline>RDX: '' @ pointer_string (rdx f) @ ''  RSI: '' @ pointer_string (rsi f) @ ''  RDI: '' @ pointer_string (rdi f) @
     ''\<newline>RBP: '' @ pointer_string (rbp f) @ ''  R8:  '' @ pointer_string (r8 f) @ ''  R9:  '' @ pointer_string (r9 f) @
     ''\<newline>R10: '' @ pointer_string (r10 f) @ ''  R11: '' @ pointer_string (r11 f) @ ''  R12: '' @ pointer_string (r12 f) @
     ''\<newline>R13: '' @ pointer_string (r13 f) @ ''  R14: '' @ pointer_string (r14 f) @ ''  R15: '' @ pointer_string (r15 f) @
     ''\<newline>\<newline>System halted.\<newline>''"

lemma flag_conversion:
  "numeral_string 10 (unat (ucast (drop_bit n (w :: u64) AND 1) :: u32)) = flag_digit w n"
proof -
  have "drop_bit n w AND 1 = of_bool (bit w n)"
    by (rule bit_word_eqI) (auto simp: bit_simps)
  then show ?thesis by (simp add: numeral_string.simps [of 10] digits_def)
qed

lemma page_fault_prints:
  "prints s t x \<Longrightarrow> prints s (page_fault_report f t) (x @ page_fault_text (error_code f))"
proof -
  assume p: "prints s t x"
  have "prints s (page_fault_report f t)
      (((((x @ ''  Present: '' @ flag_digit (error_code f) 0 @ ''\<newline>'') @ ''  Write: '' @ flag_digit (error_code f) 1 @ ''\<newline>'') @
        ''  User: '' @ flag_digit (error_code f) 2 @ ''\<newline>'') @
        ''  Reserved-bit violation: '' @ flag_digit (error_code f) 3 @ ''\<newline>'') @
        ''  Instruction fetch: '' @ flag_digit (error_code f) 4 @ ''\<newline>'')"
    unfolding page_fault_report_def Let_def
    by (intro prints_printf p) (simp_all add: print_conversions flag_conversion del: drop_bit_0)
  then show ?thesis by (simp add: page_fault_text_def)
qed

lemma page_fault_prints_if:
  "prints s t x \<Longrightarrow> prints s (if b then page_fault_report f t else t) (x @ (if b then page_fault_text (error_code f) else []))"
  using page_fault_prints by simp

lemma isr_handler_halts:
  "\<exists>t. isr_handler cr2_register f s = Halt t \<and> t = s\<lparr>klog := klog t\<rparr> \<and> prints s t (report_text cr2_register f)"
proof -
  let ?a = "log_printf ''Error code: 0x%lx\<newline>'' [Word (error_code f)] (log_serial ''\<newline>'' (log_serial (exception_name (vector f))
    (log_serial ''Exception: '' (log_printf ''%lu\<newline>'' [Word (vector f)] (log_serial ''Vector: ''
    (log_serial ''\<newline>\<newline>*** EXCEPTION ***\<newline>'' s))))))"
  let ?b = "if vector f = 14 then page_fault_report f ?a else ?a"
  let ?cr2 = "if vector f = 14 then cr2_register else 0"
  have "prints s ?a (((((((([] @ ''\<newline>\<newline>*** EXCEPTION ***\<newline>'') @ ''Vector: '') @ dec (vector f) @ ''\<newline>'') @ ''Exception: '') @
      exception_name (vector f)) @ ''\<newline>'') @ ''Error code: 0x'' @ hex (error_code f) @ ''\<newline>''))"
    by (intro prints_printf prints_serial prints_refl) (simp_all add: print_conversions)
  then have a: "prints s ?a (''\<newline>\<newline>*** EXCEPTION ***\<newline>Vector: '' @ dec (vector f) @ ''\<newline>Exception: '' @
      exception_name (vector f) @ ''\<newline>Error code: 0x'' @ hex (error_code f) @ ''\<newline>'')" (is "prints s ?a ?x")
    by simp
  have b: "prints s ?b (?x @ (if vector f = 14 then page_fault_text (error_code f) else []))" (is "prints s ?b ?y")
    by (rule page_fault_prints_if [OF a])
  obtain t where t: "isr_handler cr2_register f s = Halt t" "t = log_serial ''\<newline>System halted.\<newline>''
      (log_printf ''R13: %p  R14: %p  R15: %p\<newline>'' [Ptr (r13 f), Ptr (r14 f), Ptr (r15 f)]
      (log_printf ''R10: %p  R11: %p  R12: %p\<newline>'' [Ptr (r10 f), Ptr (r11 f), Ptr (r12 f)]
      (log_printf ''RBP: %p  R8:  %p  R9:  %p\<newline>'' [Ptr (rbp f), Ptr (r8 f), Ptr (r9 f)]
      (log_printf ''RDX: %p  RSI: %p  RDI: %p\<newline>'' [Ptr (rdx f), Ptr (rsi f), Ptr (rdi f)]
      (log_printf ''RAX: %p  RBX: %p  RCX: %p\<newline>'' [Ptr (rax f), Ptr (rbx f), Ptr (rcx f)]
      (log_printf ''SS:     0x%lx\<newline>'' [Word (ss f)] (log_printf ''RSP:    %p\<newline>'' [Ptr (rsp f)]
      (log_printf ''RFLAGS: 0x%lx\<newline>'' [Word (rflags f)] (log_printf ''CS:     0x%lx\<newline>'' [Word (cs f)]
      (log_printf ''RIP:    %p\<newline>'' [Ptr (rip f)] (log_printf ''CR2:    %p\<newline>'' [Ptr ?cr2] ?b)))))))))))"
    by (simp add: isr_handler_def)
  have "prints s t ((((((((((((?y @ ''CR2:    '' @ pointer_string ?cr2 @ ''\<newline>'') @ ''RIP:    '' @ pointer_string (rip f) @ ''\<newline>'') @
      ''CS:     0x'' @ hex (cs f) @ ''\<newline>'') @ ''RFLAGS: 0x'' @ hex (rflags f) @ ''\<newline>'') @
      ''RSP:    '' @ pointer_string (rsp f) @ ''\<newline>'') @ ''SS:     0x'' @ hex (ss f) @ ''\<newline>'') @
      ''RAX: '' @ pointer_string (rax f) @ ''  RBX: '' @ pointer_string (rbx f) @ ''  RCX: '' @ pointer_string (rcx f) @ ''\<newline>'') @
      ''RDX: '' @ pointer_string (rdx f) @ ''  RSI: '' @ pointer_string (rsi f) @ ''  RDI: '' @ pointer_string (rdi f) @ ''\<newline>'') @
      ''RBP: '' @ pointer_string (rbp f) @ ''  R8:  '' @ pointer_string (r8 f) @ ''  R9:  '' @ pointer_string (r9 f) @ ''\<newline>'') @
      ''R10: '' @ pointer_string (r10 f) @ ''  R11: '' @ pointer_string (r11 f) @ ''  R12: '' @ pointer_string (r12 f) @ ''\<newline>'') @
      ''R13: '' @ pointer_string (r13 f) @ ''  R14: '' @ pointer_string (r14 f) @ ''  R15: '' @ pointer_string (r15 f) @ ''\<newline>'') @
      ''\<newline>System halted.\<newline>'')"
    unfolding t(2) by (intro prints_serial prints_printf b) (simp_all add: print_conversions del: if_split)
  moreover have "t = s\<lparr>klog := klog t\<rparr>"
    by (simp add: t(2) log_printf_def log_serial_def page_fault_report_def)
  ultimately show ?thesis using t(1) by (simp add: report_text_def)
qed

section \<open>Properties\<close>

text \<open>
  C14: for each of the 32 exception vectors the stub, run on the stack as the processor leaves it,
  hands the handler a frame whose members are the interrupted registers, the vector and the error
  code (0 where the processor pushes none); the handler is called on a 16-byte aligned stack; only
  the 22 cells of the frame are written; and the return sequence would restore every register.
\<close>

theorem isr_entry_frame:
  assumes "v < 32"
  shows "\<exists>stub st. isr_stub v = Some stub \<and> st = isr_common_push r (stub (cpu_deliver v code r m)) \<and>
    frame_at (snd st) (fst st) = frame_of v code r \<and> unat (isr_call_rsp st) mod 16 = 0 \<and>
    (\<forall>a. (\<forall>i < 22. a \<noteq> fst st + 8 * of_nat i) \<longrightarrow> snd st a = m a) \<and>
    isr_common_pop (fst st) (snd st) = r"
proof -
  let ?p = "rg_rsp r AND NOT 0xF" and ?vs = "isr_pushes v code r"
  obtain stub where stub: "isr_stub v = Some stub"
    "isr_common_push r (stub (cpu_deliver v code r m)) = push_all ?vs (?p, m)"
    using isr_entry_pushes [OF assms] by blast
  let ?st = "push_all ?vs (?p, m)"
  have len: "length ?vs = 22" by (simp add: isr_pushes_def)
  have cell: "snd ?st (fst ?st + 8 * of_nat i) = rev ?vs ! i" if "i < 22" for i
    using that by (intro push_all_frame) (simp_all add: len)
  have "frame_at (snd ?st) (fst ?st) = frame_of v code r"
    unfolding frame_at_def Let_def by (simp only: cell) (simp add: isr_pushes_def frame_of_def)
  moreover have "isr_common_pop (fst ?st) (snd ?st) = r"
    unfolding isr_common_pop_def
    using cell [of 0] cell [of 1] cell [of 2] cell [of 3] cell [of 4] cell [of 5] cell [of 6] cell [of 7] cell [of 8]
      cell [of 9] cell [of 10] cell [of 11] cell [of 12] cell [of 13] cell [of 14] cell [of 17] cell [of 18]
      cell [of 19] cell [of 20] cell [of 21] by (simp add: isr_pushes_def)
  moreover have "snd ?st a = m a" if a: "\<forall>i < 22. a \<noteq> fst ?st + 8 * of_nat i" for a
  proof (rule push_all_other)
    fix k
    assume k: "k < length ?vs"
    then have "fst ?st + 8 * of_nat (21 - k) = ?p - 8 * of_nat (Suc k)"
      by (simp add: push_all_top len of_nat_diff algebra_simps)
    moreover have "21 - k < 22" by simp
    ultimately show "a \<noteq> ?p - 8 * of_nat (Suc k)" using a by metis
  qed
  moreover have "unat (isr_call_rsp ?st) mod 16 = 0"
  proof -
    have "take_bit 4 (isr_call_rsp ?st) = 0"
      unfolding isr_call_rsp_def by (rule bit_word_eqI) (auto simp: bit_simps)
    then show ?thesis using unat_take_bit [of 4 "isr_call_rsp ?st"] by simp
  qed
  ultimately show ?thesis using stub by auto
qed

theorem isr_entry_frame_witness:
  "\<exists>stub st. isr_stub 14 = Some stub \<and>
     st = isr_common_push (isr_common_pop 0x100 (\<lambda>a. a)) (stub (cpu_deliver 14 2 (isr_common_pop 0x100 (\<lambda>a. a)) (\<lambda>a. 0))) \<and>
     vector (frame_at (snd st) (fst st)) = 14 \<and> error_code (frame_at (snd st) (fst st)) = 2"
proof -
  have "(14 :: nat) < 32" by simp
  from isr_entry_frame [OF this, of "isr_common_pop 0x100 (\<lambda>a. a)" 2 "\<lambda>a. 0"]
  show ?thesis by (fastforce simp: frame_of_def cpu_pushes_error_def)
qed

text \<open>
  C31: the exception handler stops the machine for every frame, changes nothing but the console, and
  its console output is the complete report: every conversion of a format has its argument, the
  page-fault flags are the bits of the error code, and CR2 is shown for a page fault only.
\<close>

theorem isr_handler_reports:
  "\<exists>t. isr_handler cr2_register f s = Halt t \<and> t = s\<lparr>klog := klog t\<rparr> \<and> prints s t (report_text cr2_register f)"
  by (rule isr_handler_halts)

end
