(* ===== verification/Cell_Bytes.thy ===== *)
theory Cell_Bytes
  imports Prelude
begin

text \<open>
  Bytes inside the 8-byte cells of \<open>Machine\<close>'s memory, for the accesses that are not aligned 64-bit
  ones: the 32-bit pixel stores of \<open>kmain\<close> and the store of its intentional fault. The byte at address
  \<open>a\<close> is byte \<open>a mod 8\<close>, little endian, of the cell at \<open>a\<close> rounded down to 8; a 32-bit access at any
  address is four byte accesses. So a pixel that overlapped a page table would change its entries.
\<close>

definition cell_of :: "ptr \<Rightarrow> ptr" where
  "cell_of a = a AND NOT 7"

definition lane :: "ptr \<Rightarrow> nat" where
  "lane a = 8 * unat (take_bit 3 a)"

definition read8 :: "(ptr \<Rightarrow> u64) \<Rightarrow> ptr \<Rightarrow> u8" where
  "read8 m a = ucast (drop_bit (lane a) (m (cell_of a)))"

definition write8 :: "ptr \<Rightarrow> u8 \<Rightarrow> (ptr \<Rightarrow> u64) \<Rightarrow> ptr \<Rightarrow> u64" where
  "write8 a b m = m(cell_of a := (m (cell_of a) AND NOT (push_bit (lane a) (mask 8))) OR push_bit (lane a) (ucast b))"

definition load32 :: "(ptr \<Rightarrow> u64) \<Rightarrow> ptr \<Rightarrow> u32" where
  "load32 m p = ucast (read8 m p) OR push_bit 8 (ucast (read8 m (p + 1))) OR push_bit 16 (ucast (read8 m (p + 2))) OR
     push_bit 24 (ucast (read8 m (p + 3)))"

definition store32 :: "ptr \<Rightarrow> u32 \<Rightarrow> (ptr \<Rightarrow> u64) \<Rightarrow> ptr \<Rightarrow> u64" where
  "store32 p v m = write8 (p + 3) (ucast (drop_bit 24 v)) (write8 (p + 2) (ucast (drop_bit 16 v))
     (write8 (p + 1) (ucast (drop_bit 8 v)) (write8 p (ucast v) m)))"

section \<open>Bytes\<close>

lemma lane_le: "lane a \<le> 56"
proof -
  have "unat (take_bit 3 a) < 8" by (simp add: unat_take_bit)
  then show ?thesis by (simp add: lane_def)
qed

lemma cell_lane_eq: "cell_of a = cell_of c \<Longrightarrow> lane a = lane c \<Longrightarrow> a = c"
proof -
  assume "cell_of a = cell_of c" "lane a = lane c"
  then have "a AND NOT 7 = c AND NOT 7" "take_bit 3 a = take_bit 3 c"
    by (simp_all add: cell_of_def lane_def unat_eqI)
  moreover have "x = (x AND NOT 7) OR take_bit 3 x" for x :: u64
  proof -
    have "take_bit 3 x = x AND 7" by (simp add: take_bit_eq_mask mask_eq_exp_minus_1)
    then show ?thesis by (simp add: bit_eq_iff bit_simps) blast
  qed
  ultimately show ?thesis by metis
qed

lemma lane_slots: "n < 8 \<Longrightarrow> lane a \<le> lane c + n \<and> lane c + n < lane a + 8 \<longleftrightarrow> lane a = lane c"
  by (auto simp: lane_def)

lemma bit_read8: "bit (read8 m a) n \<longleftrightarrow> n < 8 \<and> bit (m (cell_of a)) (lane a + n)"
  by (simp add: read8_def bit_ucast_iff bit_drop_bit_eq)

lemma read8_write8 [simp]: "read8 (write8 a b m) c = (if c = a then b else read8 m c)"
proof (cases "cell_of a = cell_of c")
  case False
  then show ?thesis by (auto simp: read8_def write8_def)
next
  case True
  show ?thesis
  proof (rule bit_word_eqI)
    fix n
    assume "n < LENGTH(8)"
    then have n: "n < 8" by simp
    let ?i = "lane c + n"
    have i: "?i < 64" using n lane_le [of c] by linarith
    have w: "bit (read8 (write8 a b m) c) n \<longleftrightarrow>
        bit (m (cell_of c)) ?i \<and> \<not> (lane a \<le> ?i \<and> ?i < lane a + 8) \<or> lane a \<le> ?i \<and> bit b (?i - lane a)"
      using n i True unfolding bit_read8 write8_def
      by (simp add: bit_or_iff bit_and_iff bit_not_iff bit_push_bit_iff bit_mask_iff bit_ucast_iff) linarith
    show "bit (read8 (write8 a b m) c) n = bit (if c = a then b else read8 m c) n"
    proof (cases "c = a")
      case True
      then show ?thesis using n w by simp
    next
      case False
      then have "\<not> (lane a \<le> ?i \<and> ?i < lane a + 8)" using cell_lane_eq [OF True] lane_slots [OF n, of a c] by blast
      moreover from this have "lane a \<le> ?i \<Longrightarrow> \<not> bit b (?i - lane a)" using bit_imp_le_length [of b "?i - lane a"] by auto
      ultimately show ?thesis using False n w bit_read8 [of m c n] by auto
    qed
  qed
qed

lemma write8_other: "c \<noteq> cell_of a \<Longrightarrow> write8 a b m c = m c"
  by (simp add: write8_def)

section \<open>Double words\<close>

abbreviation dword :: "ptr \<Rightarrow> ptr set" where
  "dword p \<equiv> {p, p + 1, p + 2, p + 3}"

lemma dword_offset: "unat p + 4 \<le> 2 ^ 64 \<Longrightarrow> a \<in> dword p \<Longrightarrow> unat p \<le> unat a \<and> unat a < unat p + 4"
  by (auto simp: unat_word_ariths)

lemma read8_store32: "a \<notin> dword p \<Longrightarrow> read8 (store32 p v m) a = read8 m a"
  by (simp add: store32_def)

lemma load32_store32: "load32 (store32 p v m) p = v"
proof -
  let ?w = "ucast (ucast v :: u8) OR push_bit 8 (ucast (ucast (drop_bit 8 v) :: u8)) OR
    push_bit 16 (ucast (ucast (drop_bit 16 v) :: u8)) OR push_bit 24 (ucast (ucast (drop_bit 24 v) :: u8)) :: u32"
  have "?w = v"
  proof (rule bit_word_eqI)
    fix n
    assume "n < LENGTH(32)"
    then consider "n < 8" | "8 \<le> n" "n < 16" | "16 \<le> n" "n < 24" | "24 \<le> n" "n < 32" by fastforce
    then show "bit ?w n = bit v n" by cases (auto simp: bit_simps)
  qed
  then show ?thesis by (simp add: load32_def store32_def)
qed

lemma load32_cong:
  "(\<And>a. a \<in> dword p \<Longrightarrow> read8 m a = read8 m' a) \<Longrightarrow> load32 m p = load32 m' p"
  by (simp add: load32_def)

lemma store32_other:
  "(\<And>a. a \<in> dword p \<Longrightarrow> c \<noteq> cell_of a) \<Longrightarrow> store32 p v m c = m c"
  by (simp add: store32_def write8_other)

end
