(* ===== verification/Boot.thy ===== *)
theory Boot
  imports Vmm_Kernel Pmm_Init Interrupts Cell_Bytes
begin

text \<open>
  The kernel entry point, \<open>kmain\<close> of \<open>src/src/main.cpp\<close>. What the bootloader answers, the addresses
  the linker chose, the registers at the fault that ends the run and the compiled handler's use of the
  stack are parameters. The function is cut at the comments of the source: the checks of the responses, the translation of the memory map, the
  memory managers up to the switch of CR3, the framebuffer, and the intentional fault.

  \<open>kmain\<close> never returns. Its result says how the machine stops, with the state it stops in; the
  recorded console calls are then played on the serial device. \<open>None\<close> stands for not stopping.
\<close>

section \<open>Parameters\<close>

text \<open>The fields of the Limine responses that the kernel reads; \<open>None\<close> is a null response.\<close>

record framebuffer =
  fb_address :: ptr
  fb_width :: u64
  fb_height :: u64
  fb_pitch :: u64

record memmap_entry =
  entry_base :: u64
  entry_length :: u64
  entry_type :: u64

record boot_info =
  base_revision_supported :: bool
  framebuffer_response :: "framebuffer list option"
  memmap_response :: "memmap_entry list option"
  hhdm_response :: "u64 option"
  kernel_address_response :: "(u64 \<times> u64) option"

record linker_symbols =
  sym_text_start :: u64
  sym_text_end :: u64
  sym_rodata_start :: u64
  sym_rodata_end :: u64
  sym_data_start :: u64
  sym_data_end :: u64
  sym_limine_requests_start :: u64
  sym_gdt :: u64
  sym_idt :: u64
  sym_isr_stub :: "nat \<Rightarrow> u64"

record 'd kernel =
  mach :: machine
  segs :: segments
  output_sink :: "'d serial sink"
  uart :: "'d serial"

text \<open>
  What the compiled \<open>isr_handler\<close> and the functions it calls do with the stack below their return address:
  how many 8-byte words they use, what they leave there, and how many console calls they have made when
  they use the last of these words (which matters only if the stack is too short for them).
\<close>

record handler_stack =
  hs_words :: nat
  hs_contents :: "ptr \<Rightarrow> u64"
  hs_calls :: nat

section \<open>The checks\<close>

definition fatal :: "string \<Rightarrow> machine \<Rightarrow> ('a, machine) exec" where
  "fatal message s = Halt (log_printf message [] s)"

text \<open>\<open>kmain\<close> from the first serial output to the check of the number of memory-map entries.\<close>

definition check_responses ::
  "boot_info \<Rightarrow> machine \<Rightarrow> (framebuffer \<times> memmap_entry list \<times> u64 \<times> u64 \<times> u64, machine) exec" where
  "check_responses boot s =
     (let s = log_serial ''WaterBuffalo booting\<newline>'' s
      in if \<not> base_revision_supported boot then fatal ''fatal: bootloader rejected base revision\<newline>'' s
      else case framebuffer_response boot of
        None \<Rightarrow> fatal ''fatal: no framebuffer from bootloader\<newline>'' s
      | Some framebuffers \<Rightarrow>
          if length framebuffers < 1 then fatal ''fatal: no framebuffer from bootloader\<newline>'' s
          else let s = log_serial ''framebuffer acquired\<newline>'' s
          in case memmap_response boot of
            None \<Rightarrow> fatal ''fatal: no memory map from bootloader\<newline>'' s
          | Some entries \<Rightarrow>
              (case hhdm_response boot of
                 None \<Rightarrow> fatal ''fatal: no HHDM response from bootloader\<newline>'' s
               | Some hhdm_offset \<Rightarrow>
                   (case kernel_address_response boot of
                      None \<Rightarrow> fatal ''fatal: no kernel address response from bootloader\<newline>'' s
                    | Some (vbase, pbase) \<Rightarrow>
                        if length entries > 64 then fatal ''fatal: memory map has too many entries\<newline>'' s
                        else Ret (framebuffers ! 0, entries, hhdm_offset, vbase, pbase) s)))"

text \<open>The \<open>switch\<close> on \<open>entry->type\<close>, with the values of the boot protocol.\<close>

definition region_type_of :: "u64 \<Rightarrow> RegionType option" where
  "region_type_of ty =
     (if ty = 0 then Some Usable
      else if ty = 1 then Some Reserved
      else if ty = 2 then Some AcpiReclaimable
      else if ty = 3 then Some AcpiNvs
      else if ty = 4 then Some Bad
      else if ty = 5 then Some BootloaderReclaimable
      else if ty = 6 then Some KernelAndModules
      else if ty = 7 then Some Framebuffer
      else None)"

fun translate_memmap :: "memmap_entry list \<Rightarrow> machine \<Rightarrow> (MemoryRegion list, machine) exec" where
  "translate_memmap [] s = Ret [] s"
| "translate_memmap (entry # entries) s =
     (case region_type_of (entry_type entry) of
        None \<Rightarrow> Halt (log_printf ''fatal: unknown memory map type: %lu\<newline>'' [Word (entry_type entry)] s)
      | Some ty \<Rightarrow>
          (case translate_memmap entries s of
             Halt s \<Rightarrow> Halt s
           | Ret regions s \<Rightarrow>
               Ret (\<lparr>base = entry_base entry, length_of = entry_length entry, type_of = ty\<rparr> # regions) s))"

fun kernel_physical_base_valid :: "MemoryRegion list \<Rightarrow> u64 \<Rightarrow> bool" where
  "kernel_physical_base_valid [] kernel_physical_base = False"
| "kernel_physical_base_valid (region # regions) kernel_physical_base =
     (if type_of region \<noteq> KernelAndModules then kernel_physical_base_valid regions kernel_physical_base
      else let region_end = base region + length_of region
           in if kernel_physical_base \<ge> base region \<and> kernel_physical_base < region_end then True
              else kernel_physical_base_valid regions kernel_physical_base)"

text \<open>The lambda \<open>virtual_to_physical\<close> of \<open>kmain\<close>.\<close>

definition image_virtual_to_physical :: "u64 \<Rightarrow> u64 \<Rightarrow> u64 \<Rightarrow> u64" where
  "image_virtual_to_physical kernel_virtual_base kernel_physical_base address =
     address - kernel_virtual_base + kernel_physical_base"

section \<open>The memory managers\<close>

definition log_segment :: "string \<Rightarrow> u64 \<Rightarrow> u64 \<Rightarrow> (u64 \<Rightarrow> u64) \<Rightarrow> machine \<Rightarrow> machine" where
  "log_segment name start end to_physical s =
     log_printf (name @ ''virt=%p-%p size=%lu phys=%p-%p\<newline>'')
       [Word start, Word end, Word (end - start), Word (to_physical start), Word (to_physical end)] s"

definition log_translation :: "string \<Rightarrow> u64 \<Rightarrow> u64 \<Rightarrow> u64 \<Rightarrow> machine \<Rightarrow> machine" where
  "log_translation name virt phys expected s =
     log_printf (name @ ''%p -> %p (expect %p)\<newline>'') [Word virt, Word phys, Word expected] s"

definition kernel_layout :: "u64 \<Rightarrow> u64 \<Rightarrow> linker_symbols \<Rightarrow> KernelLayout" where
  "kernel_layout kernel_virtual_base kernel_physical_base syms =
     \<lparr>virtual_base = kernel_virtual_base, physical_base = kernel_physical_base,
      image_start = sym_limine_requests_start syms, text_start = sym_text_start syms,
      rodata_start = sym_rodata_start syms, data_start = sym_data_start syms, data_end = sym_data_end syms\<rparr>"

text \<open>The diagnostics between the construction of the address space and the switch to it.\<close>

definition log_address_space ::
  "AddressSpace \<Rightarrow> framebuffer \<Rightarrow> u64 \<Rightarrow> (u64 \<Rightarrow> u64) \<Rightarrow> linker_symbols \<Rightarrow> machine \<Rightarrow> machine" where
  "log_address_space space fb hhdm_offset to_physical syms s =
     (let s = log_printf ''pml4 physical:   %p\<newline>'' [Word (pml4_physical space)] s;
          s = log_printf ''direct map:      %p -> %p (expect 0x1000)\<newline>''
                [Word (hhdm_offset + 0x1000), Word (translate space (hhdm_offset + 0x1000) s)] s;
          s = log_translation ''framebuffer:     '' (fb_address fb) (translate space (fb_address fb) s)
                (fb_address fb - hhdm_offset) s;
          s = log_translation ''image:           '' (sym_limine_requests_start syms)
                (translate space (sym_limine_requests_start syms) s) (to_physical (sym_limine_requests_start syms)) s;
          s = log_translation ''.text:           '' (sym_text_start syms) (translate space (sym_text_start syms) s)
                (to_physical (sym_text_start syms)) s
      in log_translation ''.data:           '' (sym_data_start syms) (translate space (sym_data_start syms) s)
           (to_physical (sym_data_start syms)) s)"

text \<open>
  \<open>kmain\<close> from the translation of the memory map to the message after CR3 is loaded. \<open>out\<close> is the
  value of the uninitialised local \<open>space\<close>.
\<close>

definition start_memory ::
  "AddressSpace \<Rightarrow> framebuffer \<Rightarrow> memmap_entry list \<Rightarrow> u64 \<Rightarrow> u64 \<Rightarrow> u64 \<Rightarrow> linker_symbols \<Rightarrow> machine \<Rightarrow>
     (AddressSpace, machine) exec option" where
  "start_memory out fb entries hhdm_offset kernel_virtual_base kernel_physical_base syms s =
     (case translate_memmap entries s of
        Halt s \<Rightarrow> Some (Halt s)
      | Ret regions s \<Rightarrow>
          let s = log_printf ''kernel virtual base:  %p\<newline>'' [Word kernel_virtual_base] s;
              s = log_printf ''kernel physical base: %p\<newline>'' [Word kernel_physical_base] s
          in if \<not> kernel_physical_base_valid regions kernel_physical_base
             then Some (fatal ''fatal: kernel physical base is not inside KERNEL_AND_MODULES region\<newline>'' s)
             else
               let s = log_printf ''kernel physical base verified\<newline>'' [] s;
                   to_physical = image_virtual_to_physical kernel_virtual_base kernel_physical_base;
                   s = log_segment ''.text:   '' (sym_text_start syms) (sym_text_end syms) to_physical s;
                   s = log_segment ''.rodata: '' (sym_rodata_start syms) (sym_rodata_end syms) to_physical s;
                   s = log_segment ''.data:   '' (sym_data_start syms) (sym_data_end syms) to_physical s
               in case pmm_init regions hhdm_offset s of
                    Halt s \<Rightarrow> Some (Halt s)
                  | Ret _ s \<Rightarrow>
                      do {
                        (ok, space, s) \<leftarrow> build_kernel_address_space out (Some regions) hhdm_offset
                            (kernel_layout kernel_virtual_base kernel_physical_base syms) s;
                        if \<not> ok then Some (fatal ''FATAL: failed to build kernel address space\<newline>'' s)
                        else
                          let s = log_address_space space fb hhdm_offset to_physical syms s;
                              s = log_printf ''loading cr3...\<newline>'' [] s;
                              s = load_address_space space s
                          in Some (Ret space (log_printf ''cr3 loaded\<newline>'' [] s))})"

section \<open>The framebuffer\<close>

definition pixel_cell :: "framebuffer \<Rightarrow> u64 \<Rightarrow> u64 \<Rightarrow> ptr" where
  "pixel_cell fb x y = fb_address fb + 4 * (y * (fb_pitch fb div 4) + x)"

definition pixel_color :: "framebuffer \<Rightarrow> u64 \<Rightarrow> u64 \<Rightarrow> u32" where
  "pixel_color fb x y =
     (let nX = ucast (x * 255 div fb_width fb);
          nY = ucast (y * 255 div fb_height fb)
      in push_bit 8 nY OR nX)"

text \<open>
  The two loops, on memory. \<open>fault\<close> says whether a 4-byte store at an address faults with the page tables
  that memory then holds, with the faulting address and the error code; a fault ends the loops.
\<close>

function draw_row ::
  "((ptr \<Rightarrow> u64) \<Rightarrow> ptr \<Rightarrow> (u64 \<times> u64) option) \<Rightarrow> framebuffer \<Rightarrow> u64 \<Rightarrow> u64 \<Rightarrow> (ptr \<Rightarrow> u64) \<Rightarrow>
     (u64 \<times> u64) \<times> (ptr \<Rightarrow> u64) + (ptr \<Rightarrow> u64)" where
  "draw_row fault fb y x m =
     (if x < fb_width fb then
        (case fault m (pixel_cell fb x y) of
           Some f \<Rightarrow> Inl (f, m)
         | None \<Rightarrow> draw_row fault fb y (x + 1) (store32 (pixel_cell fb x y) (pixel_color fb x y) m))
      else Inr m)"
  by pat_completeness auto
termination
  by (relation "measure (\<lambda>(fault, fb, y, x, m). unat (fb_width fb) - unat x)") (auto simp: unat_Suc_less word_less_nat_alt)

function draw_rows ::
  "((ptr \<Rightarrow> u64) \<Rightarrow> ptr \<Rightarrow> (u64 \<times> u64) option) \<Rightarrow> framebuffer \<Rightarrow> u64 \<Rightarrow> (ptr \<Rightarrow> u64) \<Rightarrow>
     (u64 \<times> u64) \<times> (ptr \<Rightarrow> u64) + (ptr \<Rightarrow> u64)" where
  "draw_rows fault fb y m =
     (if y < fb_height fb then
        (case draw_row fault fb y 0 m of
           Inl e \<Rightarrow> Inl e
         | Inr m \<Rightarrow> draw_rows fault fb (y + 1) m)
      else Inr m)"
  by pat_completeness auto
termination
  by (relation "measure (\<lambda>(fault, fb, y, m). unat (fb_height fb) - unat y)") (auto simp: unat_Suc_less word_less_nat_alt)

declare draw_row.simps [simp del] draw_rows.simps [simp del]

section \<open>The fault\<close>

datatype 'd ending = Halted "'d kernel" | TripleFault "'d kernel" | Undefined print_error

text \<open>The stub whose code is at an address.\<close>

definition stub_at :: "(nat \<Rightarrow> u64) \<Rightarrow> u64 \<Rightarrow> nat option" where
  "stub_at stubs a = find (\<lambda>i. stubs i = a) [0..<32]"

text \<open>The rights of the loaded page tables, byte by byte.\<close>

definition readable :: "machine \<Rightarrow> u64 \<Rightarrow> nat \<Rightarrow> bool" where
  "readable s a n = list_all (\<lambda>i. space_map s (cr3 s) (a + of_nat i) \<noteq> None) [0..<n]"

definition writable :: "machine \<Rightarrow> u64 \<Rightarrow> nat \<Rightarrow> bool" where
  "writable s a n =
     list_all (\<lambda>i. case space_map s (cr3 s) (a + of_nat i) of None \<Rightarrow> False | Some (_, flags) \<Rightarrow> bit flags 1) [0..<n]"

text \<open>
  The page fault of a store of \<open>n\<close> bytes by the kernel: the first byte whose page is not mapped writable, and the
  error code (write, supervisor: 2, or 3 if the page is present).
\<close>

definition write_fault :: "machine \<Rightarrow> u64 \<Rightarrow> nat \<Rightarrow> (u64 \<times> u64) option" where
  "write_fault s a n =
     map_option (\<lambda>b. (b, if space_map s (cr3 s) b = None then 2 else 3))
       (find (\<lambda>b. case space_map s (cr3 s) b of None \<Rightarrow> True | Some (_, flags) \<Rightarrow> \<not> bit flags 1) (map (\<lambda>i. a + of_nat i) [0..<n]))"

definition executable :: "machine \<Rightarrow> u64 \<Rightarrow> bool" where
  "executable s a = (case space_map s (cr3 s) a of None \<Rightarrow> False | Some (_, flags) \<Rightarrow> \<not> bit flags 63)"

text \<open>
  What the processor needs to enter the handler of vector \<open>v\<close>: a present gate within the limit of the
  IDT, a 64-bit code segment within the limit of the GDT, and under the loaded page tables the gate and
  the descriptor mapped, the handler executable and the stack writable for the 22 words that the
  processor and the stub push.
\<close>

definition deliverable :: "nat \<Rightarrow> registers \<Rightarrow> 'd kernel \<Rightarrow> bool" where
  "deliverable v regs k =
     (let g = segs k; s = mach k; gate = idt g ! v
      in 16 * v + 15 \<le> unat (limit (idtr g)) \<and> readable s (pointer_base (idtr g) + 16 * of_nat v) 16 \<and>
         bit (type_attr gate) 7 \<and>
         (case selected gdt (gdtr g) (selector gate) of None \<Rightarrow> False | Some d \<Rightarrow> code64 d) \<and>
         readable s (pointer_base (gdtr g) + ucast (selector gate AND NOT 7)) 8 \<and>
         executable s (gate_handler gate) \<and>
         writable s ((rg_rsp regs AND NOT 0xF) - 176) 176)"

text \<open>
  The words below \<open>call_rsp\<close> that the handler uses: the return address and its own. What it leaves there
  where the page tables let it write.
\<close>

definition handler_low :: "handler_stack \<Rightarrow> u64 \<Rightarrow> u64" where
  "handler_low use call_rsp = call_rsp - 8 * of_nat (Suc (hs_words use))"

definition scribble :: "handler_stack \<Rightarrow> u64 \<Rightarrow> machine \<Rightarrow> ptr \<Rightarrow> u64" where
  "scribble use call_rsp s a =
     (if list_ex (\<lambda>i. a = call_rsp - 8 * of_nat (Suc i)) [0..<Suc (hs_words use)] \<and> writable s a 8 then hs_contents use a
      else mem s a)"

text \<open>
  Delivery of an exception through the loaded IDT: the gate's handler is a stub, whose pushes and
  call of \<open>isr_handler\<close> follow. Where delivery is not possible the processor shuts down; where the stack
  below the frame is too short for the handler it does so in the midst of the report, since the fault
  of that push cannot be delivered either.
\<close>

definition raise_exception ::
  "handler_stack \<Rightarrow> (nat \<Rightarrow> u64) \<Rightarrow> nat \<Rightarrow> u64 \<Rightarrow> u64 \<Rightarrow> registers \<Rightarrow> 'd kernel \<Rightarrow> 'd ending" where
  "raise_exception use stubs v code cr2_register regs k =
     (if \<not> deliverable v regs k then TripleFault k
      else case stub_at stubs (gate_handler (idt (segs k) ! v)) of
        None \<Rightarrow> TripleFault k
      | Some n \<Rightarrow>
          (case isr_stub n of
             None \<Rightarrow> TripleFault k
           | Some stub \<Rightarrow>
               let st = isr_common_push regs (stub (cpu_deliver v code regs (mem (mach k))));
                   s = (mach k)\<lparr>mem := snd st\<rparr>;
                   call_rsp = isr_call_rsp st;
                   t = (case isr_handler cr2_register (frame_at (snd st) (fst st)) s of Halt t \<Rightarrow> t | Ret _ t \<Rightarrow> t)\<lparr>mem := scribble use call_rsp s\<rparr>
               in if writable s (handler_low use call_rsp) (8 * Suc (hs_words use)) then Halted (k\<lparr>mach := t\<rparr>)
                  else TripleFault (k\<lparr>mach := t\<lparr>klog := klog s @ take (hs_calls use) (drop (length (klog s)) (klog t))\<rparr>\<rparr>)))"

text \<open>
  The store \<open>*p = 1\<close> through the null pointer under the loaded page tables: a page fault unless the page
  is mapped writable; otherwise the store happens and \<open>hcf\<close> follows.
\<close>

definition null_store :: "handler_stack \<Rightarrow> (nat \<Rightarrow> u64) \<Rightarrow> registers \<Rightarrow> 'd kernel \<Rightarrow> 'd ending" where
  "null_store use stubs regs k =
     (case write_fault (mach k) 0 4 of
        Some (address, code) \<Rightarrow> raise_exception use stubs 14 code address regs k
      | None \<Rightarrow> Halted (k\<lparr>mach := (mach k)\<lparr>mem := store32 0 1 (mem (mach k))\<rparr>\<rparr>))"

section \<open>The entry point\<close>

text \<open>Play the recorded console calls on the serial device.\<close>

fun flush_console :: "'d port_io \<Rightarrow> 'd ending \<Rightarrow> 'd ending" where
  "flush_console io (Halted k) =
     (case run_console io (output_sink k) (klog (mach k)) (uart k) of
        Inl e \<Rightarrow> Undefined e | Inr u \<Rightarrow> Halted (k\<lparr>uart := u\<rparr>))"
| "flush_console io (TripleFault k) =
     (case run_console io (output_sink k) (klog (mach k)) (uart k) of
        Inl e \<Rightarrow> Undefined e | Inr u \<Rightarrow> TripleFault (k\<lparr>uart := u\<rparr>))"
| "flush_console io (Undefined e) = Undefined e"

definition kmain_body ::
  "AddressSpace \<Rightarrow> boot_info \<Rightarrow> linker_symbols \<Rightarrow> handler_stack \<Rightarrow> registers \<Rightarrow> 'd kernel \<Rightarrow> 'd ending option" where
  "kmain_body out boot syms use regs k =
     (case check_responses boot (mach k) of
        Halt s \<Rightarrow> Some (Halted (k\<lparr>mach := s\<rparr>))
      | Ret (fb, entries, hhdm_offset, vbase, pbase) s \<Rightarrow>
          do {
            r \<leftarrow> start_memory out fb entries hhdm_offset vbase pbase syms s;
            (case r of
               Halt s \<Rightarrow> Some (Halted (k\<lparr>mach := s\<rparr>))
             | Ret space s \<Rightarrow>
                 (case draw_rows (\<lambda>m p. write_fault (s\<lparr>mem := m\<rparr>) p 4) fb 0 (mem s) of
                    Inl ((address, code), m) \<Rightarrow>
                      Some (raise_exception use (sym_isr_stub syms) 14 code address regs (k\<lparr>mach := s\<lparr>mem := m\<rparr>\<rparr>))
                  | Inr m \<Rightarrow>
                      let k = k\<lparr>mach := log_serial ''done\<newline>'' (s\<lparr>mem := m\<rparr>)\<rparr>
                      in Some (null_store use (sym_isr_stub syms) regs k)))})"

definition kmain ::
  "'d port_io \<Rightarrow> AddressSpace \<Rightarrow> boot_info \<Rightarrow> linker_symbols \<Rightarrow> handler_stack \<Rightarrow> registers \<Rightarrow> 'd kernel \<Rightarrow> 'd ending option" where
  "kmain io out boot syms use regs k =
     (let k = k\<lparr>segs := gdt_init (sym_gdt syms) (segs k)\<rparr>;
          k = k\<lparr>segs := idt_init (sym_idt syms) (isr_stub_table (sym_isr_stub syms)) (segs k)\<rparr>;
          k = k\<lparr>uart := snd (serial_init io 115200 (uart k))\<rparr>;
          k = k\<lparr>output_sink := set_sink (Some (serial_putc io)) (output_sink k)\<rparr>
      in map_option (flush_console io) (kmain_body out boot syms use regs k))"

end
