(* ===== verification/Boot_Output.thy ===== *)
theory Boot_Output
  imports Boot
begin

text \<open>
  What the kernel prints while it starts. The memory managers print only from \<open>init\<close>; every
  \<open>kprintf\<close> call on every path through \<open>kmain\<close> stays inside its format string and its arguments and finds
  the bytes it reads, and the calls whose argument types are not those that \<open>va_arg\<close> names are known; and
  CR3 is written at one place only.
\<close>

section \<open>Silent operations\<close>

definition quiet :: "machine \<Rightarrow> machine \<Rightarrow> bool" where
  "quiet s t \<longleftrightarrow> klog t = klog s \<and> cr3 t = cr3 s"

lemma quiet_refl [simp, intro]: "quiet s s"
  by (simp add: quiet_def)

lemma quiet_trans: "quiet s t \<Longrightarrow> quiet t u \<Longrightarrow> quiet s u"
  by (simp add: quiet_def)

lemma quiet_store [simp]: "quiet s (store p v t) = quiet s t"
  by (simp add: quiet_def)

lemma quiet_alloc_scan: "quiet s (snd (alloc_scan i s))"
proof (induction i s rule: alloc_scan.induct)
  case (1 i s)
  then show ?case
    by (subst alloc_scan.simps) (auto simp: Let_def quiet_def)
qed

lemma quiet_zero_entries: "quiet s (zero_entries table i s)"
proof (induction table i s rule: zero_entries.induct)
  case (1 table i s)
  then show ?case
    by (subst zero_entries.simps) (auto simp: quiet_def)
qed

lemma quiet_allocate_table: "allocate_table s = (r, t) \<Longrightarrow> quiet s t"
  using quiet_alloc_scan [of s 0] quiet_zero_entries quiet_trans
  by (fastforce simp: allocate_table_def alloc_frame_def Let_def split: prod.splits if_splits)

lemma quiet_create_address_space: "create_address_space out s = (ok, space, t) \<Longrightarrow> quiet s t"
  by (auto simp: create_address_space_def split: prod.splits option.splits dest: quiet_allocate_table)

lemma quiet_ensure_table: "ensure_table entry f s = (p, t) \<Longrightarrow> quiet s t"
  by (auto simp: ensure_table_def Let_def split: prod.splits option.splits if_splits dest: quiet_allocate_table)

lemma quiet_map_page: "map_page table virt phys f s = (ok, t) \<Longrightarrow> quiet s t"
  unfolding map_page_def Let_def
  by (auto split: prod.splits if_splits dest!: quiet_ensure_table intro: quiet_trans)

lemma quiet_map_page_large: "map_page_large table virt phys f s = (ok, t) \<Longrightarrow> quiet s t"
  unfolding map_page_large_def Let_def
  by (auto split: prod.splits if_splits dest!: quiet_ensure_table intro: quiet_trans)

lemma quiet_map_range_loop: "map_range_loop space virt phys n f off s = Some r \<Longrightarrow> quiet s (snd r)"
proof (erule map_range_loop.raw_induct [where P = "\<lambda>space virt phys n f off s r. quiet s (snd r)", rotated])
  fix loop space virt phys n f off s r
  assume IH: "\<And>space virt phys n f off s r. loop space virt phys n f off s = Some r \<Longrightarrow> quiet s (snd r)"
    and body: "(if off < n then case map_page (pml4 space) (virt + off) (phys + off) f s of (ok, s) \<Rightarrow>
        if \<not> ok then Some (False, s) else loop space virt phys n f (off + kPageSize) s
      else Some (True, s)) = Some r"
  obtain ok t where m: "map_page (pml4 space) (virt + off) (phys + off) f s = (ok, t)" by fastforce
  show "quiet s (snd r)"
    using body IH [of space virt phys n f "off + kPageSize" t r] quiet_trans [OF quiet_map_page [OF m]] quiet_map_page [OF m]
    by (auto simp: m split: if_splits)
qed

lemma quiet_map_range_large_loop: "map_range_large_loop space virt phys n f off s = Some r \<Longrightarrow> quiet s (snd r)"
proof (erule map_range_large_loop.raw_induct [where P = "\<lambda>space virt phys n f off s r. quiet s (snd r)", rotated])
  fix loop space virt phys n f off s r
  assume IH: "\<And>space virt phys n f off s r. loop space virt phys n f off s = Some r \<Longrightarrow> quiet s (snd r)"
    and body: "(if off < n then case map_page_large (pml4 space) (virt + off) (phys + off) f s of (ok, s) \<Rightarrow>
        if \<not> ok then Some (False, s) else loop space virt phys n f (off + kLargePageSize) s
      else Some (True, s)) = Some r"
  obtain ok t where m: "map_page_large (pml4 space) (virt + off) (phys + off) f s = (ok, t)" by fastforce
  show "quiet s (snd r)"
    using body IH [of space virt phys n f "off + kLargePageSize" t r] quiet_trans [OF quiet_map_page_large [OF m]] quiet_map_page_large [OF m]
    by (auto simp: m split: if_splits)
qed

lemma quiet_map_range: "map_range space virt phys n f s = Some r \<Longrightarrow> quiet s (snd r)"
  by (auto simp: map_range_def split: if_splits dest: quiet_map_range_loop)

lemma quiet_map_range_large: "map_range_large space virt phys n f s = Some r \<Longrightarrow> quiet s (snd r)"
  by (auto simp: map_range_large_def split: if_splits dest: quiet_map_range_large_loop)

lemma quiet_map_image: "map_image space layout s = Some r \<Longrightarrow> quiet s (snd r)"
  unfolding map_image_def map_segment_def Let_def
  by (auto split: bind_splits prod.splits if_splits dest!: quiet_map_range simp: quiet_def)

lemma quiet_build: "build_kernel_address_space out regions hhdm layout s = Some (ok, space, t) \<Longrightarrow> quiet s t"
  unfolding build_kernel_address_space_def Let_def
  by (auto split: option.splits bind_splits prod.splits if_splits
      dest!: quiet_create_address_space quiet_map_range_large quiet_map_image simp: quiet_def)

section \<open>Well-formed output\<close>

text \<open>
  The five calls of the exception handler that pass a 64-bit integer where \<open>va_arg\<close> reads a 32-bit one.
  Any other call of the kernel differs from the types \<open>va_arg\<close> names at most in passing a 64-bit integer
  for a pointer.
\<close>

definition fault_flag_calls :: "u64 \<Rightarrow> kcall list" where
  "fault_flag_calls code =
     [Kprintf ''  Present: %u\<newline>'' [Word (drop_bit 0 code AND 1)], Kprintf ''  Write: %u\<newline>'' [Word (drop_bit 1 code AND 1)],
      Kprintf ''  User: %u\<newline>'' [Word (drop_bit 2 code AND 1)],
      Kprintf ''  Reserved-bit violation: %u\<newline>'' [Word (drop_bit 3 code AND 1)],
      Kprintf ''  Instruction fetch: %u\<newline>'' [Word (drop_bit 4 code AND 1)]]"

definition call_typed :: "kcall \<Rightarrow> bool" where
  "call_typed c \<longleftrightarrow> set (call_mismatches c) \<subseteq> {(Pointer, Int64)} \<or> (\<exists>code. c \<in> set (fault_flag_calls code))"

definition call_sound :: "kcall \<Rightarrow> bool" where
  "call_sound c \<longleftrightarrow> call_ok c \<and> call_typed c"

lemma fault_flag_mismatch: "c \<in> set (fault_flag_calls code) \<Longrightarrow> call_mismatches c = [(Int32, Int64)]"
  by (auto simp: fault_flag_calls_def print_conversions)

lemmas sound_simps = call_sound_def call_ok_def call_typed_def print_conversions

lemma call_sound_plain:
  "plain name \<Longrightarrow> call_sound (Kprintf f a) \<Longrightarrow> \<forall>code. Kprintf f a \<notin> set (fault_flag_calls code) \<Longrightarrow> call_sound (Kprintf (name @ f) a)"
  by (auto simp: call_sound_def call_ok_def call_typed_def render_append_plain mismatches_append_plain)

lemma call_sound_message: "plain message \<Longrightarrow> call_sound (Kprintf message [])"
  using render_append_plain [of message "[]" "[]"] mismatches_append_plain [of message "[]" "[]"]
  by (simp add: call_sound_def call_ok_def call_typed_def)

definition tidy :: "machine \<Rightarrow> machine \<Rightarrow> bool" where
  "tidy s t \<longleftrightarrow> (\<exists>calls. klog t = klog s @ calls \<and> list_all call_sound calls)"

definition tidy_exec :: "machine \<Rightarrow> ('a, machine) exec \<Rightarrow> bool" where
  "tidy_exec s r \<longleftrightarrow> (case r of Ret x t \<Rightarrow> tidy s t | Halt t \<Rightarrow> tidy s t)"

lemma tidy_exec_simps [simp]: "tidy_exec s (Ret x t) = tidy s t" "tidy_exec s (Halt t) = tidy s t"
  by (simp_all add: tidy_exec_def)

lemma tidy_prints: "tidy s t \<Longrightarrow> \<exists>str. prints s t str"
proof -
  assume "tidy s t"
  then obtain calls where c: "klog t = klog s @ calls" "list_all call_sound calls" by (auto simp: tidy_def)
  then have "list_all call_ok calls" by (simp add: list_all_iff call_sound_def)
  with c(1) show ?thesis by (auto simp: prints_def console_text_ok)
qed

lemma tidy_quiet: "quiet s t \<Longrightarrow> tidy s t"
  by (simp add: tidy_def quiet_def)

lemma tidy_refl [simp]: "tidy s s"
  by (simp add: tidy_quiet)

lemma tidy_trans: "tidy s t \<Longrightarrow> tidy t u \<Longrightarrow> tidy s u"
  by (auto simp: tidy_def)

lemma tidy_exec_trans: "tidy s t \<Longrightarrow> tidy_exec t r \<Longrightarrow> tidy_exec s r"
  by (cases r) (auto intro: tidy_trans)

lemma tidy_serial [simp]: "tidy s t \<Longrightarrow> tidy s (log_serial str t)"
  by (auto simp: tidy_def sound_simps)

lemma tidy_printf: "tidy s t \<Longrightarrow> call_sound (Kprintf f a) \<Longrightarrow> tidy s (log_printf f a t)"
  by (auto simp: tidy_def)

lemma tidy_log:
  "klog t = klog t' \<Longrightarrow> tidy s t \<longleftrightarrow> tidy s t'"
  by (simp add: tidy_def)

lemma tidy_fatal [simp]: "plain message \<Longrightarrow> tidy s t \<Longrightarrow> tidy_exec s (fatal message t)"
  by (simp add: fatal_def tidy_printf call_sound_message)

lemma call_sound_map_line: "call_sound (map_line r)"
  by (simp add: sound_simps map_line_def)

lemma init_fill_bitmap_log:
  fixes regions pages s
  defines "n \<equiv> free_frame_count (init_fill_bitmap regions pages s)"
  shows "klog (init_fill_bitmap regions pages s) = klog s @
     [Kprintf ''  free frames:    %lu\<newline>'' [Word n], Kprintf ''  free memory:    %lu bytes\<newline>'' [Word (n * kPageSize)],
      Kprintf ''  bitmap initialized\<newline>'' []]"
proof -
  let ?s1 = "(init_all_used 0 s)\<lparr>free_frame_count := 0\<rparr>"
  let ?s2 = "init_free_regions regions ?s1"
  have "klog ?s2 = klog s" using init_free_regions_effect [of regions ?s1] by (simp add: same_layout_def)
  moreover have "klog (reserve_frames a b ?s2) = klog ?s2" for a b
    using reserve_frames_effect [of a b ?s2] by (simp add: same_layout_def)
  ultimately show ?thesis by (simp add: n_def init_fill_bitmap_def Let_def)
qed

lemma tidy_init_fill_bitmap: "tidy s t \<Longrightarrow> tidy s (init_fill_bitmap regions pages t)"
  using init_fill_bitmap_log [of regions pages t] by (auto simp: tidy_def sound_simps)

lemma tidy_pmm_init: "tidy_exec s (pmm_init regions hhdm s)"
proof -
  have lines: "list_all call_sound (map map_line rs)" for rs by (simp add: list_all_iff call_sound_map_line)
  have c: "call_sound (Kprintf ''\<newline>Memory map:\<newline>'' [])" "call_sound (Kprintf ''Total usable memory: %lu bytes\<newline>'' [Word w])"
    "call_sound (Kprintf ''fatal: no usable memory\<newline>'' [])"
    "call_sound (Kprintf ''fatal: no usable region large enough for bitmap\<newline>'' [])" for w
    by (simp_all add: sound_simps)
  have d: "call_sound (Kprintf (''PMM:\<newline>'' @ ''  highest usable: %p\<newline>'' @ ''  frame count:    %lu\<newline>'' @
       ''  bitmap phys:    %p\<newline>'' @ ''  bitmap virt:    %p\<newline>'' @ ''  bitmap bytes:   %lu\<newline>'' @
       ''  bitmap words:   %lu\<newline>'' @ ''  bitmap pages:   %lu\<newline>'')
     [Ptr a, Word b, Ptr c, Ptr d, Word e, Word f, Word g])" for a b c d e f g
    by (simp add: sound_simps)
  note log = tidy_def c d [simplified] lines init_scan_eq Let_def
  show ?thesis
  proof (cases "usable_top regions 0 = 0")
    case True
    then show ?thesis by (simp add: pmm_init_def log)
  next
    case top: False
    show ?thesis
    proof (cases "find_bitmap_region regions (init_pages regions)")
      case None
      with top show ?thesis by (simp add: pmm_init_def log init_sizes)
    next
      case (Some phys)
      then obtain u where u: "pmm_init regions hhdm s = Ret () (init_fill_bitmap regions (init_pages regions) u)" "tidy s u"
        using top by (simp add: pmm_init_def log init_sizes)
      then show ?thesis by (simp add: tidy_init_fill_bitmap)
    qed
  qed
qed

lemma tidy_check_responses: "tidy_exec s (check_responses boot s)"
  by (auto simp: check_responses_def Let_def split: option.splits)

lemma tidy_translate_memmap: "tidy_exec s (translate_memmap entries s)"
proof (induction entries)
  case (Cons e entries)
  have "tidy s (log_printf ''fatal: unknown memory map type: %lu\<newline>'' [Word (entry_type e)] s)"
    by (rule tidy_printf) (simp_all add: sound_simps)
  with Cons show ?case by (auto split: option.splits exec.splits)
qed simp

lemma translate_memmap_state: "translate_memmap entries s = Ret regions t \<Longrightarrow> t = s"
  by (induction entries arbitrary: regions) (auto split: option.splits exec.splits)

lemma tidy_log_segment:
  assumes "tidy s t" "plain name"
  shows "tidy s (log_segment name a b g t)"
  unfolding log_segment_def
  by (intro tidy_printf call_sound_plain assms) (auto simp: sound_simps fault_flag_calls_def)

lemma tidy_log_translation:
  assumes "tidy s t" "plain name"
  shows "tidy s (log_translation name a b c t)"
  unfolding log_translation_def
  by (intro tidy_printf call_sound_plain assms) (auto simp: sound_simps fault_flag_calls_def)

lemma tidy_log_address_space: "tidy s t \<Longrightarrow> tidy s (log_address_space space fb hhdm g syms t)"
  unfolding log_address_space_def Let_def
  by (intro tidy_log_translation) (auto simp: sound_simps intro!: tidy_printf)

lemma log_address_space_state:
  "mem (log_address_space space fb hhdm g syms s) = mem s" "cr3 (log_address_space space fb hhdm g syms s) = cr3 s"
  "bitmap (log_address_space space fb hhdm g syms s) = bitmap s"
  "bitmap_words (log_address_space space fb hhdm g syms s) = bitmap_words s"
  "frame_count (log_address_space space fb hhdm g syms s) = frame_count s"
  "free_frame_count (log_address_space space fb hhdm g syms s) = free_frame_count s"
  "g_hhdm_offset (log_address_space space fb hhdm g syms s) = g_hhdm_offset s"
  "msrs (log_address_space space fb hhdm g syms s) = msrs s"
  by (simp_all add: log_address_space_def Let_def log_translation_def)

text \<open>The states between the steps of \<open>start_memory\<close>.\<close>

definition log_bases :: "u64 \<Rightarrow> u64 \<Rightarrow> machine \<Rightarrow> machine" where
  "log_bases vbase pbase s =
     log_printf ''kernel physical base: %p\<newline>'' [Word pbase] (log_printf ''kernel virtual base:  %p\<newline>'' [Word vbase] s)"

definition log_image :: "u64 \<Rightarrow> u64 \<Rightarrow> linker_symbols \<Rightarrow> machine \<Rightarrow> machine" where
  "log_image vbase pbase syms s =
     (let g = image_virtual_to_physical vbase pbase
      in log_segment ''.data:   '' (sym_data_start syms) (sym_data_end syms) g
           (log_segment ''.rodata: '' (sym_rodata_start syms) (sym_rodata_end syms) g
             (log_segment ''.text:   '' (sym_text_start syms) (sym_text_end syms) g
               (log_printf ''kernel physical base verified\<newline>'' [] (log_bases vbase pbase s)))))"

definition enter_space ::
  "AddressSpace \<Rightarrow> framebuffer \<Rightarrow> u64 \<Rightarrow> u64 \<Rightarrow> u64 \<Rightarrow> linker_symbols \<Rightarrow> machine \<Rightarrow> machine" where
  "enter_space space fb hhdm vbase pbase syms s =
     log_printf ''cr3 loaded\<newline>'' [] (load_address_space space (log_printf ''loading cr3...\<newline>'' []
       (log_address_space space fb hhdm (image_virtual_to_physical vbase pbase) syms s)))"

lemma start_memory_eq:
  "start_memory out fb entries hhdm vbase pbase syms s =
     (case translate_memmap entries s of
        Halt t \<Rightarrow> Some (Halt t)
      | Ret regions t \<Rightarrow>
          if \<not> kernel_physical_base_valid regions pbase
          then Some (fatal ''fatal: kernel physical base is not inside KERNEL_AND_MODULES region\<newline>'' (log_bases vbase pbase s))
          else case pmm_init regions hhdm (log_image vbase pbase syms s) of
            Halt u \<Rightarrow> Some (Halt u)
          | Ret _ u \<Rightarrow>
              map_option (\<lambda>(ok, space, v). if ok then Ret space (enter_space space fb hhdm vbase pbase syms v)
                  else fatal ''FATAL: failed to build kernel address space\<newline>'' v)
                (build_kernel_address_space out (Some regions) hhdm (kernel_layout vbase pbase syms) u))"
proof (cases "translate_memmap entries s")
  case (Ret regions t)
  then have "t = s" by (rule translate_memmap_state)
  with Ret show ?thesis
    by (auto simp: start_memory_def Let_def log_bases_def log_image_def enter_space_def split: exec.splits bind_splits)
qed (simp add: start_memory_def)

lemma start_memory_cases:
  assumes "start_memory out fb entries hhdm vbase pbase syms s = Some r"
  obtains (bad_type) t where "translate_memmap entries s = Halt t" "r = Halt t"
  | (bad_base) regions where "translate_memmap entries s = Ret regions s" "\<not> kernel_physical_base_valid regions pbase"
      "r = fatal ''fatal: kernel physical base is not inside KERNEL_AND_MODULES region\<newline>'' (log_bases vbase pbase s)"
  | (no_frames) regions t where "translate_memmap entries s = Ret regions s" "kernel_physical_base_valid regions pbase"
      "pmm_init regions hhdm (log_image vbase pbase syms s) = Halt t" "r = Halt t"
  | (not_built) regions t space v where "translate_memmap entries s = Ret regions s" "kernel_physical_base_valid regions pbase"
      "pmm_init regions hhdm (log_image vbase pbase syms s) = Ret () t"
      "build_kernel_address_space out (Some regions) hhdm (kernel_layout vbase pbase syms) t = Some (False, space, v)"
      "r = fatal ''FATAL: failed to build kernel address space\<newline>'' v"
  | (built) regions t space v where "translate_memmap entries s = Ret regions s" "kernel_physical_base_valid regions pbase"
      "pmm_init regions hhdm (log_image vbase pbase syms s) = Ret () t"
      "build_kernel_address_space out (Some regions) hhdm (kernel_layout vbase pbase syms) t = Some (True, space, v)"
      "r = Ret space (enter_space space fb hhdm vbase pbase syms v)"
proof (cases "translate_memmap entries s")
  case (Halt t)
  then show ?thesis using assms by (intro bad_type) (auto simp: start_memory_eq)
next
  case (Ret regions t)
  have r: "translate_memmap entries s = Ret regions s" using Ret translate_memmap_state [OF Ret] by simp
  show ?thesis
  proof (cases "kernel_physical_base_valid regions pbase")
    case False
    then show ?thesis using assms r by (intro bad_base) (auto simp: start_memory_eq)
  next
    case v: True
    show ?thesis
    proof (cases "pmm_init regions hhdm (log_image vbase pbase syms s)")
      case (Halt u)
      then show ?thesis using assms r v by (intro no_frames) (auto simp: start_memory_eq)
    next
      case (Ret x u)
      then obtain ok space w where "build_kernel_address_space out (Some regions) hhdm (kernel_layout vbase pbase syms) u =
          Some (ok, space, w)" "r = (if ok then Ret space (enter_space space fb hhdm vbase pbase syms w)
            else fatal ''FATAL: failed to build kernel address space\<newline>'' w)"
        using assms r v by (auto simp: start_memory_eq)
      then show ?thesis using r v Ret not_built [of regions u space w] built [of regions u space w] by (cases ok) auto
    qed
  qed
qed

lemma tidy_log_bases: "tidy s (log_bases vbase pbase s)"
  unfolding log_bases_def by (intro tidy_printf) (simp_all add: sound_simps)

lemma tidy_log_image: "tidy s (log_image vbase pbase syms s)"
  unfolding log_image_def Let_def by (intro tidy_log_segment tidy_printf tidy_log_bases) (simp_all add: sound_simps)

lemma tidy_image_init: "tidy_exec s (pmm_init regions hhdm (log_image vbase pbase syms s))"
  by (rule tidy_exec_trans [OF tidy_log_image tidy_pmm_init])

lemma tidy_enter_space:
  assumes "tidy s t"
  shows "tidy s (enter_space space fb hhdm vbase pbase syms t)"
proof -
  let ?u = "log_printf ''loading cr3...\<newline>'' [] (log_address_space space fb hhdm (image_virtual_to_physical vbase pbase) syms t)"
  have "tidy s ?u" by (rule tidy_printf [OF tidy_log_address_space [OF assms]]) (simp add: sound_simps)
  then have "tidy s (load_address_space space ?u)" by (simp add: load_address_space_def tidy_def)
  then show ?thesis unfolding enter_space_def by (rule tidy_printf) (simp add: sound_simps)
qed

lemma tidy_start_memory:
  assumes "start_memory out fb entries hhdm vbase pbase syms s = Some r"
  shows "tidy_exec s r"
  using assms
proof (cases rule: start_memory_cases)
  case bad_type
  then show ?thesis using tidy_translate_memmap [of s entries] by simp
next
  case bad_base
  then show ?thesis by (simp add: tidy_log_bases)
next
  case (no_frames regions t)
  then show ?thesis using tidy_image_init [of s regions hhdm vbase pbase syms] by simp
next
  case (not_built regions t space v)
  have "tidy s t" using tidy_image_init [of s regions hhdm vbase pbase syms] not_built(3) by simp
  from tidy_trans [OF this tidy_quiet [OF quiet_build [OF not_built(4)]]] show ?thesis by (simp add: not_built(5))
next
  case (built regions t space v)
  have "tidy s t" using tidy_image_init [of s regions hhdm vbase pbase syms] built(3) by simp
  from tidy_trans [OF this tidy_quiet [OF quiet_build [OF built(4)]]] show ?thesis by (simp add: built(5) tidy_enter_space)
qed

section \<open>The whole run\<close>

text \<open>The console parts of two kernel states agree up to well-formed output.\<close>

definition tidy_kernel :: "'d kernel \<Rightarrow> 'd kernel \<Rightarrow> bool" where
  "tidy_kernel k k' \<longleftrightarrow> tidy (mach k) (mach k') \<and> output_sink k' = output_sink k \<and> uart k' = uart k"

fun tidy_ending :: "'d kernel \<Rightarrow> 'd ending \<Rightarrow> bool" where
  "tidy_ending k (Halted k') = tidy_kernel k k'"
| "tidy_ending k (TripleFault k') = tidy_kernel k k'"
| "tidy_ending k (Undefined e) = False"

lemma tidy_page_fault_report: "tidy s t \<Longrightarrow> tidy s (page_fault_report f t)"
proof -
  assume t: "tidy s t"
  have "call_ok c" if "c \<in> set (fault_flag_calls w)" for c w
    using that by (auto simp: fault_flag_calls_def call_ok_def print_conversions)
  then have "list_all call_sound (fault_flag_calls (error_code f))"
    by (auto simp: list_all_iff call_sound_def call_typed_def)
  moreover have "klog (page_fault_report f t) = klog t @ fault_flag_calls (error_code f)"
    by (simp add: page_fault_report_def fault_flag_calls_def Let_def)
  ultimately show ?thesis using t by (auto simp: tidy_def)
qed

lemma tidy_isr_handler:
  assumes "tidy s t"
  shows "\<exists>u. isr_handler cr2_register f t = Halt u \<and> u = t\<lparr>klog := klog u\<rparr> \<and> tidy s u"
proof -
  obtain u where u: "isr_handler cr2_register f t = Halt u" "u = t\<lparr>klog := klog u\<rparr>"
    using isr_handler_halts [of cr2_register f t] by blast
  have "tidy_exec s (isr_handler cr2_register f t)"
    unfolding isr_handler_def Let_def
    by (auto split: prod.splits if_splits intro!: tidy_printf tidy_serial tidy_page_fault_report assms simp: sound_simps)
  with u show ?thesis by auto
qed

lemma tidy_partial:
  assumes "tidy s t" "tidy t u"
  shows "tidy s (u\<lparr>mem := m, klog := klog t @ take n (drop (length (klog t)) (klog u))\<rparr>)"
proof -
  obtain calls where c: "klog u = klog t @ calls" "list_all call_sound calls" using assms(2) by (auto simp: tidy_def)
  then have "list_all call_sound (take n calls)" by (meson in_set_takeD list_all_iff)
  with assms(1) c(1) show ?thesis by (auto simp: tidy_def)
qed

lemma tidy_raise_exception:
  assumes "tidy_kernel k k'"
  shows "tidy_ending k (raise_exception use stubs v code fault_address regs k')"
proof (cases "\<exists>n stub. stub_at stubs (gate_handler (idt (segs k') ! v)) = Some n \<and> isr_stub n = Some stub")
  case False
  then show ?thesis using assms by (auto simp: raise_exception_def split: option.splits)
next
  case True
  then obtain n stub where n: "stub_at stubs (gate_handler (idt (segs k') ! v)) = Some n" "isr_stub n = Some stub" by blast
  let ?st = "isr_common_push regs (stub (cpu_deliver v code regs (mem (mach k'))))"
  let ?s = "(mach k')\<lparr>mem := snd ?st\<rparr>"
  have s: "tidy (mach k) ?s" "tidy ?s ?s" using assms by (simp_all add: tidy_kernel_def tidy_def)
  obtain u where u: "isr_handler fault_address (frame_at (snd ?st) (fst ?st)) ?s = Halt u" "tidy ?s u"
    using tidy_isr_handler [OF s(2)] by blast
  then have "tidy (mach k) (u\<lparr>mem := m\<rparr>)" for m using tidy_trans [OF s(1), of u] by (simp add: tidy_def)
  moreover have "tidy (mach k) (u\<lparr>mem := m, klog := klog (mach k') @ take c (drop (length (klog (mach k'))) (klog u))\<rparr>)" for m c
    using tidy_partial [OF s(1) u(2), where m = m and n = c] by simp
  ultimately show ?thesis
    using assms n u(1) by (simp add: raise_exception_def Let_def tidy_kernel_def)
qed

lemma tidy_null_store: "tidy_kernel k k' \<Longrightarrow> tidy_ending k (null_store use stubs regs k')"
  by (auto simp: null_store_def tidy_raise_exception tidy_kernel_def tidy_def split: option.splits)

lemma start_memory_returns: "\<exists>r. start_memory out fb entries hhdm vbase pbase syms s = Some r"
proof -
  have b: "\<exists>a b c. build_kernel_address_space o2 regions h layout u = Some (a, b, c)" for o2 regions h layout u
    using build_returns by (metis option.exhaust prod_cases3)
  show ?thesis
    by (cases "translate_memmap entries s") (auto simp: start_memory_eq b split: exec.splits)
qed

lemma kmain_body_tidy: "\<exists>e. kmain_body out boot syms use regs k = Some e \<and> tidy_ending k e"
proof (cases "check_responses boot (mach k)")
  case (Halt s)
  then show ?thesis using tidy_check_responses [of "mach k" boot] by (simp add: kmain_body_def tidy_kernel_def)
next
  case (Ret x s)
  obtain fb entries hhdm vbase pbase where x: "x = (fb, entries, hhdm, vbase, pbase)" by (cases x) auto
  have s: "tidy (mach k) s" using tidy_check_responses [of "mach k" boot] Ret by simp
  obtain r where r: "start_memory out fb entries hhdm vbase pbase syms s = Some r" using start_memory_returns by blast
  have t: "tidy_exec (mach k) r" by (rule tidy_exec_trans [OF s tidy_start_memory [OF r]])
  show ?thesis
  proof (cases r)
    case (Halt u)
    then show ?thesis using Ret r t by (simp add: kmain_body_def x tidy_kernel_def)
  next
    case (Ret space u)
    then have "tidy_kernel k (k\<lparr>mach := u\<lparr>mem := m\<rparr>\<rparr>)" "tidy_kernel k (k\<lparr>mach := log_serial ''done\<newline>'' (u\<lparr>mem := m\<rparr>)\<rparr>)" for m
      using t tidy_serial [of "mach k" "u\<lparr>mem := m\<rparr>"] by (simp_all add: tidy_kernel_def tidy_def)
    then show ?thesis
      using \<open>check_responses boot (mach k) = Ret x s\<close> r Ret
      by (auto simp: kmain_body_def x tidy_null_store tidy_raise_exception split: sum.splits)
  qed
qed

lemma flush_tidy:
  assumes "tidy_ending k e" "klog (mach k) = []" "output_sink k = Some (serial_putc io)"
  shows "\<exists>k' str. (e = Halted k' \<and> flush_console io e = Halted (k'\<lparr>uart := emit_chars (Some (serial_putc io)) str (uart k)\<rparr>) \<or>
      e = TripleFault k' \<and> flush_console io e = TripleFault (k'\<lparr>uart := emit_chars (Some (serial_putc io)) str (uart k)\<rparr>)) \<and>
    prints (mach k) (mach k') str"
proof -
  have r: "\<exists>str. run_console io (output_sink k') (klog (mach k')) (uart k') =
      Inr (emit_chars (Some (serial_putc io)) str (uart k)) \<and> prints (mach k) (mach k') str" if "tidy_kernel k k'" for k'
    using that assms(2,3) tidy_prints [of "mach k" "mach k'"] by (auto simp: tidy_kernel_def prints_def run_console_eq)
  show ?thesis
  proof (cases e)
    case (Halted k')
    then show ?thesis using r [of k'] assms(1) by auto
  next
    case (TripleFault k')
    then show ?thesis using r [of k'] assms(1) by auto
  qed (use assms(1) in simp)
qed

section \<open>CR3\<close>

lemma log_image_cr3 [simp]: "cr3 (log_image vbase pbase syms s) = cr3 s" "cr3 (log_bases vbase pbase s) = cr3 s"
  by (simp_all add: log_image_def log_bases_def log_segment_def Let_def)

lemma pmm_init_cr3: "pmm_init regions hhdm s = Ret u t \<or> pmm_init regions hhdm s = Halt t \<Longrightarrow> cr3 t = cr3 s"
  using pmm_init_shape(8) [of regions hhdm s u t]
  by (auto simp: pmm_init_def Let_def init_scan_eq split: if_splits option.splits)

lemma translate_memmap_cr3: "translate_memmap entries s = Halt t \<Longrightarrow> cr3 t = cr3 s"
  by (induction entries) (auto split: option.splits exec.splits)

lemma start_memory_cr3:
  assumes "start_memory out fb entries hhdm vbase pbase syms s = Some r"
  shows "case r of Halt t \<Rightarrow> cr3 t = cr3 s
    | Ret space t \<Rightarrow> cr3 t = pml4_physical space \<and>
        (\<exists>regions u v. build_kernel_address_space out (Some regions) hhdm (kernel_layout vbase pbase syms) u = Some (True, space, v))"
  using assms
proof (cases rule: start_memory_cases)
  case (not_built regions t space v)
  then show ?thesis
    using pmm_init_cr3 [OF disjI1 [OF not_built(3)]] quiet_build [OF not_built(4)] by (simp add: fatal_def quiet_def)
next
  case built
  then show ?thesis by (auto simp: enter_space_def load_address_space_def)
next
  case (no_frames regions t)
  then show ?thesis using pmm_init_cr3 [OF disjI2 [OF no_frames(3)]] by simp
qed (auto simp: fatal_def translate_memmap_cr3)

end
