(* ===== verification/Boot_Memory.thy ===== *)
theory Boot_Memory
  imports Boot_Output
begin

text \<open>
  From the physical to the virtual memory manager: the state \<open>mm::init\<close> leaves is one in which
  \<open>build_kernel_address_space\<close> can work, and the number of frames it hands over is known from the
  memory map alone.
\<close>

section \<open>Frames of the memory map\<close>

definition usable_frames :: "MemoryRegion list \<Rightarrow> nat" where
  "usable_frames regions = (\<Sum>r\<leftarrow>regions. if type_of r = Usable then unat (length_of r) div 4096 else 0)"

lemma card_frame_interval:
  assumes "4096 * (b + n) \<le> 2 ^ 64"
  shows "card {f :: u64. b \<le> unat f \<and> unat f < b + n} = n"
proof -
  have "unat ` {f :: u64. b \<le> unat f \<and> unat f < b + n} = {b ..< b + n}"
  proof
    show "{b ..< b + n} \<subseteq> unat ` {f :: u64. b \<le> unat f \<and> unat f < b + n}"
    proof
      fix m
      assume m: "m \<in> {b ..< b + n}"
      then have "unat (of_nat m :: u64) = m" using assms by (simp add: unsigned_of_nat take_bit_nat_eq_self)
      with m show "m \<in> unat ` {f :: u64. b \<le> unat f \<and> unat f < b + n}"
        by (intro image_eqI [of _ _ "of_nat m"]) simp_all
    qed
  qed auto
  moreover have "card (unat ` {f :: u64. b \<le> unat f \<and> unat f < b + n}) = card {f :: u64. b \<le> unat f \<and> unat f < b + n}"
    by (rule card_image) (rule inj_onI, rule unat_eqI)
  ultimately show ?thesis by simp
qed

lemma frame_inside_interval:
  assumes "page_aligned (base r)"
  shows "frame_inside f r \<longleftrightarrow> unat (base r) div 4096 \<le> unat f \<and> unat f < unat (base r) div 4096 + unat (length_of r) div 4096"
proof -
  let ?b = "unat (base r) div 4096"
  have b: "unat (base r) = 4096 * ?b"
    using assms by (metis add.right_neutral mult_div_mod_eq page_aligned_iff)
  have "4096 * (unat f + 1) \<le> unat (base r) + unat (length_of r) \<longleftrightarrow> unat f < (4096 * ?b + unat (length_of r)) div 4096"
    using b less_page_down_iff [of "unat f" "unat (base r) + unat (length_of r)"] by simp
  also have "(4096 * ?b + unat (length_of r)) div 4096 = ?b + unat (length_of r) div 4096" by simp
  finally show ?thesis using b by (simp add: frame_inside_def) linarith
qed

lemma card_usable_region:
  assumes "usable_in_range regions" "r \<in> set regions" "type_of r = Usable" "page_aligned (base r)"
    "frame_count s = init_frame_count regions"
  shows "card (region_frames s r) = unat (length_of r) div 4096"
proof -
  let ?b = "unat (base r) div 4096" and ?n = "unat (length_of r) div 4096"
  have "region_frames s r = {f. ?b \<le> unat f \<and> unat f < ?b + ?n}"
    using region_frames_iff [OF assms(1-3)] inside_is_valid [OF assms(1-3) _ assms(5)] frame_inside_interval [OF assms(4)]
    by auto
  moreover have "4096 * (?b + ?n) \<le> 2 ^ 64"
  proof -
    have "4096 * ?b \<le> unat (base r)" "4096 * ?n \<le> unat (length_of r)" by simp_all
    then show ?thesis using assms(1-3) by (auto simp: usable_in_range_def)
  qed
  ultimately show ?thesis using card_frame_interval by simp
qed

definition usable_aligned :: "MemoryRegion list \<Rightarrow> bool" where
  "usable_aligned regions \<longleftrightarrow> (\<forall>r\<in>set regions. type_of r = Usable \<longrightarrow> page_aligned (base r))"

lemma sum_region_frames:
  assumes "usable_in_range regions" "usable_aligned regions" "frame_count s = init_frame_count regions"
  shows "(\<Sum>r\<leftarrow>regions. card (region_frames s r)) = usable_frames regions"
proof -
  have "card (region_frames s r) = (if type_of r = Usable then unat (length_of r) div 4096 else 0)" if "r \<in> set regions" for r
    using card_usable_region [OF assms(1) that _ _ assms(3)] assms(2) that
    by (auto simp: usable_aligned_def region_frames_def)
  then show ?thesis by (simp add: usable_frames_def cong: map_cong)
qed

section \<open>The pool after initialisation\<close>

lemma pmm_init_card_free:
  assumes "usable_in_range regions" "usable_disjoint regions" "usable_aligned regions"
    "pmm_init regions hhdm s = Ret u t"
  shows "usable_frames regions \<le> card (free_frames t) + unat (init_pages regions)"
proof -
  let ?U = "\<Union>r\<in>set regions. region_frames t r" and ?B = "{f :: u64. unat f \<in> reserved_frames t}"
  have fc: "frame_count t = init_frame_count regions" by (rule pmm_init_shape(5) [OF assms(4)])
  have U: "f \<in> ?U \<longleftrightarrow> (\<exists>r\<in>set regions. type_of r = Usable \<and> frame_inside f r)" for f
    using region_frames_iff [OF assms(1), of _ f t] inside_is_valid [OF assms(1) _ _ _ fc, of _ f]
    by (auto simp: region_frames_def split: if_splits)
  have "?U \<subseteq> free_frames t \<union> ?B"
    using pmm_init_free_frames [OF assms(1,4)] U by blast
  then have "card ?U \<le> card (free_frames t) + card ?B"
    by (meson card_Un_le card_mono finite order_trans)
  moreover have "card ?B \<le> unat (init_pages regions)"
  proof -
    have "card ?B = card (unat ` ?B)" by (rule card_image [symmetric]) (rule inj_onI, rule unat_eqI)
    also have "\<dots> \<le> card (reserved_frames t)" by (rule card_mono) (auto simp: reserved_frames_def)
    also have "\<dots> = unat (init_pages regions)"
      by (simp add: reserved_frames_def pmm_init_shape(4,6) [OF assms(4)] unat_init_pages)
    finally show ?thesis .
  qed
  moreover have "card ?U = usable_frames regions"
    using card_region_frames [OF assms(1,2), of t] sum_region_frames [OF assms(1,3) fc] by simp
  ultimately show ?thesis by linarith
qed

lemma pmm_init_pool:
  assumes "usable_in_range regions" "usable_disjoint regions" "usable_aligned regions"
    "pmm_init regions hhdm s = Ret u t" "unat (usable_top regions 0) \<le> 2 ^ 52" "hhdm \<noteq> 0"
    "unat hhdm + 4096 * unat (init_frame_count regions) \<le> 2 ^ 64"
  shows "pool_ok t"
proof -
  note sh = pmm_init_shape [OF assms(4)]
  have fc: "unat (frame_count t) \<le> 2 ^ 40"
    using assms(5) unat_init_frame_count [OF assms(1)] by (simp add: sh(5) page_up_le_iff)
  have bytes: "unat (bitmap_bytes t) = 8 * unat (bitmap_words t)"
    by (simp add: sh(4,6) unat_init_pages(2))
  obtain r where r: "r \<in> set regions" "type_of r = Usable" "bitmap_phys t = base r"
    "4096 * ((unat (bitmap_bytes t) + 4095) div 4096) \<le> unat (length_of r)"
    using pmm_init_bitmap_region [OF assms(1,4)] by blast
  have bound: "unat (bitmap_phys t) + unat (bitmap_bytes t) < 2 ^ 64"
    using r assms(1) page_up_le_iff [of "unat (bitmap_bytes t)" "(unat (bitmap_bytes t) + 4095) div 4096"]
    by (auto simp: usable_in_range_def)
  have "table_cells (physical_to_virtual t (f * kPageSize)) \<inter> bitmap_cells t = {}" if f: "f \<in> free_frames t" for f
  proof (rule ccontr)
    assume "table_cells (physical_to_virtual t (f * kPageSize)) \<inter> bitmap_cells t \<noteq> {}"
    then obtain i j where ij: "hhdm + f * kPageSize + 8 * j = hhdm + bitmap_phys t + 8 * i" "j < 512" "i < bitmap_words t"
      by (auto simp: table_cells_def bitmap_cells_def physical_to_virtual_def sh(2,3))
    have "unat f < 2 ^ 40" using f fc by (simp add: free_frames_def frame_valid_def word_less_nat_alt)
    then have p: "unat (f * kPageSize) = 4096 * unat f"
      by (subst unat_mult_nowrap) (simp_all add: mult.commute)
    have j: "unat (8 * j) = 8 * unat j" "unat j < 512" using ij(2) cell_offset by (simp_all add: word_less_nat_alt)
    have i: "unat (8 * i) = 8 * unat i" "unat i < unat (bitmap_words t)"
      using ij(3) bound bytes by (simp_all add: word_less_nat_alt unat_mult_nowrap)
    have "f * kPageSize + 8 * j = bitmap_phys t + 8 * i" using ij(1) by (simp add: add.assoc)
    then have "unat (f * kPageSize + 8 * j) = unat (bitmap_phys t + 8 * i)" by simp
    moreover have "unat (f * kPageSize + 8 * j) = 4096 * unat f + 8 * unat j"
      using \<open>unat f < 2 ^ 40\<close> j p by (subst unat_add_nowrap) simp_all
    moreover have "unat (bitmap_phys t + 8 * i) = unat (bitmap_phys t) + 8 * unat i"
      using bound bytes i by (subst unat_add_nowrap) simp_all
    ultimately show False
      using pmm_init_apart [OF assms(1) assms(3)[unfolded usable_aligned_def] assms(4) f] j(2) i(2) bytes by linarith
  qed
  then show ?thesis
    using pmm_init_wf [OF assms(1,2,4)] fc assms(6,7) by (simp add: pool_ok_def sh(3,5))
qed

section \<open>The direct map covers the managed frames\<close>

lemma highest_end_ge: "h \<le> highest_end regions h"
proof (induction regions arbitrary: h)
  case (Cons r regions)
  show ?case using Cons [of "if base r + length_of r > h then base r + length_of r else h"] by (auto simp: Let_def)
qed simp

lemma highest_end_mono: "h \<le> h' \<Longrightarrow> highest_end regions h \<le> highest_end regions h'"
  by (induction regions arbitrary: h h') (auto simp: Let_def)

lemma usable_top_le_highest: "usable_top regions h \<le> highest_end regions h"
proof (induction regions arbitrary: h)
  case (Cons r regions)
  show ?case
    using Cons [of h] Cons [of "max h (base r + length_of r)"] highest_end_mono [of h _ regions]
    by (auto simp: Let_def max_def intro: order_trans)
qed simp

lemma direct_size_covers:
  assumes "usable_in_range regions" "direct_size regions \<noteq> 0"
  shows "4096 * unat (init_frame_count regions) \<le> unat (direct_size regions)"
    "unat (highest_end regions 0) \<le> unat (direct_size regions)"
proof -
  let ?h = "highest_end regions 0"
  have nowrap: "unat ?h + 2 ^ 21 \<le> 2 ^ 64"
  proof (rule ccontr)
    assume "\<not> unat ?h + 2 ^ 21 \<le> 2 ^ 64"
    then have "unat ?h + 2 ^ 21 > 2 ^ 64" by simp
    then have "unat (?h + 0x1FFFFF) < 2 ^ 21"
      using u64_bound [of ?h] by (simp add: unat_word_ariths le_mod_geq)
    moreover have "direct_size regions = (?h + 0x1FFFFF) AND NOT (mask 21)"
      by (simp add: direct_size_def align_up_def kLargePageSize_def mask_eq_exp_minus_1 add.commute)
    ultimately have "unat (direct_size regions) = 0" by (simp only: unat_and_not_mask) simp
    then have "direct_size regions = 0" by (simp add: unat_eq_0)
    with assms(2) show False by simp
  qed
  have d: "unat (direct_size regions) = (unat ?h + 2 ^ 21 - 1) div 2 ^ 21 * 2 ^ 21"
    using nowrap unfolding direct_size_def align_up_kLargePageSize by (intro unat_align_up) simp_all
  let ?q = "(unat ?h + 2 ^ 21 - 1) div 2 ^ 21"
  have "unat ?h + 2 ^ 21 - 1 < (?q + 1) * 2 ^ 21" by (simp add: less_mult_imp_div_less dividend_less_div_times)
  then show h: "unat ?h \<le> unat (direct_size regions)" unfolding d by simp
  have "unat (usable_top regions 0) \<le> unat ?h"
    using usable_top_le_highest [of regions 0] by (simp add: word_le_nat_alt)
  then have "unat (usable_top regions 0) \<le> 4096 * (?q * 512)" using h d by simp
  then have "(unat (usable_top regions 0) + 4095) div 4096 \<le> ?q * 512" by (simp only: page_up_le_iff)
  then show "4096 * unat (init_frame_count regions) \<le> unat (direct_size regions)"
    unfolding d unat_init_frame_count [OF assms(1)] by simp
qed

end
