(* ===== verification/Vmm_Exhaustion.thy ===== *)
theory Vmm_Exhaustion
  imports Vmm_Map
begin

text \<open>
  The virtual memory manager without free frames. \<open>alloc_frame\<close> reports exhaustion as address 0, but
  \<open>allocate_table\<close> of \<open>src/src/mm/vmm.cpp\<close> tests for the all-ones address, so a table is placed in
  physical frame 0. This theory states what \<open>create_address_space\<close> and \<open>map_page\<close> then do.
\<close>

section \<open>A pool without free frames\<close>

text \<open>No frame is free, and the bitmap is not in frame 0.\<close>

definition exhausted :: "machine \<Rightarrow> bool" where
  "exhausted s \<longleftrightarrow> pmm_wf s \<and> free_frames s = {} \<and> g_hhdm_offset s \<noteq> 0 \<and>
     table_cells (g_hhdm_offset s) \<inter> bitmap_cells s = {}"

definition clear_first_frame :: "machine \<Rightarrow> machine" where
  "clear_first_frame s = s\<lparr>mem := (\<lambda>p. if p \<in> table_cells (g_hhdm_offset s) then 0 else mem s p)\<rparr>"

lemma clear_first_frame_simps [simp]:
  "mem (clear_first_frame s) p = (if p \<in> table_cells (g_hhdm_offset s) then 0 else mem s p)"
  "g_hhdm_offset (clear_first_frame s) = g_hhdm_offset s"
  by (simp_all add: clear_first_frame_def)

lemma exhausted_same_pool:
  assumes "exhausted s" "same_pool t s"
  shows "exhausted t"
proof -
  have b: "bitmap_shape s" using assms(1) by (simp add: exhausted_def pmm_wf_def)
  show ?thesis
    using assms same_pool_frames [OF assms(2) b] by (simp add: exhausted_def pmm_wf_def same_pool_def bitmap_shape_def)
qed

lemma exhausted_table:
  assumes "exhausted s" "p \<notin> bitmap_cells s"
  shows "exhausted (store p x (clear_first_frame s))"
proof (rule exhausted_same_pool [OF assms(1)])
  show "same_pool (store p x (clear_first_frame s)) s"
    using assms by (auto simp: same_pool_def exhausted_def clear_first_frame_def)
qed

lemma allocate_table_exhausted:
  "pmm_wf s \<Longrightarrow> free_frames s = {} \<Longrightarrow>
     allocate_table s = (Some \<lparr>physical = 0, virtual_address = g_hhdm_offset s\<rparr>, clear_first_frame s)"
  using pmm.alloc_empty [of s]
  by (simp add: allocate_table_def physical_to_virtual_def zero_entries_table Let_def clear_first_frame_def)

text \<open>Every missing table is placed in frame 0, over whatever was there.\<close>

lemma ensure_table_exhausted:
  assumes "exhausted s" "mem s entry = 0"
  shows "ensure_table entry f s = (g_hhdm_offset s, store entry (make_page_entry 0 f) (clear_first_frame s))"
  using assms allocate_table_exhausted [of s] by (simp add: ensure_table_def exhausted_def)

section \<open>Mapping\<close>

lemma first_frame_cell:
  fixes s :: machine
  shows "i < 512 \<Longrightarrow> j < 512 \<Longrightarrow> entry_cell (g_hhdm_offset s) i = entry_cell (g_hhdm_offset s) j \<longleftrightarrow> i = j"
  using entry_cell_eq_iff [of 0 0 i j s] by (simp add: page_aligned_def physical_to_virtual_def)

lemma table_cell_apart:
  assumes "page_aligned root" "root \<noteq> 0" "i < 512"
  shows "entry_cell (physical_to_virtual s root) i \<notin> table_cells (g_hhdm_offset s)"
  using table_cells_disjoint [of root 0 s] entry_cell_in_table [OF assms(3), of "physical_to_virtual s root"] assms(1,2)
  by (auto simp: page_aligned_def physical_to_virtual_def)

text \<open>
  The three tables of a new branch are all frame 0. The third allocation clears the entry that the
  second one wrote, so the branch is cut below its first table.
\<close>

lemma map_page_exhausted_run:
  assumes s: "exhausted s" and root: "page_aligned root" "root \<noteq> 0" "physical_to_virtual s root \<noteq> 0"
    "table_cells (physical_to_virtual s root) \<inter> bitmap_cells s = {}"
    and args: "map_page_args virt phys flags" and ix: "indices virt = [i4, i3, i2, i1]" "i3 \<noteq> i2" "i2 \<noteq> i1"
    and empty: "table_entry s root i4 = 0"
  shows "\<exists>t. map_page (physical_to_virtual s root) virt phys flags s = (True, t) \<and> g_hhdm_offset t = g_hhdm_offset s \<and>
    mem t = (\<lambda>p. if p = entry_cell (physical_to_virtual s root) i4 then make_page_entry 0 (intermediate_flags flags)
      else if p = entry_cell (g_hhdm_offset s) i1 then make_page_entry phys (flags_or flags PF_Present)
      else if p = entry_cell (g_hhdm_offset s) i2 then make_page_entry 0 (intermediate_flags flags)
      else if p \<in> table_cells (g_hhdm_offset s) then 0 else mem s p)"
proof -
  let ?Z = "g_hhdm_offset s" and ?r = "physical_to_virtual s root" and ?x = "make_page_entry 0 (intermediate_flags flags)"
  have i: "i4 < 512" "i3 < 512" "i2 < 512" "i1 < 512"
    using full_path_indices [of virt] by (simp_all add: ix(1) full_path_def)
  have li: "large_indices virt = [i4, i3, i2]" "pt_index (decompose_address virt) = i1"
    using ix(1) by (simp_all add: large_indices_def indices_eq)
  note in_Z = entry_cell_in_table [OF i(2), of ?Z] entry_cell_in_table [OF i(3), of ?Z] entry_cell_in_table [OF i(4), of ?Z]
  note ne = table_cell_apart [OF root(1,2) i(1), of s]
  note cells = first_frame_cell [OF i(2,3), of s] first_frame_cell [OF i(3,4), of s]
  define s1 where "s1 = store (entry_cell ?r i4) ?x (clear_first_frame s)"
  define s2 where "s2 = store (entry_cell ?Z i3) ?x (clear_first_frame s1)"
  define s3 where "s3 = store (entry_cell ?Z i2) ?x (clear_first_frame s2)"
  have bm: "bitmap_cells s1 = bitmap_cells s" "bitmap_cells s2 = bitmap_cells s"
    by (simp_all add: s1_def s2_def clear_first_frame_def bitmap_cells_def)
  have Z: "g_hhdm_offset s1 = ?Z" "g_hhdm_offset s2 = ?Z" "g_hhdm_offset s3 = ?Z" "?Z \<noteq> 0"
    using s by (simp_all add: s1_def s2_def s3_def exhausted_def)
  have out: "entry_cell ?r i4 \<notin> bitmap_cells s" "entry_cell ?Z i3 \<notin> bitmap_cells s"
    using root(4) entry_cell_in_table [OF i(1), of ?r] in_Z s by (auto simp: exhausted_def)
  have ex: "exhausted s1" unfolding s1_def by (rule exhausted_table [OF s out(1)])
  then have ex2: "exhausted s2" unfolding s2_def by (rule exhausted_table) (simp add: bm out(2))
  have e1: "ensure_table (entry_cell ?r i4) (intermediate_flags flags) s = (?Z, s1)"
    using ensure_table_exhausted [OF s] empty by (simp add: s1_def table_entry_def)
  have "mem s1 (entry_cell ?Z i3) = 0" using in_Z(1) ne by (auto simp: s1_def)
  then have e2: "ensure_table (entry_cell ?Z i3) (intermediate_flags flags) s1 = (?Z, s2)"
    using ensure_table_exhausted [OF ex] by (simp add: s2_def Z)
  have "mem s2 (entry_cell ?Z i2) = 0" using in_Z(2) cells(1) ix(2) by (auto simp: s2_def Z)
  then have e3: "ensure_table (entry_cell ?Z i2) (intermediate_flags flags) s2 = (?Z, s3)"
    using ensure_table_exhausted [OF ex2] by (simp add: s3_def Z)
  have m3: "mem s3 p = (if p = entry_cell ?Z i2 then ?x else if p \<in> table_cells ?Z then 0
      else if p = entry_cell ?r i4 then ?x else mem s p)" for p
    using in_Z by (auto simp: s3_def s2_def s1_def Z)
  then have "mem s3 (entry_cell ?Z i1) = 0" using in_Z(3) cells(2) ix(3) by simp
  then have "map_page ?r virt phys flags s =
      (True, store (entry_cell ?Z i1) (make_page_entry phys (flags_or flags PF_Present)) s3)"
    using map_page_accepts [OF args, of ?r s] root(3) Z(4) by (simp add: li e1 e2 e3)
  moreover have "mem (store (entry_cell ?Z i1) (make_page_entry phys (flags_or flags PF_Present)) s3) p =
      (if p = entry_cell ?r i4 then ?x else if p = entry_cell ?Z i1 then make_page_entry phys (flags_or flags PF_Present)
       else if p = entry_cell ?Z i2 then ?x else if p \<in> table_cells ?Z then 0 else mem s p)" for p
    using ne in_Z by (auto simp: m3)
  ultimately show ?thesis using Z(3) by (intro exI conjI) (assumption | rule ext | simp)+
qed

lemma map_page_exhausted_result:
  assumes s: "exhausted s" and root: "page_aligned root" "root \<noteq> 0" "physical_to_virtual s root \<noteq> 0"
    "table_cells (physical_to_virtual s root) \<inter> bitmap_cells s = {}"
    and args: "map_page_args virt phys flags" and ix: "indices virt = [i4, i3, i2, i1]" "distinct [i3, i2, i1]"
    and empty: "table_entry s root i4 = 0" and sp: "pml4 space = physical_to_virtual s root"
  shows "\<exists>t. map_page (pml4 space) virt phys flags s = (True, t) \<and> translate space virt t = 0 \<and>
    (\<forall>i<512. i \<noteq> i2 \<longrightarrow> i \<noteq> i1 \<longrightarrow> mem t (entry_cell (g_hhdm_offset s) i) = 0)"
proof -
  have d: "i3 \<noteq> i2" "i2 \<noteq> i1" "i3 \<noteq> i1" using ix(2) by auto
  have i: "i4 < 512" "i3 < 512" "i2 < 512" "i1 < 512"
    using full_path_indices [of virt] by (simp_all add: ix(1) full_path_def)
  let ?Z = "g_hhdm_offset s" and ?x = "make_page_entry 0 (intermediate_flags flags)"
  obtain t where t: "map_page (physical_to_virtual s root) virt phys flags s = (True, t)" "g_hhdm_offset t = ?Z"
    and m: "mem t = (\<lambda>p. if p = entry_cell (physical_to_virtual s root) i4 then ?x
      else if p = entry_cell ?Z i1 then make_page_entry phys (flags_or flags PF_Present)
      else if p = entry_cell ?Z i2 then ?x else if p \<in> table_cells ?Z then 0 else mem s p)"
    using map_page_exhausted_run [OF s root args ix(1) d(1,2) empty] by blast
  have zero: "mem t (entry_cell ?Z j) = 0" if "j < 512" "j \<noteq> i2" "j \<noteq> i1" for j
    using that first_frame_cell [OF that(1) i(3), of s] first_frame_cell [OF that(1) i(4), of s]
      entry_cell_in_table [OF that(1), of ?Z] table_cell_apart [OF root(1,2) i(1), of s] by (auto simp: m)
  have "page_entry_address ?x = 0" using page_entry_target(1) [of 0 "intermediate_flags flags"] by simp
  moreover have "present ?x" by (simp add: leaf_entry_bits bit_intermediate_flags)
  moreover have "pml4_index (decompose_address virt) = i4" "pdpt_index (decompose_address virt) = i3"
    using ix(1) by (simp_all add: indices_eq)
  moreover have "mem t (entry_cell (physical_to_virtual s root) i4) = ?x" by (simp add: m)
  ultimately have "translate space virt t = 0"
    using args zero [OF i(2) d(1,3)] root(3) by (simp add: translate_def sp map_page_args_def Let_def physical_to_virtual_def t(2))
  with t(1) zero show ?thesis by (auto simp: sp)
qed

section \<open>The failure branch of \<open>allocate_table\<close>\<close>

text \<open>The allocator's answer is a multiple of the page size in every state, so it is never all ones.\<close>

lemma alloc_scan_page_multiple: "\<exists>frame. fst (alloc_scan i s) = frame * kPageSize"
proof (induction i s rule: alloc_scan.induct)
  case (1 i s)
  have "\<exists>frame. (0 :: u64) = frame * kPageSize" by (rule exI [of _ 0]) simp
  with 1 show ?case by (subst alloc_scan.simps) (auto simp: Let_def)
qed

lemma page_multiple_not_max: "frame * kPageSize \<noteq> UINT64_MAX"
proof
  assume "frame * kPageSize = UINT64_MAX"
  then have "even (frame * kPageSize) \<longleftrightarrow> even UINT64_MAX" by simp
  then show False by (simp add: kPageSize_def)
qed

lemma alloc_scan_offset: "g_hhdm_offset (snd (alloc_scan i s)) = g_hhdm_offset s"
proof (induction i s rule: alloc_scan.induct)
  case (1 i s)
  then show ?case by (subst alloc_scan.simps) (simp add: Let_def set_frame_used_def bitmap_set_def)
qed

lemma allocate_table_always:
  "\<exists>frame t. allocate_table s = (Some \<lparr>physical = frame * kPageSize, virtual_address = g_hhdm_offset s + frame * kPageSize\<rparr>, t)"
proof -
  obtain frame t where a: "alloc_frame s = (frame * kPageSize, t)"
    using alloc_scan_page_multiple [of 0 s] by (cases "alloc_frame s") (auto simp: alloc_frame_def)
  then have "g_hhdm_offset t = g_hhdm_offset s" using alloc_scan_offset [of 0 s] by (simp add: alloc_frame_def)
  with a page_multiple_not_max [of frame] show ?thesis
    by (auto simp: allocate_table_def Let_def physical_to_virtual_def)
qed

section \<open>A machine without free frames\<close>

definition full_machine :: machine where
  "full_machine = \<lparr> mem = (\<lambda>p. if p = 0xFFFF800000002000 then 0xFFFFFFFFFFFFFFFF else 0), bitmap = 0xFFFF800000002000,
     bitmap_phys = 0x2000, bitmap_words = 1, bitmap_bytes = 8, frame_count = 64, free_frame_count = 0,
     g_hhdm_offset = 0xFFFF800000000000, msrs = (\<lambda>_. 0), cr3 = 0, klog = [] \<rparr>"

lemma full_bitmap_cells:
  assumes "page_aligned P" "P \<noteq> 0x2000"
  shows "table_cells (physical_to_virtual full_machine P) \<inter> bitmap_cells full_machine = {}"
proof -
  have "bitmap_cells full_machine \<subseteq> table_cells (physical_to_virtual full_machine 0x2000)"
  proof
    fix p
    assume "p \<in> bitmap_cells full_machine"
    then obtain i where i: "p = 0xFFFF800000002000 + 8 * i" "i < 1" by (auto simp: bitmap_cells_def full_machine_def)
    then have "i < 512" by (simp add: word_less_nat_alt)
    with i(1) show "p \<in> table_cells (physical_to_virtual full_machine 0x2000)"
      by (auto simp: table_cells_def physical_to_virtual_def full_machine_def)
  qed
  moreover have "page_aligned 0x2000" by (simp add: page_aligned_def)
  ultimately show ?thesis using table_cells_disjoint [OF assms(1), of "0x2000" full_machine] assms(2) by blast
qed

lemma full_machine_exhausted: "exhausted full_machine"
proof -
  have "frame_used full_machine f" if "frame_valid full_machine f" for f
  proof -
    have "f < 64" using that by (simp add: frame_valid_def full_machine_def)
    then have "f div 64 = 0" by (intro unat_eqI) (simp add: unat_div word_less_nat_alt)
    moreover have "bit (0xFFFFFFFFFFFFFFFF :: u64) n" if "n < 64" for n
    proof -
      have "(0xFFFFFFFFFFFFFFFF :: u64) = mask 64" by (simp add: mask_eq_exp_minus_1)
      with that show ?thesis by (simp only: bit_mask_iff) simp
    qed
    ultimately show ?thesis
      using frame_mod_less [of f] by (simp add: frame_used_def bitmap_get_def full_machine_def kWordBits_def)
  qed
  then have "free_frames full_machine = {}" by (auto simp: free_frames_def)
  moreover have "table_cells (g_hhdm_offset full_machine) \<inter> bitmap_cells full_machine = {}"
    using full_bitmap_cells [of 0] by (simp add: page_aligned_def physical_to_virtual_def)
  ultimately show ?thesis
    by (simp add: exhausted_def pmm_wf_def) (simp add: bitmap_shape_def full_machine_def kWordBits_def)
qed

section \<open>Properties\<close>

text \<open>
  C26: when no frame is left \<open>map_page\<close> does not fail either. For an address whose PML4 slot is empty and
  whose lower three indices differ it reports success, but the address stays unmapped: \<open>translate\<close>
  still answers 0. All three tables it needed were placed in physical frame 0, whose previous contents
  are gone.
\<close>

theorem map_page_exhausted:
  assumes "exhausted s" "page_aligned root" "root \<noteq> 0" "physical_to_virtual s root \<noteq> 0"
    "table_cells (physical_to_virtual s root) \<inter> bitmap_cells s = {}"
    "map_page_args virt phys flags" "indices virt = [i4, i3, i2, i1]" "distinct [i3, i2, i1]"
    "table_entry s root i4 = 0" "pml4 space = physical_to_virtual s root"
  shows "\<exists>t. map_page (pml4 space) virt phys flags s = (True, t) \<and> translate space virt t = 0 \<and>
    (\<forall>i<512. i \<noteq> i2 \<longrightarrow> i \<noteq> i1 \<longrightarrow> mem t (entry_cell (g_hhdm_offset s) i) = 0)"
  by (rule map_page_exhausted_result [OF assms])

theorem map_page_exhausted_witness:
  "\<exists>t. map_page 0xFFFF800000001000 0x40403000 0x5000 PF_Writable full_machine = (True, t) \<and>
     translate \<lparr>pml4 = 0xFFFF800000001000, pml4_physical = 0x1000\<rparr> 0x40403000 t = 0"
proof -
  let ?space = "\<lparr>pml4 = 0xFFFF800000001000, pml4_physical = 0x1000\<rparr>"
  have ptv: "physical_to_virtual full_machine 0x1000 = 0xFFFF800000001000"
    by (simp add: physical_to_virtual_def full_machine_def)
  have al: "page_aligned 0x1000" by (simp add: page_aligned_def)
  have args: "map_page_args 0x40403000 0x5000 PF_Writable"
    by (simp add: map_page_args_def is_canonical_def page_aligned_def kPhysicalAddressMask_def)
  have ix: "indices 0x40403000 = [0, 1, 2, 3]" by (simp add: indices_eq decompose_address_def)
  have "table_entry full_machine 0x1000 0 = 0" unfolding table_entry_def ptv by (simp add: entry_cell_def full_machine_def)
  then show ?thesis
    using map_page_exhausted [OF full_machine_exhausted al _ _ full_bitmap_cells [OF al] args ix, of ?space] by (auto simp: ptv)
qed

text \<open>
  When no frame is left \<open>create_address_space\<close> does not fail: the allocator reports exhaustion
  as address 0, the caller tests for the all-ones address, and so the function reports success
  with physical frame 0 as the PML4 and clears that frame's 512 cells, whatever they hold.
\<close>

theorem create_address_space_exhausted:
  assumes "pmm_wf s" "free_frames s = {}"
  shows "create_address_space out s =
    (True, \<lparr>pml4 = g_hhdm_offset s, pml4_physical = 0\<rparr>,
     s\<lparr>mem := (\<lambda>p. if p \<in> table_cells (g_hhdm_offset s) then 0 else mem s p)\<rparr>)"
  using pmm.alloc_empty [OF assms]
  by (simp add: create_address_space_def allocate_table_def physical_to_virtual_def zero_entries_table Let_def)

text \<open>
  C27: allocating a page table never reports a failure. In every state of the machine, whatever the
  bitmap holds, \<open>create_address_space\<close> returns true, and \<open>ensure_table\<close> at an entry that is neither
  present nor huge links a frame and returns its direct-map address: \<open>alloc_frame\<close> answers with a
  multiple of the page size, so the all-ones address \<open>allocate_table\<close> tests for does not occur and the
  failure branches of both functions are never taken.
\<close>

theorem table_allocation_never_fails:
  assumes "mem s entry AND PF_Huge = 0" "mem s entry AND PF_Present = 0"
  shows "\<exists>frame t. create_address_space out s =
      (True, \<lparr>pml4 = g_hhdm_offset s + frame * kPageSize, pml4_physical = frame * kPageSize\<rparr>, t) \<and>
    ensure_table entry flags s =
      (g_hhdm_offset s + frame * kPageSize, store entry (make_page_entry (frame * kPageSize) flags) t)"
proof -
  obtain frame t where "allocate_table s =
      (Some \<lparr>physical = frame * kPageSize, virtual_address = g_hhdm_offset s + frame * kPageSize\<rparr>, t)"
    using allocate_table_always [of s] by blast
  with assms show ?thesis by (auto simp: create_address_space_def ensure_table_def)
qed

theorem table_allocation_never_fails_witness:
  "\<exists>frame t. create_address_space \<lparr>pml4 = 0, pml4_physical = 0\<rparr> full_machine =
     (True, \<lparr>pml4 = 0xFFFF800000000000 + frame * kPageSize, pml4_physical = frame * kPageSize\<rparr>, t)"
proof -
  have "mem full_machine 0x1000 AND PF_Huge = 0" "mem full_machine 0x1000 AND PF_Present = 0"
    "g_hhdm_offset full_machine = 0xFFFF800000000000" by (simp_all add: full_machine_def)
  with table_allocation_never_fails [of full_machine "0x1000" "\<lparr>pml4 = 0, pml4_physical = 0\<rparr>"] show ?thesis by metis
qed

end
