(* ===== verification/Host_Tests.thy ===== *)
theory Host_Tests
  imports Freestanding Boot_Memory Vmm_Exhaustion
begin

text \<open>
  The host tests of \<open>src/tests\<close>, restated on the model. Where a test evaluates a function on constants
  the model is evaluated on the same constants; where a test drives the memory managers through a
  sequence of calls the statement holds for every initial state of the machine and every offset of the
  direct map, and follows from the lemmas on the operations.
\<close>

section \<open>Formatted output\<close>

text \<open>
  \<open>sink\<close> and \<open>fmt\<close> of \<open>src/tests/test_print.cpp\<close>: format into a cleared buffer of 512 bytes, the last of
  which stays the terminator.
\<close>

definition buffer_sink :: "char \<Rightarrow> string \<Rightarrow> string" where
  "buffer_sink c buffer = (if length buffer < 511 then buffer @ [c] else buffer)"

definition fmt :: "string \<Rightarrow> karg list \<Rightarrow> print_error + string" where
  "fmt format args = kprintf (set_sink (Some buffer_sink) None) (Some format) args []"

lemma emit_buffer_sink: "length buffer \<le> 511 \<Longrightarrow> emit_chars (Some buffer_sink) str buffer = buffer @ take (511 - length buffer) str"
proof (induction str arbitrary: buffer)
  case (Cons c str)
  then show ?case by (auto simp: emit_def buffer_sink_def take_Cons')
qed (simp add: emit_def)

lemma fmt_renders: "fmt format args = map_sum id (take 511) (render format args)"
  by (simp add: fmt_def set_sink_def kprintf_def kprintf_loop_eq emit_buffer_sink)

lemmas print_eval = fmt_renders print_conversions signed_string_def numeral_string.simps [of 10] numeral_string.simps [of 16]
  pointer_string_def digits_def

lemma test_decimal:
  "fmt ''%d'' [Half 0] = Inr ''0''" "fmt ''%d'' [Half 42] = Inr ''42''" "fmt ''%d'' [Half (- 42)] = Inr ''-42''"
  "fmt ''%d'' [Half (- 2147483648)] = Inr ''-2147483648''"
  "fmt ''%ld'' [Word (- 9223372036854775808)] = Inr ''-9223372036854775808''"
  by (simp_all add: print_eval)

lemma test_unsigned_decimal:
  "fmt ''%u'' [Half 0] = Inr ''0''" "fmt ''%u'' [Half 4294967295] = Inr ''4294967295''"
  "fmt ''%lu'' [Word UINT64_MAX] = Inr ''18446744073709551615''"
  by (simp_all add: print_eval)

lemma test_hexadecimal:
  "fmt ''%x'' [Half 0] = Inr ''0''" "fmt ''%x'' [Half 0xdead] = Inr ''dead''"
  "fmt ''%lx'' [Word 0xffffffff80001000] = Inr ''ffffffff80001000''"
  by (simp_all add: print_eval)

lemma test_pointers:
  "fmt ''%p'' [Ptr 0xffffffff80001000] = Inr ''0xffffffff80001000''" "fmt ''%p'' [Ptr 0] = Inr ''0x0000000000000000''"
  by (simp_all add: print_eval upt_rec)

lemma test_strings_and_chars:
  "fmt ''%s'' [CStr (Some ''hello'')] = Inr ''hello''" "fmt ''%s'' [CStr None] = Inr ''(null)''"
  "fmt ''%c%c'' [Half 104, Half 105] = Inr ''hi''"
  by (simp_all add: print_eval char_of_def bit_0)

lemma test_literals_and_unknown:
  "fmt ''no specifiers'' [] = Inr ''no specifiers''" "fmt ''100%%'' [] = Inr ''100%''" "fmt ''%q'' [Half 1] = Inr ''%q''"
  "fmt ''a %s b %d c'' [CStr (Some ''X''), Half 7] = Inr ''a X b 7 c''"
  by (simp_all add: print_eval)

section \<open>Memory functions\<close>


text \<open>The bytes at \<open>p\<close>, and a string written at \<open>p\<close>.\<close>

definition bytes_at :: "ptr \<Rightarrow> nat \<Rightarrow> bytes \<Rightarrow> u8 list" where
  "bytes_at p n m = map (\<lambda>i. m (p + of_nat i)) [0..<n]"

definition string_at :: "ptr \<Rightarrow> string \<Rightarrow> bytes" where
  "string_at p str a = (if unat (a - p) < length str then of_char (str ! unat (a - p)) else 0)"

lemmas string_eval = bytes_at_def string_at_def upt_rec of_char_def
  memset_def memcpy_def memmove_def memcmp_def fill.simps copy_up.simps copy_down.simps compare_bytes.simps

lemma test_memset_fills:
  "bytes_at 0x1000 8 (snd (memset 0x1000 0xAB 8 m)) = [0xAB, 0xAB, 0xAB, 0xAB, 0xAB, 0xAB, 0xAB, 0xAB]" "snd (memset 0x1000 0 0 m) = m"
  by (simp_all add: string_eval)

lemma test_memcpy_copies:
  "bytes_at 0x2000 6 (snd (memcpy 0x2000 0x1000 7 (string_at 0x1000 ''abcdef''))) = map of_char ''abcdef''"
  by (simp add: string_eval)

lemma test_memcmp_orders:
  "memcmp 0x1000 0x1004 3 (string_at 0x1000 ''abc abc'') = 0" "memcmp 0x1000 0x1004 3 (string_at 0x1000 ''abc abd'') < 0"
  "memcmp 0x1000 0x1004 3 (string_at 0x1000 ''abd abc'') > 0" "memcmp 0x1000 0x1004 0 (string_at 0x1000 ''abc xyz'') = 0"
  by (simp_all add: string_eval)

lemma test_memmove_handles_overlap:
  "bytes_at 0x1000 6 (snd (memmove 0x1002 0x1000 4 (string_at 0x1000 ''abcdef''))) = map of_char ''ababcd''"
  "bytes_at 0x1000 6 (snd (memmove 0x1000 0x1002 4 (string_at 0x1000 ''abcdef''))) = map of_char ''cdefef''"
  "bytes_at 0x1000 6 (snd (memmove 0x1000 0x1000 6 (string_at 0x1000 ''abcdef''))) = map of_char ''abcdef''"
  by (simp_all add: string_eval)

section \<open>Page-table vocabulary\<close>

lemma test_page_table_is_one_page: "8 * kPageTableEntries = kPageSize" "kPageTableEntries = 512"
  by (simp_all add: kPageTableEntries_def kPageSize_def)

lemma test_page_entry_encoding:
  "page_entry_address (make_page_entry 0x12345000 (flags_or (flags_or PF_Present PF_Writable) PF_NoExecute)) = 0x12345000"
  "page_entry_flags (make_page_entry 0x12345000 (flags_or (flags_or PF_Present PF_Writable) PF_NoExecute)) =
     flags_or (flags_or PF_Present PF_Writable) PF_NoExecute"
  by (simp_all add: page_entry_address_def page_entry_flags_def make_page_entry_def flags_or_def kPhysicalAddressMask_def
      PF_Present_def PF_Writable_def PF_NoExecute_def)

lemma test_decompose:
  "decompose_address 0xffffffff80001000 = \<lparr>pml4_index = 511, pdpt_index = 510, pd_index = 0, pt_index = 1, offset = 0\<rparr>"
  "decompose_address 0xffff800000052000 = \<lparr>pml4_index = 256, pdpt_index = 0, pd_index = 0, pt_index = 82, offset = 0\<rparr>"
  by (simp_all add: decompose_address_def)

lemma test_address_round_trips:
  "reassemble_address (decompose_address 0xffffffff80001000) = 0xffffffff80001000"
  "reassemble_address (decompose_address 0xffff800000052000) = 0xffff800000052000"
  by (simp_all add: decompose_address_def reassemble_address_def)

lemma test_canonical_addresses:
  "is_canonical 0" "is_canonical 0x00007ffffffff000" "is_canonical 0xffff800000000000" "is_canonical 0xffffffff80000000"
  "\<not> is_canonical 0x0000800000000000" "\<not> is_canonical 0xffff7ffffffff000"
  by (simp_all add: is_canonical_def)

section \<open>The frame allocator\<close>

text \<open>
  \<open>pmm_probe\<close> of \<open>src/tests/test_pmm.cpp\<close>: two usable regions of 31 and 8 frames, the bitmap in the
  first of them, so 38 allocations succeed.
\<close>

lemma card_frames:
  assumes "\<And>n. n \<in> A \<Longrightarrow> n < 2 ^ 64"
  shows "card {f :: u64. unat f \<in> A} = card A"
proof -
  have "n \<in> unat ` {f :: u64. unat f \<in> A}" if "n \<in> A" for n
    using that assms [OF that]
    by (intro image_eqI [of _ _ "of_nat n"]) (simp_all add: unsigned_of_nat take_bit_nat_eq_self)
  then have "unat ` {f :: u64. unat f \<in> A} = A" by auto
  then show ?thesis by (metis card_image inj_onI unat_eqI)
qed

lemma probe_free_frames:
  assumes "pmm_init probe_regions hhdm s = Ret () t"
  shows "free_frames t = {f. unat f \<in> {2..<32} \<union> {48..<56}}" "card (free_frames t) = 38"
proof -
  have p: "bitmap_phys t = 0x1000" "unat (bitmap_bytes t) = 8"
    using pmm_init_bitmap_phys [OF assms] probe_ok(4)
    by (simp_all add: probe_regions_def init_words_def init_frame_count_def kPageSize_def kWordBits_def)
  have "reserved_frames t = {1}" by (auto simp: reserved_frames_def p)
  then show e: "free_frames t = {f. unat f \<in> {2..<32} \<union> {48..<56}}"
    using pmm_init_free_frames [OF probe_ok(1) assms] by (auto simp: probe_regions_def frame_inside_def)
  show "card (free_frames t) = 38" unfolding e by (subst card_frames) (auto simp: card_Un_disjoint)
qed

lemma probe_address:
  assumes "unat f \<in> {2..<32} \<union> {48..<56}"
  shows "f * kPageSize mod kPageSize = 0" "f * kPageSize \<noteq> 0"
proof -
  have "unat f < 56" "unat f \<noteq> 0" using assms by auto
  then have "unat (f * kPageSize) = 4096 * unat f" by (simp add: kPageSize_def unat_word_ariths)
  with \<open>unat f \<noteq> 0\<close> have "unat (f * kPageSize mod kPageSize) = 0" "unat (f * kPageSize) \<noteq> 0"
    by (simp_all add: unat_mod)
  then show "f * kPageSize mod kPageSize = 0" "f * kPageSize \<noteq> 0" by (auto simp: unat_eq_0)
qed

lemma test_pmm_probe:
  assumes "pmm_init probe_regions hhdm s = Ret () t" "alloc_n alloc_frame 38 t = (frames, u)"
    "alloc_n alloc_frame 3 (fold free_frame [frames ! 3, frames ! 10, frames ! 20] u) = (again, w)"
  shows "distinct frames" "\<forall>a \<in> set frames. a \<noteq> 0 \<and> a mod kPageSize = 0" "fst (alloc_frame u) = 0"
    "distinct again" "0 \<notin> set again" "fst (alloc_frame w) = 0"
proof -
  note f = probe_free_frames [OF assms(1)]
  have wf: "pmm_wf t" by (rule pmm_init_wf [OF probe_ok(1,2) assms(1)])
  note all = pmm.alloc_n_all [OF wf, unfolded f(2), OF assms(2)]
  show "distinct frames" by (rule all(4))
  show "fst (alloc_frame u) = 0" by (simp add: pmm.alloc_empty [OF all(1,3)])
  show nz: "\<forall>a \<in> set frames. a \<noteq> 0 \<and> a mod kPageSize = 0"
  proof
    fix a
    assume "a \<in> set frames"
    then obtain x where x: "a = x * kPageSize" "x \<in> free_frames t" unfolding all(6) by blast
    then show "a \<noteq> 0 \<and> a mod kPageSize = 0" using probe_address [of x] unfolding f(1) x(1) by blast
  qed
  have "\<exists>f \<in> managed_frames u. frames ! i = f * kPageSize" if "i < 38" for i
  proof -
    have "frames ! i \<in> (\<lambda>f. f * kPageSize) ` free_frames t" using that all(5) unfolding all(6) [symmetric] by simp
    then show ?thesis using pmm.pool_managed [OF wf] unfolding all(2) by blast
  qed
  from this [of 3] this [of 10] this [of 20] obtain x y z where m: "{x, y, z} \<subseteq> managed_frames u"
    and e: "frames ! 3 = x * kPageSize" "frames ! 10 = y * kPageSize" "frames ! 20 = z * kPageSize" by auto
  have "distinct [frames ! 3, frames ! 10, frames ! 20]" using all(4,5) by (simp add: nth_eq_iff_index_eq)
  then have d: "card {x, y, z} = 3" by (auto simp: e card_insert_if)
  let ?v = "fold free_frame [frames ! 3, frames ! 10, frames ! 20] u"
  have v: "pmm_wf ?v" "free_frames ?v = {x, y, z}"
    using pmm.release_all [OF all(1), of "[x, y, z]"] m all(3) by (simp_all add: e)
  note again = pmm.alloc_n_all [OF v(1), unfolded v(2) d, OF assms(3)]
  show "distinct again" by (rule again(4))
  show "fst (alloc_frame w) = 0" by (simp add: pmm.alloc_empty [OF again(1,3)])
  have "{frames ! 3, frames ! 10, frames ! 20} \<subseteq> set frames" using all(5) by simp
  then show "0 \<notin> set again" unfolding again(6) using nz by (auto simp: e)
qed

section \<open>Address spaces\<close>

text \<open>
  The fixture of \<open>src/tests/test_vmm.cpp\<close>: sixteen usable frames from address 0, and a direct map that
  puts physical address \<open>0x1000\<close> at the start of the array \<open>fake_ram\<close>.
\<close>

definition host_regions :: "MemoryRegion list" where
  "host_regions = [\<lparr>base = 0, length_of = 0x10000, type_of = Usable\<rparr>]"

lemma host_regions_ok:
  "usable_in_range host_regions" "usable_disjoint host_regions" "usable_aligned host_regions"
  "usable_top host_regions 0 = 0x10000" "init_frame_count host_regions = 16" "unat (init_words host_regions) = 1"
  "find_bitmap_region host_regions (init_pages host_regions) = Some 0"
  by (simp_all add: host_regions_def usable_in_range_def usable_aligned_def page_aligned_iff init_sizes kPageSize_def kWordBits_def Let_def)

text \<open>
  The allocator puts its bitmap into the first usable frame, frame 0, whose direct-map address lies one
  page in front of the array: the fixture writes outside the memory it owns.
\<close>

lemma host_bitmap_outside:
  assumes "pmm_init host_regions (fake_ram - 0x1000) s = Ret () t"
  shows "bitmap_phys t = 0" "bitmap t = fake_ram - 0x1000"
  using pmm_init_bitmap_phys(1) [OF assms] pmm_init_shape(2) [OF assms] by (simp_all add: host_regions_ok)

lemma host_free_frames:
  assumes "pmm_init host_regions hhdm s = Ret () t"
  shows "free_frames t = {f. unat f \<in> {1..<16}}" "card (free_frames t) = 15"
proof -
  have "reserved_frames t = {0}"
    using pmm_init_bitmap_phys [OF assms] by (auto simp: reserved_frames_def host_regions_ok)
  then show e: "free_frames t = {f. unat f \<in> {1..<16}}"
    using pmm_init_free_frames [OF host_regions_ok(1) assms] by (auto simp: host_regions_def frame_inside_def)
  show "card (free_frames t) = 15" unfolding e by (subst card_frames) auto
qed

text \<open>An address space created after \<open>init\<close> is empty, and 14 frames are left for its tables.\<close>

definition host_space :: "u64 \<Rightarrow> AddressSpace \<Rightarrow> machine \<Rightarrow> bool" where
  "host_space hhdm space u \<longleftrightarrow> (\<exists>s t out. pmm_init host_regions hhdm s = Ret () t \<and> hhdm \<noteq> 0 \<and> unat hhdm + 0x10000 \<le> 2 ^ 64 \<and>
     create_address_space out t = (True, space, u))"

lemma host_space_exists:
  assumes "hhdm \<noteq> 0" "unat hhdm + 0x10000 \<le> 2 ^ 64"
  shows "\<exists>space u. host_space hhdm space u"
proof -
  obtain t where "pmm_init host_regions hhdm two_frames = Ret () t"
    using pmm_init_returns [of host_regions 0 hhdm two_frames] by (auto simp: host_regions_ok)
  moreover obtain space u where "create_address_space \<lparr>pml4 = 0, pml4_physical = 0\<rparr> t = (True, space, u)"
    using allocate_table_always [of t] by (auto simp: create_address_space_def)
  ultimately show ?thesis using assms unfolding host_space_def by blast
qed

lemma test_create_address_space:
  assumes "host_space hhdm space u"
  shows "vm_wf u (pml4_physical space)" "pml4 space = physical_to_virtual u (pml4_physical space)"
    "space_map u (pml4_physical space) = (\<lambda>_. None)" "card (free_frames u) = 14" "large_slot_free u (pml4_physical space) v"
proof -
  obtain s t out where h: "pmm_init host_regions hhdm s = Ret () t" "hhdm \<noteq> 0" "unat hhdm + 0x10000 \<le> 2 ^ 64"
    "create_address_space out t = (True, space, u)" using assms by (auto simp: host_space_def)
  note f = host_free_frames [OF h(1)]
  have p: "pool_ok t"
    by (rule pmm_init_pool [OF host_regions_ok(1-3) h(1)]) (use h(2,3) in \<open>simp_all add: host_regions_ok\<close>)
  have ne: "free_frames t \<noteq> {}" using f(2) by auto
  note c = create_address_space_fresh [OF p ne] and e = after_alloc_effect [OF p ne]
  have u: "u = after_alloc t" "pml4_physical space = fresh_table t" "pml4 space = physical_to_virtual t (fresh_table t)"
    using c(1) [of out] h(4) by auto
  show "vm_wf u (pml4_physical space)" "space_map u (pml4_physical space) = (\<lambda>_. None)" using c(2,3) by (simp_all add: u)
  show "pml4 space = physical_to_virtual u (pml4_physical space)" by (simp add: u physical_to_virtual_def)
  show "card (free_frames u) = 14" using e(1) f(2) fresh_frame_free [OF ne] by (simp add: u)
  show "large_slot_free u (pml4_physical space) v" unfolding u by (rule empty_slot_free) (rule e(4))
qed

text \<open>The translations after a successful call, as \<open>translate\<close> reports them.\<close>

lemma host_translate:
  "extends u v root n \<Longrightarrow> pml4 space = physical_to_virtual u root \<Longrightarrow>
     translate space w v = (case space_map v root w of None \<Rightarrow> 0 | Some (p, _) \<Rightarrow> p)"
  by (rule translate_leaf) (simp_all add: extends_def physical_to_virtual_def)

lemma host_map_page:
  assumes "host_space hhdm space u" "flags_only flags" "\<not> huge flags"
  shows "\<exists>v n. map_page (pml4 space) 0x40000000 0x5000 flags u = (True, v) \<and> extends u v (pml4_physical space) n \<and>
    space_map v (pml4_physical space) = (\<lambda>w. if drop_bit 12 w = drop_bit 12 0x40000000
      then Some (0x5000 OR take_bit 12 w, flags_or flags PF_Present) else None)"
proof -
  note c = test_create_address_space [OF assms(1)]
  have "map_page_args 0x40000000 0x5000 flags"
    using assms(3) by (simp add: map_page_args_def is_canonical_def page_aligned_def kPhysicalAddressMask_def)
  moreover have "missing u (pml4_physical space) (indices 0x40000000) \<le> card (free_frames u)"
    using missing_indices_le(1) [of u "pml4_physical space" "0x40000000"] by (simp add: c(4))
  moreover have "space_map u (pml4_physical space) 0x40000000 = None" by (simp add: c(3))
  ultimately show ?thesis using map_page_result [OF c(1) _ assms(2), of "0x40000000" "0x5000"] unfolding c(3) c(2) by blast
qed

lemma test_translate_mapped_page:
  assumes "host_space hhdm space u"
  shows "\<exists>v. map_page (pml4 space) 0x40000000 0x5000 PF_Writable u = (True, v) \<and> translate space 0x40000000 v = 0x5000 \<and>
    translate space (0x40000000 + 123) v = 0x5000 + 123"
proof -
  note c = test_create_address_space [OF assms]
  obtain v n where v: "map_page (pml4 space) 0x40000000 0x5000 PF_Writable u = (True, v)" "extends u v (pml4_physical space) n"
    "space_map v (pml4_physical space) = (\<lambda>w. if drop_bit 12 w = drop_bit 12 0x40000000
      then Some (0x5000 OR take_bit 12 w, flags_or PF_Writable PF_Present) else None)" using host_map_page [OF assms, of PF_Writable] by auto
  from v(1) show ?thesis by (simp add: host_translate [OF v(2) c(2)] v(3))
qed

text \<open>
  The user bit reaches all four levels, and the no-execute bit only the leaf: otherwise the rights that
  the processor computes over the walk would differ from the flags of the call.
\<close>

lemma test_map_page_permissions:
  assumes "host_space hhdm space u" "flags_only flags" "\<not> huge flags"
  shows "\<exists>v. map_page (pml4 space) 0x40000000 0x5000 flags u = (True, v) \<and>
    rights v (pml4_physical space) (indices 0x40000000) = Some (bit flags 1, bit flags 2, \<not> bit flags 63)"
proof -
  obtain v n where v: "map_page (pml4 space) 0x40000000 0x5000 flags u = (True, v)" "extends u v (pml4_physical space) n"
    "space_map v (pml4_physical space) = (\<lambda>w. if drop_bit 12 w = drop_bit 12 0x40000000
      then Some (0x5000 OR take_bit 12 w, flags_or flags PF_Present) else None)" using host_map_page [OF assms] by blast
  have "vm_wf v (pml4_physical space)" using v(2) by (simp add: extends_def)
  moreover have "space_map v (pml4_physical space) 0x40000000 = Some (0x5000, flags_or flags PF_Present)" by (simp add: v(3))
  ultimately have "rights v (pml4_physical space) (indices 0x40000000) = Some (bit flags 1, bit flags 2, \<not> bit flags 63)"
    using space_map_rights(2) by (fastforce simp: flags_or_def bit_or_iff)
  with v(1) show ?thesis by blast
qed

lemma test_translate_unmapped_page: "host_space hhdm space u \<Longrightarrow> translate space 0x40000000 u = 0"
  using translate_leaf [OF test_create_address_space(1,2)] test_create_address_space(3) by simp

lemma test_map_page_rejects_existing_mapping:
  assumes "host_space hhdm space u" "map_page (pml4 space) 0x40000000 0x5000 PF_Writable u = (True, v)"
  shows "\<not> fst (map_page (pml4 space) 0x40000000 0x6000 PF_Writable v)"
proof -
  note c = test_create_address_space [OF assms(1)]
  obtain n where v: "extends u v (pml4_physical space) n" "space_map v (pml4_physical space) 0x40000000 \<noteq> None"
    using host_map_page [OF assms(1), of PF_Writable] assms(2) by auto
  then show ?thesis
    using map_page_occupied [of v "pml4_physical space" "0x40000000" "0x6000" PF_Writable] c(2)
    by (auto simp: extends_def physical_to_virtual_def)
qed

lemma test_map_range_crosses_page_table_boundary:
  assumes "host_space hhdm space u"
  shows "\<exists>v. map_range space (push_bit 12 510) 0x10000 (4 * kPageSize) PF_Writable u = Some (True, v) \<and>
    (\<forall>i < 4. translate space (push_bit 12 510 + i * kPageSize) v = 0x10000 + i * kPageSize)"
proof -
  note c = test_create_address_space [OF assms]
  have "range_ok 12 (push_bit 12 510) 0x10000 (4 * kPageSize)" by (simp add: range_ok_def kPageSize_def)
  moreover have "flags_only PF_Writable" "\<not> huge PF_Writable" "unat (4 * kPageSize) div 4096 * 3 \<le> card (free_frames u)"
    by (simp_all add: c(4) kPageSize_def)
  ultimately obtain v n where
    v: "map_range space (push_bit 12 510) 0x10000 (4 * kPageSize) PF_Writable u = Some (True, v)"
      "extends u v (pml4_physical space) n"
      "space_map v (pml4_physical space) = (\<lambda>w. if w - push_bit 12 510 < 4 * kPageSize
        then Some (0x10000 + (w - push_bit 12 510), flags_or PF_Writable PF_Present) else None)"
    using map_range_result [OF c(1,2), of "push_bit 12 510" "0x10000" "4 * kPageSize" PF_Writable] unfolding c(3) by blast
  have "i * kPageSize < 4 * kPageSize" if "i < 4" for i :: u64
    using that by (auto simp: kPageSize_def word_less_nat_alt unat_word_ariths)
  with v(1) show ?thesis by (auto simp: host_translate [OF v(2) c(2)] v(3))
qed

lemma test_map_page_large:
  assumes "host_space hhdm space u"
  shows "\<exists>v. map_page_large (pml4 space) 0x40000000 0x800000 PF_Writable u = (True, v) \<and>
    translate space 0x40000000 v = 0x800000 \<and> translate space (0x40000000 + 0x1000) v = 0x800000 + 0x1000 \<and>
    translate space (0x40000000 + 0x1FFFFF) v = 0x800000 + 0x1FFFFF \<and>
    \<not> fst (map_page (pml4 space) 0x40000000 0x800000 PF_Writable v)"
proof -
  note c = test_create_address_space [OF assms]
  have a: "map_large_args 0x40000000 0x800000" by (simp add: map_large_args_def is_canonical_def kPhysicalAddressMask_def)
  have fl: "flags_only PF_Writable" by simp
  have missing: "missing u (pml4_physical space) (large_indices 0x40000000) \<le> card (free_frames u)"
    using missing_indices_le(2) [of u "pml4_physical space" "0x40000000"] by (simp add: c(4))
  obtain v n where v: "map_page_large (pml4 space) 0x40000000 0x800000 PF_Writable u = (True, v)"
      "extends u v (pml4_physical space) n"
      "space_map v (pml4_physical space) = (\<lambda>w. if drop_bit 21 w = drop_bit 21 0x40000000
        then Some (0x800000 OR take_bit 21 w, flags_or (flags_or PF_Writable PF_Present) PF_Huge) else None)"
    using map_page_large_result [OF c(1) a fl _ c(5)] missing unfolding c(3) c(2) by blast
  have "vm_wf v (pml4_physical space)" "space_map v (pml4_physical space) 0x40000000 \<noteq> None"
    "pml4 space = physical_to_virtual v (pml4_physical space)"
    using v(2,3) c(2) by (simp_all add: extends_def physical_to_virtual_def)
  then have "\<not> fst (map_page (pml4 space) 0x40000000 0x800000 PF_Writable v)"
    using map_page_occupied [of v "pml4_physical space" "0x40000000" "0x800000" PF_Writable] by auto
  with v(1) show ?thesis by (simp add: host_translate [OF v(2) c(2)] v(3))
qed

lemma test_map_range_large_maps_multiple_pages:
  assumes "host_space hhdm space u"
  shows "\<exists>v. map_range_large space 0x40000000 0x800000 (4 * kLargePageSize) PF_Writable u = Some (True, v) \<and>
    (\<forall>i < 4. translate space (0x40000000 + i * kLargePageSize) v = 0x800000 + i * kLargePageSize)"
proof -
  note c = test_create_address_space [OF assms]
  have "range_ok 21 0x40000000 0x800000 (4 * kLargePageSize)" by (simp add: range_ok_def kLargePageSize_def)
  moreover have "flags_only PF_Writable" "unat (4 * kLargePageSize) div 2 ^ 21 * 2 \<le> card (free_frames u)"
    by (simp_all add: c(4) kLargePageSize_def)
  ultimately obtain v n where
    v: "map_range_large space 0x40000000 0x800000 (4 * kLargePageSize) PF_Writable u = Some (True, v)"
      "extends u v (pml4_physical space) n"
      "space_map v (pml4_physical space) = (\<lambda>w. if w - 0x40000000 < 4 * kLargePageSize
        then Some (0x800000 + (w - 0x40000000), flags_or (flags_or PF_Writable PF_Present) PF_Huge) else None)"
    using map_range_large_result [OF c(1,2) _ _ _ c(5), of "0x40000000" "0x800000" "4 * kLargePageSize" PF_Writable]
    unfolding c(3) by blast
  have "i * kLargePageSize < 4 * kLargePageSize" if "i < 4" for i :: u64
    using that by (auto simp: kLargePageSize_def word_less_nat_alt unat_word_ariths)
  with v(1) show ?thesis by (auto simp: host_translate [OF v(2) c(2)] v(3))
qed

text \<open>The rejections hold in every state, and leave it unchanged.\<close>

lemma test_map_page_rejects:
  "map_page nullptr 0x40000000 0x5000 PF_Writable s = (False, s)"
  "map_page pml4_table 0x800000000000 0x5000 PF_Writable s = (False, s)"
  "map_page pml4_table 0x40000001 0x5000 PF_Writable s = (False, s)"
  "map_page pml4_table 0x40000000 0x5001 PF_Writable s = (False, s)"
  "map_page pml4_table 0x40000000 0x5000 PF_Huge s = (False, s)"
  "map_page_large pml4_table 0x40001000 0x800000 PF_Writable s = (False, s)"
  "map_page_large pml4_table 0x40000000 0x801000 PF_Writable s = (False, s)"
  by (simp_all add: map_page_def map_page_large_def is_canonical_def kPageSize_def kLargePageSize_def PF_Huge_def)

lemma test_map_range_rejects:
  "map_range space 0x40000001 0x5000 kPageSize PF_Writable s = Some (False, s)"
  "map_range space 0x40000000 0x5001 kPageSize PF_Writable s = Some (False, s)"
  "map_range space 0x40000000 0x5000 (kPageSize + 1) PF_Writable s = Some (False, s)"
  "map_range space 0x40000000 0x5000 0 PF_Writable s = Some (False, s)"
  by (simp_all add: map_range_def kPageSize_def)

end
