(* ===== verification/Boot_Screen.thy ===== *)
theory Boot_Screen
  imports Boot
begin

text \<open>
  The framebuffer loops of \<open>kmain\<close>: which memory they write and with what.
\<close>

section \<open>Addresses\<close>

text \<open>A framebuffer whose rows fit its pitch and whose memory does not wrap around.\<close>

definition fb_ok :: "framebuffer \<Rightarrow> bool" where
  "fb_ok fb \<longleftrightarrow> 4 * unat (fb_width fb) \<le> unat (fb_pitch fb) \<and>
     unat (fb_address fb) + unat (fb_height fb) * unat (fb_pitch fb) \<le> 2 ^ 64"

abbreviation fb_stride :: "framebuffer \<Rightarrow> nat" where
  "fb_stride fb \<equiv> unat (fb_pitch fb) div 4"

lemma column_in_stride: "fb_ok fb \<Longrightarrow> x < fb_width fb \<Longrightarrow> unat x < fb_stride fb"
  by (auto simp: fb_ok_def word_less_nat_alt less_eq_div_iff_mult_less_eq Suc_le_eq [symmetric])

lemma pixel_index_bound:
  assumes "fb_ok fb" "x < fb_width fb" "y < fb_height fb"
  shows "4 * (unat y * fb_stride fb + unat x) + 4 \<le> unat (fb_height fb) * unat (fb_pitch fb)"
proof -
  let ?s = "fb_stride fb"
  have "unat x + 1 \<le> ?s" using column_in_stride [OF assms(1,2)] by simp
  then have "unat y * ?s + unat x + 1 \<le> (unat y + 1) * ?s" by simp
  also have "\<dots> \<le> unat (fb_height fb) * ?s"
    by (rule mult_right_mono) (use assms(3) in \<open>simp_all add: word_less_nat_alt\<close>)
  finally have "4 * (unat y * ?s + unat x + 1) \<le> unat (fb_height fb) * (4 * ?s)" by simp
  also have "\<dots> \<le> unat (fb_height fb) * unat (fb_pitch fb)" by (rule mult_left_mono) simp_all
  finally show ?thesis by simp
qed

lemma unat_pixel_cell:
  assumes "fb_ok fb" "x < fb_width fb" "y < fb_height fb"
  shows "unat (pixel_cell fb x y) = unat (fb_address fb) + 4 * (unat y * fb_stride fb + unat x)"
proof -
  let ?s = "fb_stride fb"
  have b: "4 * (unat y * ?s + unat x) + 4 \<le> unat (fb_height fb) * unat (fb_pitch fb)"
    by (rule pixel_index_bound [OF assms])
  have a: "unat (fb_address fb) + unat (fb_height fb) * unat (fb_pitch fb) \<le> 2 ^ 64"
    using assms(1) by (simp add: fb_ok_def)
  have s: "unat (fb_pitch fb div 4) = ?s" by (simp add: unat_div)
  have m: "unat (y * (fb_pitch fb div 4)) = unat y * ?s"
    using a b by (subst unat_mult_nowrap) (simp_all add: s)
  have p: "unat (y * (fb_pitch fb div 4) + x) = unat y * ?s + unat x"
    using a b by (subst unat_add_nowrap) (simp_all add: m)
  have q: "unat (4 * (y * (fb_pitch fb div 4) + x)) = 4 * (unat y * ?s + unat x)"
    using a b by (subst unat_mult_nowrap) (simp_all add: p)
  have "unat (fb_address fb) + unat (4 * (y * (fb_pitch fb div 4) + x)) < 2 ^ 64"
    using a b unfolding q by linarith
  then show ?thesis
    unfolding pixel_cell_def using unat_add_nowrap [of "fb_address fb" "4 * (y * (fb_pitch fb div 4) + x)"] q by simp
qed

lemma pixel_cell_inj:
  assumes "fb_ok fb" "x < fb_width fb" "y < fb_height fb" "x' < fb_width fb" "y' < fb_height fb"
    "pixel_cell fb x y = pixel_cell fb x' y'"
  shows "x = x' \<and> y = y'"
proof -
  let ?s = "fb_stride fb"
  have lt: "unat x < ?s" "unat x' < ?s" using assms(1,2,4) by (simp_all add: column_in_stride)
  have e: "unat y * ?s + unat x = unat y' * ?s + unat x'"
    using arg_cong [OF assms(6), of unat] unat_pixel_cell [OF assms(1-3)] unat_pixel_cell [OF assms(1,4,5)] by simp
  have "unat y = unat y'" using arg_cong [OF e, of "\<lambda>n. n div ?s"] lt by simp
  moreover from this e have "unat x = unat x'" by simp
  ultimately show ?thesis by (simp add: unat_eqI)
qed

text \<open>The bytes of the pixels.\<close>

definition pixel_bytes :: "framebuffer \<Rightarrow> ptr set" where
  "pixel_bytes fb = {a. \<exists>x y. x < fb_width fb \<and> y < fb_height fb \<and> a \<in> dword (pixel_cell fb x y)}"

lemma pixel_extent:
  assumes "fb_ok fb" "x < fb_width fb" "y < fb_height fb" "a \<in> dword (pixel_cell fb x y)"
  shows "unat (pixel_cell fb x y) \<le> unat a" "unat a < unat (pixel_cell fb x y) + 4"
    "unat (pixel_cell fb x y) + 4 \<le> unat (fb_address fb) + unat (fb_height fb) * unat (fb_pitch fb)"
proof -
  show e: "unat (pixel_cell fb x y) + 4 \<le> unat (fb_address fb) + unat (fb_height fb) * unat (fb_pitch fb)"
    using unat_pixel_cell [OF assms(1-3)] pixel_index_bound [OF assms(1-3)] by simp
  then have "unat (pixel_cell fb x y) + 4 \<le> 2 ^ 64" using assms(1) by (simp add: fb_ok_def)
  from dword_offset [OF this assms(4)] show "unat (pixel_cell fb x y) \<le> unat a" "unat a < unat (pixel_cell fb x y) + 4"
    by simp_all
qed

lemma pixel_bytes_extent:
  assumes "fb_ok fb" "a \<in> pixel_bytes fb"
  shows "unat (fb_address fb) \<le> unat a" "unat a < unat (fb_address fb) + unat (fb_height fb) * unat (fb_pitch fb)"
proof -
  obtain x y where xy: "x < fb_width fb" "y < fb_height fb" "a \<in> dword (pixel_cell fb x y)"
    using assms(2) by (auto simp: pixel_bytes_def)
  note p = pixel_extent [OF assms(1) xy]
  show "unat (fb_address fb) \<le> unat a" using p(1) unat_pixel_cell [OF assms(1) xy(1,2)] by simp
  show "unat a < unat (fb_address fb) + unat (fb_height fb) * unat (fb_pitch fb)" using p(2,3) by simp
qed

lemma pixel_apart:
  assumes "fb_ok fb" "x < fb_width fb" "y < fb_height fb" "x' < fb_width fb" "y' < fb_height fb"
    "a \<in> dword (pixel_cell fb x y)" "a \<in> dword (pixel_cell fb x' y')"
  shows "x = x' \<and> y = y'"
proof -
  let ?n = "unat y * fb_stride fb + unat x" and ?n' = "unat y' * fb_stride fb + unat x'"
  have e: "unat (pixel_cell fb x y) = unat (fb_address fb) + 4 * ?n" "unat (pixel_cell fb x' y') = unat (fb_address fb) + 4 * ?n'"
    using unat_pixel_cell [OF assms(1-3)] unat_pixel_cell [OF assms(1,4,5)] by simp_all
  have "4 * ?n < 4 * ?n' + 4" "4 * ?n' < 4 * ?n + 4"
    using pixel_extent(1,2) [OF assms(1-3,6)] pixel_extent(1,2) [OF assms(1,4,5,7)] e by linarith+
  moreover have "a = b" if "4 * a < 4 * b + 4" "4 * b < 4 * a + 4" for a b :: nat using that by arith
  ultimately have "?n = ?n'" by blast
  then have "pixel_cell fb x y = pixel_cell fb x' y'" using e by (intro unat_eqI) simp
  then show ?thesis using pixel_cell_inj [OF assms(1-5)] by blast
qed

section \<open>The picture\<close>

text \<open>The stores of the loops when none of them faults.\<close>

function paint_row :: "framebuffer \<Rightarrow> u64 \<Rightarrow> u64 \<Rightarrow> (ptr \<Rightarrow> u64) \<Rightarrow> ptr \<Rightarrow> u64" where
  "paint_row fb y x m =
     (if x < fb_width fb then paint_row fb y (x + 1) (store32 (pixel_cell fb x y) (pixel_color fb x y) m) else m)"
  by pat_completeness auto
termination
  by (relation "measure (\<lambda>(fb, y, x, m). unat (fb_width fb) - unat x)") (auto simp: unat_Suc_less word_less_nat_alt)

function paint_rows :: "framebuffer \<Rightarrow> u64 \<Rightarrow> (ptr \<Rightarrow> u64) \<Rightarrow> ptr \<Rightarrow> u64" where
  "paint_rows fb y m = (if y < fb_height fb then paint_rows fb (y + 1) (paint_row fb y 0 m) else m)"
  by pat_completeness auto
termination
  by (relation "measure (\<lambda>(fb, y, m). unat (fb_height fb) - unat y)") (auto simp: unat_Suc_less word_less_nat_alt)

declare paint_row.simps [simp del] paint_rows.simps [simp del]

lemma paint_row_miss:
  "(\<And>x'. x' < fb_width fb \<Longrightarrow> a \<notin> dword (pixel_cell fb x' y)) \<Longrightarrow> read8 (paint_row fb y x m) a = read8 m a"
proof (induction fb y x m rule: paint_row.induct)
  case (1 fb y x m)
  then show ?case
    by (cases "x < fb_width fb") (simp_all add: paint_row.simps [of fb y x m] read8_store32 del: insert_iff)
qed

lemma paint_rows_miss: "a \<notin> pixel_bytes fb \<Longrightarrow> read8 (paint_rows fb y m) a = read8 m a"
proof (induction fb y m rule: paint_rows.induct)
  case (1 fb y m)
  show ?case
  proof (cases "y < fb_height fb")
    case True
    have "a \<notin> dword (pixel_cell fb x' y)" if "x' < fb_width fb" for x' using 1(2) that True unfolding pixel_bytes_def by blast
    then show ?thesis using 1 True by (simp add: paint_rows.simps [of fb y m] paint_row_miss)
  qed (simp add: paint_rows.simps [of fb y m])
qed

text \<open>Whole cells that no pixel touches.\<close>

definition spares :: "framebuffer \<Rightarrow> (ptr \<Rightarrow> u64) \<Rightarrow> (ptr \<Rightarrow> u64) \<Rightarrow> bool" where
  "spares fb m m' \<longleftrightarrow> (\<forall>c. c \<notin> cell_of ` pixel_bytes fb \<longrightarrow> m' c = m c)"

lemma spares_store:
  assumes "spares fb m m'" "x < fb_width fb" "y < fb_height fb"
  shows "spares fb m (store32 (pixel_cell fb x y) v m')"
proof -
  have "a \<in> pixel_bytes fb" if "a \<in> dword (pixel_cell fb x y)" for a using that assms(2,3) unfolding pixel_bytes_def by blast
  then show ?thesis using assms(1) store32_other [of "pixel_cell fb x y" _ v m'] unfolding spares_def by (metis imageI)
qed

lemma spares_paint_row: "spares fb m m' \<Longrightarrow> y < fb_height fb \<Longrightarrow> spares fb m (paint_row fb y x m')"
proof (induction fb y x m' rule: paint_row.induct)
  case (1 fb y x m')
  then show ?case by (cases "x < fb_width fb") (simp_all add: paint_row.simps [of fb y x m'] spares_store)
qed

lemma spares_paint_rows: "spares fb m m' \<Longrightarrow> spares fb m (paint_rows fb y m')"
proof (induction fb y m' rule: paint_rows.induct)
  case (1 fb y m')
  then show ?case by (cases "y < fb_height fb") (simp_all add: paint_rows.simps [of fb y m'] spares_paint_row)
qed

lemma paint_row_hit:
  "\<lbrakk> fb_ok fb; y < fb_height fb; x' < fb_width fb; x \<le> x' \<or> load32 m (pixel_cell fb x' y) = pixel_color fb x' y \<rbrakk> \<Longrightarrow>
     load32 (paint_row fb y x m) (pixel_cell fb x' y) = pixel_color fb x' y"
proof (induction fb y x m rule: paint_row.induct)
  case (1 fb y x m)
  show ?case
  proof (cases "x < fb_width fb")
    case True
    let ?m = "store32 (pixel_cell fb x y) (pixel_color fb x y) m"
    have "x + 1 \<le> x' \<or> load32 ?m (pixel_cell fb x' y) = pixel_color fb x' y"
    proof (cases "x = x'")
      case False
      then have "a \<notin> dword (pixel_cell fb x y)" if "a \<in> dword (pixel_cell fb x' y)" for a
        using pixel_apart [OF "1.prems"(1) True "1.prems"(2,3,2) _ that] by blast
      then have "load32 ?m (pixel_cell fb x' y) = load32 m (pixel_cell fb x' y)"
        by (intro load32_cong read8_store32) blast
      moreover have "x + 1 \<le> x'" if "x \<le> x'"
        using that False word_le_step [OF True, of x'] by auto
      ultimately show ?thesis using "1.prems"(4) by auto
    qed (simp add: load32_store32)
    with 1 True show ?thesis by (simp add: paint_row.simps [of fb y x m])
  next
    case False
    then have "\<not> x \<le> x'" using "1.prems"(3) by auto
    with "1.prems"(4) False show ?thesis by (simp add: paint_row.simps [of fb y x m])
  qed
qed

lemma paint_rows_hit:
  "\<lbrakk> fb_ok fb; y' < fb_height fb; x' < fb_width fb; y \<le> y' \<or> load32 m (pixel_cell fb x' y') = pixel_color fb x' y' \<rbrakk> \<Longrightarrow>
     load32 (paint_rows fb y m) (pixel_cell fb x' y') = pixel_color fb x' y'"
proof (induction fb y m rule: paint_rows.induct)
  case (1 fb y m)
  show ?case
  proof (cases "y < fb_height fb")
    case True
    let ?m = "paint_row fb y 0 m"
    have "y + 1 \<le> y' \<or> load32 ?m (pixel_cell fb x' y') = pixel_color fb x' y'"
    proof (cases "y = y'")
      case True
      then show ?thesis using paint_row_hit [OF "1.prems"(1-3), of 0 m] by simp
    next
      case False
      have "a \<notin> dword (pixel_cell fb x y)" if "a \<in> dword (pixel_cell fb x' y')" "x < fb_width fb" for a x
        using pixel_apart [OF "1.prems"(1) that(2) True "1.prems"(3,2) _ that(1)] False by blast
      then have "load32 ?m (pixel_cell fb x' y') = load32 m (pixel_cell fb x' y')"
        by (intro load32_cong paint_row_miss) blast
      moreover have "y + 1 \<le> y'" if "y \<le> y'"
        using that False word_le_step [OF True, of y'] by auto
      ultimately show ?thesis using "1.prems"(4) by auto
    qed
    with 1 True show ?thesis by (simp add: paint_rows.simps [of fb y m])
  next
    case False
    then have "\<not> y \<le> y'" using "1.prems"(2) by auto
    with "1.prems"(4) False show ?thesis by (simp add: paint_rows.simps [of fb y m])
  qed
qed

section \<open>The loops\<close>

text \<open>No store of the loops faults.\<close>

definition drawable :: "((ptr \<Rightarrow> u64) \<Rightarrow> ptr \<Rightarrow> (u64 \<times> u64) option) \<Rightarrow> framebuffer \<Rightarrow> (ptr \<Rightarrow> u64) \<Rightarrow> bool" where
  "drawable fault fb m \<longleftrightarrow>
     (\<forall>x y m'. x < fb_width fb \<and> y < fb_height fb \<and> spares fb m m' \<longrightarrow> fault m' (pixel_cell fb x y) = None)"

lemma draw_row_paints:
  "drawable fault fb m \<Longrightarrow> spares fb m m' \<Longrightarrow> y < fb_height fb \<Longrightarrow> draw_row fault fb y x m' = Inr (paint_row fb y x m')"
proof (induction fb y x m' rule: paint_row.induct)
  case (1 fb y x m')
  then show ?case
    by (cases "x < fb_width fb")
      (simp_all add: draw_row.simps [of fault fb y x m'] paint_row.simps [of fb y x m'] drawable_def spares_store)
qed

lemma draw_rows_paints:
  "drawable fault fb m \<Longrightarrow> spares fb m m' \<Longrightarrow> draw_rows fault fb y m' = Inr (paint_rows fb y m')"
proof (induction fb y m' rule: paint_rows.induct)
  case (1 fb y m')
  then show ?case
    by (cases "y < fb_height fb")
      (simp_all add: draw_rows.simps [of fault fb y m'] paint_rows.simps [of fb y m'] draw_row_paints spares_paint_row)
qed

section \<open>The colours\<close>

lemma channel_value:
  assumes "(x :: u64) < w" "unat w < 2 ^ 56"
  shows "unat (ucast (x * 255 div w) :: u32) = unat x * 255 div unat w" "unat x * 255 div unat w < 255"
proof -
  have lt: "unat x < unat w" using assms(1) by (simp add: word_less_nat_alt)
  then show b: "unat x * 255 div unat w < 255" by (simp add: div_less_iff_less_mult)
  have "unat (x * 255) = unat x * 255" using lt assms(2) by (subst unat_mult_nowrap) simp_all
  with b show "unat (ucast (x * 255 div w) :: u32) = unat x * 255 div unat w"
    by (simp add: unsigned_ucast_eq unat_div take_bit_nat_eq_self)
qed

lemma color_channels:
  assumes "x < fb_width fb" "unat (fb_width fb) < 2 ^ 56" "y < fb_height fb" "unat (fb_height fb) < 2 ^ 56"
  shows "unat (take_bit 8 (pixel_color fb x y)) = unat x * 255 div unat (fb_width fb)"
    "unat (drop_bit 8 (pixel_color fb x y)) = unat y * 255 div unat (fb_height fb)"
proof -
  let ?x = "ucast (x * 255 div fb_width fb) :: u32" and ?y = "ucast (y * 255 div fb_height fb) :: u32"
  have lt: "unat ?x < 2 ^ 8" "unat ?y < 2 ^ 24"
    using channel_value [OF assms(1,2)] channel_value [OF assms(3,4)] by simp_all
  have "take_bit 8 (push_bit 8 ?y OR ?x) = take_bit 8 ?x" by (rule bit_word_eqI) (auto simp: bit_simps)
  then show "unat (take_bit 8 (pixel_color fb x y)) = unat x * 255 div unat (fb_width fb)"
    using take_bit_less_self [OF lt(1)] channel_value(1) [OF assms(1,2)] by (simp add: pixel_color_def)
  have z: "drop_bit 8 ?x = 0" using lt(1) unat_drop_bit [of 8 ?x] by (simp add: unat_eq_0 [symmetric])
  have "drop_bit 8 (push_bit 8 ?y) = take_bit 24 ?y" by (rule bit_word_eqI) (auto simp: bit_simps)
  then have "drop_bit 8 (push_bit 8 ?y OR ?x) = ?y" using take_bit_less_self [OF lt(2)] z by (simp add: drop_bit_or)
  then show "unat (drop_bit 8 (pixel_color fb x y)) = unat y * 255 div unat (fb_height fb)"
    using channel_value(1) [OF assms(3,4)] by (simp add: pixel_color_def)
qed

section \<open>Properties\<close>

text \<open>
  C30: for a framebuffer whose rows fit its pitch and that can be stored to (no pixel store faults, in
  any memory that the loops can have produced so far), the drawing loops give every pixel its
  gradient colour (blue from the column, green from the row, each below 255), change no other byte of
  memory, and stay inside the framebuffer's height times pitch bytes.
\<close>

theorem framebuffer_gradient:
  assumes "fb_ok fb" "unat (fb_width fb) < 2 ^ 56" "unat (fb_height fb) < 2 ^ 56" "drawable fault fb m"
  shows "\<exists>m'. draw_rows fault fb 0 m = Inr m' \<and>
    (\<forall>x y. x < fb_width fb \<and> y < fb_height fb \<longrightarrow>
       load32 m' (pixel_cell fb x y) = pixel_color fb x y \<and>
       unat (take_bit 8 (pixel_color fb x y)) = unat x * 255 div unat (fb_width fb) \<and>
       unat (drop_bit 8 (pixel_color fb x y)) = unat y * 255 div unat (fb_height fb) \<and>
       unat (fb_address fb) \<le> unat (pixel_cell fb x y) \<and>
       unat (pixel_cell fb x y) + 4 \<le> unat (fb_address fb) + unat (fb_height fb) * unat (fb_pitch fb)) \<and>
    (\<forall>a. (\<forall>x y. x < fb_width fb \<and> y < fb_height fb \<longrightarrow> a \<notin> dword (pixel_cell fb x y)) \<longrightarrow> read8 m' a = read8 m a)"
proof (intro exI [of _ "paint_rows fb 0 m"] conjI allI impI; (elim conjE)?)
  show "draw_rows fault fb 0 m = Inr (paint_rows fb 0 m)" by (rule draw_rows_paints [OF assms(4)]) (simp add: spares_def)
  fix x y
  assume xy: "x < fb_width fb" "y < fb_height fb"
  show "load32 (paint_rows fb 0 m) (pixel_cell fb x y) = pixel_color fb x y"
    using xy by (intro paint_rows_hit [OF assms(1)]) simp_all
  show "unat (take_bit 8 (pixel_color fb x y)) = unat x * 255 div unat (fb_width fb)"
    "unat (drop_bit 8 (pixel_color fb x y)) = unat y * 255 div unat (fb_height fb)"
    using color_channels [OF xy(1) assms(2) xy(2) assms(3)] by simp_all
  show "unat (fb_address fb) \<le> unat (pixel_cell fb x y)"
    "unat (pixel_cell fb x y) + 4 \<le> unat (fb_address fb) + unat (fb_height fb) * unat (fb_pitch fb)"
    using unat_pixel_cell [OF assms(1) xy] pixel_index_bound [OF assms(1) xy] by simp_all
next
  fix a
  assume "\<forall>x y. x < fb_width fb \<and> y < fb_height fb \<longrightarrow> a \<notin> dword (pixel_cell fb x y)"
  then show "read8 (paint_rows fb 0 m) a = read8 m a" by (intro paint_rows_miss) (simp add: pixel_bytes_def)
qed

theorem framebuffer_gradient_witness:
  "\<exists>m'. draw_rows (\<lambda>m p. None) \<lparr>fb_address = 0xFFFF8000E0000000, fb_width = 640, fb_height = 480, fb_pitch = 2560\<rparr> 0 (\<lambda>p. 0) = Inr m' \<and>
     load32 m' (0xFFFF8000E0000000 + 4 * (240 * 640 + 320)) = 0x7F7F"
proof -
  let ?fb = "\<lparr>fb_address = 0xFFFF8000E0000000, fb_width = 640, fb_height = 480, fb_pitch = 2560\<rparr> :: framebuffer"
  have "fb_ok ?fb" "unat (fb_width ?fb) < 2 ^ 56" "unat (fb_height ?fb) < 2 ^ 56" by (simp_all add: fb_ok_def)
  moreover have "drawable (\<lambda>m p. None) ?fb (\<lambda>p. 0)" by (simp add: drawable_def)
  ultimately obtain m' where "draw_rows (\<lambda>m p. None) ?fb 0 (\<lambda>p. 0) = Inr m'"
    "load32 m' (pixel_cell ?fb 320 240) = pixel_color ?fb 320 240"
    using framebuffer_gradient [of ?fb "\<lambda>m p. None" "\<lambda>p. 0"] by auto
  then show ?thesis by (simp add: pixel_cell_def pixel_color_def)
qed

end
