(* ===== verification/Vmm_Marks.thy ===== *)
theory Vmm_Marks
  imports Vmm_Range
begin

text \<open>
  What the processor itself writes into page tables: when it uses a present entry it sets the accessed
  bit, and the dirty bit of the entry that maps a page it stores to. Entries that differ in these two
  bits only are alike, and replacing entries by alike ones keeps a tree of tables well-formed
  (\<open>vm_wf_alike\<close>). The lemmas here show that it also keeps the abstract address space but for the bits.
\<close>

section \<open>Translations without marks\<close>

text \<open>The abstract address space without the two bits the processor sets.\<close>

definition unmarked :: "(u64 \<Rightarrow> (u64 \<times> PageFlags) option) \<Rightarrow> u64 \<Rightarrow> (u64 \<times> PageFlags) option" where
  "unmarked m v = map_option (apsnd clear_marks) (m v)"

lemma unmarked_le: "m \<subseteq>\<^sub>m n \<Longrightarrow> unmarked m \<subseteq>\<^sub>m unmarked n"
  by (auto simp: map_le_def unmarked_def dom_def)

lemma unmarkedD:
  assumes "unmarked m v = Some (p, f)"
  shows "\<exists>g. m v = Some (p, g) \<and> f = clear_marks g \<and> (\<forall>n. n \<noteq> 5 \<longrightarrow> n \<noteq> 6 \<longrightarrow> bit g n = bit f n)"
  using assms by (auto simp: unmarked_def bit_clear_marks)

lemma unmarked_space_map:
  "unmarked (space_map s root) v =
     (if is_canonical v then map_option (apsnd clear_marks \<circ> leaf_target v) (map_option clear_leaf (leaf s root (indices v))) else None)"
proof -
  have "page_entry_address (clear_marks e) = page_entry_address e" "clear_marks (page_entry_flags (clear_marks e)) = clear_marks (page_entry_flags e)" for e
    by (rule bit_word_eqI; auto simp: bit_page_entry_address bit_clear_marks page_entry_flags_def bit_simps)+
  then have "apsnd clear_marks (leaf_target v (clear_leaf l)) = apsnd clear_marks (leaf_target v l)" for l
    by (simp add: leaf_target_def clear_leaf_def)
  then show ?thesis by (simp add: unmarked_def space_map_def option.map_comp comp_def)
qed

lemma alike_space:
  assumes "vm_wf s root" "pool_ok t"
    and same: "\<And>P. P \<in> tree_tables s root \<Longrightarrow> table_ok t P \<and> (\<forall>j<512. alike (table_entry s P j) (table_entry t P j))"
  shows "vm_wf t root" "tree_tables t root = tree_tables s root" "unmarked (space_map t root) = unmarked (space_map s root)"
proof -
  have e: "table_ok t Q \<and> (\<forall>j<512. alike (table_entry s Q j) (table_entry t Q j))" if "path_ok xs" "walk s root xs = Some Q" for xs Q
    by (rule same [OF tree_tablesI [OF that]])
  show "vm_wf t root" by (rule vm_wf_alike(1) [OF assms(1,2)]) (rule e)
  have "walk t root zs = walk s root zs" if "path_ok zs" for zs by (rule vm_wf_alike(2) [OF assms(1,2) _ that]) (rule e)
  then show "tree_tables t root = tree_tables s root" by (auto simp: tree_tables_def)
  have "map_option clear_leaf (leaf t root (indices v)) = map_option clear_leaf (leaf s root (indices v))" for v
    by (rule vm_wf_alike(3) [OF assms(1,2)]) (rule e, assumption+, simp)
  then show "unmarked (space_map t root) = unmarked (space_map s root)" by (simp add: fun_eq_iff unmarked_space_map)
qed

section \<open>One mark\<close>

text \<open>The values the processor merges into an entry it uses.\<close>

definition mark_ok :: "u64 \<Rightarrow> bool" where
  "mark_ok x \<longleftrightarrow> x AND NOT (PF_Accessed OR PF_Dirty) = 0"

definition mark_entry :: "u64 \<Rightarrow> u16 \<Rightarrow> u64 \<Rightarrow> machine \<Rightarrow> machine" where
  "mark_entry P i x s = set_entry P i (table_entry s P i OR x) s"

lemma mark_entry_alike:
  assumes "page_aligned P" "page_aligned Q" "i < 512" "j < 512" "present (table_entry s P i)" "mark_ok x"
  shows "alike (table_entry s Q j) (table_entry (mark_entry P i x s) Q j)"
  using assms by (auto simp: mark_entry_def table_entry_set mark_ok_def intro: alike_marked)

end
