(* ===== verification/Vmm_Steps.thy ===== *)
theory Vmm_Steps
  imports Vmm_Marks
begin

text \<open>
  The memory managers in use: a step relation whose steps are the calls of \<open>src/src/mm/pmm.hpp\<close> and
  \<open>src/src/mm/vmm.hpp\<close>, the stores of the code that holds frames and the marks the processor leaves in
  page-table entries it uses, over a state with any number of address spaces. The invariant \<open>vm_inv\<close> says that the address spaces are well-formed and that no two
  of them, and no held frame, share a table. Rule induction over runs then shows that mappings are
  never lost or changed, that address spaces do not influence each other, and that a held frame is
  private to its holder.
\<close>

section \<open>Steps\<close>

record vm_state =
  spaces :: "u64 set"
  held :: "u64 set"
  mch :: machine

datatype vm_op =
    Alloc
  | Free u64
  | Create
  | Map u64 u64 u64 PageFlags
  | MapLarge u64 u64 u64 PageFlags
  | MapRange u64 u64 u64 u64 PageFlags
  | MapRangeLarge u64 u64 u64 u64 PageFlags
  | Write ptr u64
  | Mark u64 u16 u64

text \<open>
  One call, whatever state it is made in. A caller of \<open>alloc_frame\<close> takes 0 for exhaustion. The
  processor may at any time set the accessed and dirty bits of a present entry of any table of an
  address space.
\<close>

inductive vm_step :: "vm_state \<Rightarrow> vm_op \<Rightarrow> vm_state \<Rightarrow> bool" where
  alloc_step: "alloc_frame (mch v) = (a, t) \<Longrightarrow>
    vm_step v Alloc (v\<lparr>held := (if a = 0 then held v else insert a (held v)), mch := t\<rparr>)"
| free_step: "vm_step v (Free a) (v\<lparr>held := held v - {a}, mch := free_frame a (mch v)\<rparr>)"
| create_step: "create_address_space out (mch v) = (ok, space, t) \<Longrightarrow>
    vm_step v Create (v\<lparr>spaces := insert (pml4_physical space) (spaces v), mch := t\<rparr>)"
| map_step: "map_page (physical_to_virtual (mch v) r) virt phys flags (mch v) = (ok, t) \<Longrightarrow>
    vm_step v (Map r virt phys flags) (v\<lparr>mch := t\<rparr>)"
| map_large_step: "map_page_large (physical_to_virtual (mch v) r) virt phys flags (mch v) = (ok, t) \<Longrightarrow>
    vm_step v (MapLarge r virt phys flags) (v\<lparr>mch := t\<rparr>)"
| map_range_step: "pml4 space = physical_to_virtual (mch v) r \<Longrightarrow>
    map_range space virt phys size_bytes flags (mch v) = Some (ok, t) \<Longrightarrow>
    vm_step v (MapRange r virt phys size_bytes flags) (v\<lparr>mch := t\<rparr>)"
| map_range_large_step: "pml4 space = physical_to_virtual (mch v) r \<Longrightarrow>
    map_range_large space virt phys size_bytes flags (mch v) = Some (ok, t) \<Longrightarrow>
    vm_step v (MapRangeLarge r virt phys size_bytes flags) (v\<lparr>mch := t\<rparr>)"
| write_step: "vm_step v (Write p x) (v\<lparr>mch := store p x (mch v)\<rparr>)"
| mark_step: "r \<in> spaces v \<Longrightarrow> P \<in> tree_tables (mch v) r \<Longrightarrow> i < 512 \<Longrightarrow> present (table_entry (mch v) P i) \<Longrightarrow> mark_ok x \<Longrightarrow>
    vm_step v (Mark P i x) (v\<lparr>mch := mark_entry P i x (mch v)\<rparr>)"

text \<open>
  The calls the properties are about. The code checks none of this; each condition is necessary for
  them. A frame budget: \<open>create_address_space\<close> is called with a free frame, \<open>map_page\<close> and
  \<open>map_page_large\<close> with as many free frames as the path lacks tables, and the range mappers with 3 free
  frames per 4 KiB page and 2 per 2 MiB page; with fewer frames they take frame 0 for a table
  (\<open>Vmm_Exhaustion\<close>). And a discipline: mappings are made in address spaces that exist, and only a
  held frame is released or written to.
\<close>

fun frames_suffice :: "machine \<Rightarrow> vm_op \<Rightarrow> bool" where
  "frames_suffice s Create \<longleftrightarrow> free_frames s \<noteq> {}"
| "frames_suffice s (Map r virt phys flags) \<longleftrightarrow> missing s r (indices virt) \<le> card (free_frames s)"
| "frames_suffice s (MapLarge r virt phys flags) \<longleftrightarrow> missing s r (large_indices virt) \<le> card (free_frames s)"
| "frames_suffice s (MapRange r virt phys size_bytes flags) \<longleftrightarrow> unat size_bytes div 4096 * 3 \<le> card (free_frames s)"
| "frames_suffice s (MapRangeLarge r virt phys size_bytes flags) \<longleftrightarrow> unat size_bytes div 2 ^ 21 * 2 \<le> card (free_frames s)"
| "frames_suffice s op \<longleftrightarrow> True"

fun disciplined :: "vm_state \<Rightarrow> vm_op \<Rightarrow> bool" where
  "disciplined v (Free a) \<longleftrightarrow> a \<in> held v"
| "disciplined v (Map r virt phys flags) \<longleftrightarrow> r \<in> spaces v"
| "disciplined v (MapLarge r virt phys flags) \<longleftrightarrow> r \<in> spaces v"
| "disciplined v (MapRange r virt phys size_bytes flags) \<longleftrightarrow> r \<in> spaces v"
| "disciplined v (MapRangeLarge r virt phys size_bytes flags) \<longleftrightarrow> r \<in> spaces v"
| "disciplined v (Write p x) \<longleftrightarrow> (\<exists>a \<in> held v. p \<in> table_cells (physical_to_virtual (mch v) a))"
| "disciplined v op \<longleftrightarrow> True"

definition allowed :: "vm_state \<Rightarrow> vm_op \<Rightarrow> bool" where
  "allowed v op \<longleftrightarrow> frames_suffice (mch v) op \<and> disciplined v op"

text \<open>A sequence of such calls.\<close>

inductive vm_steps :: "vm_state \<Rightarrow> vm_op list \<Rightarrow> vm_state \<Rightarrow> bool" where
  steps_nil: "vm_steps v [] v"
| steps_cons: "allowed v op \<Longrightarrow> vm_step v op w \<Longrightarrow> vm_steps w ops x \<Longrightarrow> vm_steps v (op # ops) x"

text \<open>The frames that are free, held or a page table.\<close>

definition frames_of :: "vm_state \<Rightarrow> u64 set" where
  "frames_of v = free_tables (mch v) \<union> held v \<union> (\<Union>r \<in> spaces v. tree_tables (mch v) r)"

definition vm_inv :: "vm_state \<Rightarrow> bool" where
  "vm_inv v \<longleftrightarrow> pool_ok (mch v) \<and> (\<forall>r \<in> spaces v. vm_wf (mch v) r) \<and>
     (\<forall>r \<in> spaces v. \<forall>r' \<in> spaces v. r \<noteq> r' \<longrightarrow> tree_tables (mch v) r \<inter> tree_tables (mch v) r' = {}) \<and>
     (\<forall>a \<in> held v. table_ok (mch v) a \<and> (\<forall>r \<in> spaces v. a \<notin> tree_tables (mch v) r))"

section \<open>Frames that a change spares\<close>

text \<open>The frame at \<open>P\<close> stays allocated, apart from the bitmap, and keeps its contents.\<close>

definition keeps :: "machine \<Rightarrow> machine \<Rightarrow> u64 \<Rightarrow> bool" where
  "keeps s t P \<longleftrightarrow> table_ok t P \<and> (\<forall>p \<in> table_cells (physical_to_virtual s P). mem t p = mem s p)"

lemma keeps_space:
  assumes "vm_wf s r" "pool_ok t" "g_hhdm_offset t = g_hhdm_offset s" "\<And>P. P \<in> tree_tables s r \<Longrightarrow> keeps s t P"
  shows "vm_wf t r" "tree_tables t r = tree_tables s r" "space_map t r = space_map s r"
proof -
  have same: "table_ok t Q \<and> (\<forall>j<512. table_entry t Q j = table_entry s Q j)" if "path_ok xs" "walk s r xs = Some Q" for xs Q
  proof -
    have k: "keeps s t Q" by (rule assms(4) [OF tree_tablesI [OF that]])
    then have "table_entry t Q j = table_entry s Q j" if "j < 512" for j
      using entry_cell_in_table [OF that] assms(3) by (simp add: keeps_def table_entry_def physical_to_virtual_def)
    with k show ?thesis by (simp add: keeps_def)
  qed
  show "vm_wf t r" by (rule vm_wf_agree(1) [OF assms(1,2)]) (rule same)
  have w: "walk t r zs = walk s r zs" if "path_ok zs" for zs by (rule vm_wf_agree(2) [OF assms(1,2) _ that]) (rule same)
  have l: "leaf t r ys = leaf s r ys" if "full_path ys" for ys by (rule vm_wf_agree(3) [OF assms(1,2) _ that]) (rule same)
  show "tree_tables t r = tree_tables s r" using w by (auto simp: tree_tables_def)
  show "space_map t r = space_map s r" using l by (intro same_leaves_space_map) (simp add: same_leaves_def)
qed

lemma take_frame_keeps:
  assumes "pool_ok s" "f \<in> free_frames s"
  shows "pool_ok (take_frame f s)" "table_ok (take_frame f s) (f * kPageSize)"
    "table_ok s P \<Longrightarrow> keeps s (take_frame f s) P \<and> P \<noteq> f * kPageSize"
proof -
  have v: "frame_valid s f" using assms(2) by (simp add: free_frames_def)
  have ptv: "physical_to_virtual (take_frame f s) a = physical_to_virtual s a" for a by (simp add: physical_to_virtual_def)
  show "pool_ok (take_frame f s)" using assms pmm_wf_take_frame by (simp add: pool_ok_def ptv)
  have "table_cells (physical_to_virtual s (f * kPageSize)) \<inter> bitmap_cells s = {}" using assms by (simp add: pool_ok_def)
  then show "table_ok (take_frame f s) (f * kPageSize)" using v by (auto simp: table_ok_def ptv frame_used_take)
  assume P: "table_ok s P"
  then have "table_ok (take_frame f s) P" by (auto simp: table_ok_def ptv frame_used_take)
  moreover have "mem (take_frame f s) p = mem s p" if "p \<in> table_cells (physical_to_virtual s P)" for p
    using P that by (intro mem_take_frame_other pool_ok_shape assms(1)) (auto simp: table_ok_def)
  ultimately show "keeps s (take_frame f s) P \<and> P \<noteq> f * kPageSize"
    using table_not_free [OF assms(1), of f] P assms(2) by (auto simp: keeps_def)
qed

lemma mem_return_frame_other: "bitmap_shape s \<Longrightarrow> p \<notin> bitmap_cells s \<Longrightarrow> mem (return_frame f s) p = mem s p"
  by (simp add: return_frame_def mem_set_frame_other)

lemma free_frame_keeps:
  assumes "pool_ok s" "table_ok s a"
  shows "pool_ok (free_frame a s)" "table_ok s P \<Longrightarrow> P \<noteq> a \<Longrightarrow> keeps s (free_frame a s) P"
proof -
  obtain f where f: "a = f * kPageSize" "frame_valid s f" "frame_used s f" using assms(2) by (rule table_okE)
  have dis: "table_cells (physical_to_virtual s a) \<inter> bitmap_cells s = {}" using assms(2) by (simp add: table_ok_def)
  have e: "free_frame a s = return_frame f s"
    using frame_address [OF pool_ok_shape [OF assms(1)] f(2)] f by (simp add: free_frame_cases)
  have ptv: "physical_to_virtual (return_frame f s) b = physical_to_virtual s b" for b by (simp add: physical_to_virtual_def)
  have nf: "f \<notin> free_frames s" using f(3) by (simp add: free_frames_def)
  show "pool_ok (free_frame a s)"
    unfolding e using assms(1) pmm_wf_return_frame [OF _ nf f(2)] dis f(1,2) by (auto simp: pool_ok_def ptv)
  assume P: "table_ok s P" "P \<noteq> a"
  obtain g where g: "P = g * kPageSize" "frame_valid s g" "frame_used s g" using P(1) by (rule table_okE)
  then have "frame_used (return_frame f s) g" using P(2) f(1) by (auto simp: return_frame_def frame_used_set_free)
  then have "table_ok (return_frame f s) P" using g P(1) by (auto simp: table_ok_def ptv)
  moreover have "mem (return_frame f s) p = mem s p" if "p \<in> table_cells (physical_to_virtual s P)" for p
    using P(1) that by (intro mem_return_frame_other pool_ok_shape assms(1)) (auto simp: table_ok_def)
  ultimately show "keeps s (free_frame a s) P" by (simp add: e keeps_def)
qed

lemma store_keeps:
  assumes "pool_ok s" "table_ok s a" "p \<in> table_cells (physical_to_virtual s a)"
  shows "pool_ok (store p x s)" "table_ok (store p x s) a" "table_ok s P \<Longrightarrow> P \<noteq> a \<Longrightarrow> keeps s (store p x s) P"
    "free_frames (store p x s) = free_frames s"
proof -
  have sp: "same_pool (store p x s) s" using assms(2,3) by (auto simp: same_pool_def table_ok_def)
  show "pool_ok (store p x s)" by (rule same_pool_ok [OF assms(1) sp])
  show "free_frames (store p x s) = free_frames s" using same_pool_frames [OF sp pool_ok_shape [OF assms(1)]] by simp
  show "table_ok (store p x s) a" by (rule same_pool_table_ok [OF assms(1) sp assms(2)])
  assume P: "table_ok s P" "P \<noteq> a"
  then have "p \<notin> table_cells (physical_to_virtual s P)"
    using table_cells_disjoint [OF table_ok_props(1) [OF assms(1) P(1)] table_ok_props(1) [OF assms(1,2)] P(2)] assms(3) by blast
  then show "keeps s (store p x s) P" using same_pool_table_ok [OF assms(1) sp P(1)] by (auto simp: keeps_def)
qed

lemma extends_keeps:
  assumes "pool_ok s" "extends s t r n" "table_ok s P" "P \<notin> tree_tables s r"
    "\<And>Q. Q \<in> tree_tables s r \<Longrightarrow> page_aligned Q"
  shows "keeps s t P" "P \<notin> tree_tables t r"
proof -
  obtain f where f: "P = f * kPageSize" "frame_valid s f" "frame_used s f" using assms(3) by (rule table_okE)
  have same: "bitmap t = bitmap s" "bitmap_words t = bitmap_words s" "frame_count t = frame_count s"
    "g_hhdm_offset t = g_hhdm_offset s" "free_frames t \<subseteq> free_frames s" "pool_ok t"
    using assms(2) vm_wfD(1) by (auto simp: extends_def)
  have "f \<notin> free_frames s" by (rule table_not_free [OF assms(1)]) (use assms(3) f(1) in simp)
  then have "f \<notin> free_frames t" "frame_valid t f" using same f(2) by (auto simp: frame_valid_def)
  then have "frame_used t f" by (simp add: free_frames_def)
  then have ok: "table_ok t P"
    using f assms(3) same \<open>frame_valid t f\<close> by (auto simp: table_ok_def bitmap_cells_def physical_to_virtual_def)
  have nfree: "P \<notin> free_tables s"
  proof
    assume "P \<in> free_tables s"
    then obtain g where "P = g * kPageSize" "g \<in> free_frames s" by (auto simp: free_tables_def)
    then show False using table_not_free [OF assms(1), of g] assms(3) by simp
  qed
  have al: "page_aligned Q" if "Q \<in> tree_tables s r \<union> free_tables s" for Q
    using that assms(5) valid_frame_address(2) [OF assms(1)] by (auto simp: free_tables_def free_frames_def)
  have "mem t p = mem s p" if p: "p \<in> table_cells (physical_to_virtual s P)" for p
  proof -
    have "p \<notin> table_cells (physical_to_virtual s Q)" if Q: "Q \<in> tree_tables s r \<union> free_tables s" for Q
      using table_cells_disjoint [OF table_ok_props(1) [OF assms(1,3)] al [OF Q]] p Q assms(4) nfree by blast
    moreover have "p \<notin> bitmap_cells s" using p assms(3) by (auto simp: table_ok_def)
    ultimately show ?thesis using assms(2) unfolding extends_def by blast
  qed
  with ok show "keeps s t P" by (simp add: keeps_def)
  show "P \<notin> tree_tables t r" using assms(2,4) nfree unfolding extends_def tree_tables_def by blast
qed

lemma create_keeps:
  assumes "pool_ok s" "free_frames s \<noteq> {}" "table_ok s P"
  shows "keeps s (after_alloc s) P" "P \<noteq> fresh_table s"
proof -
  note e = after_alloc_effect [OF assms(1,2)]
  have ne: "P \<noteq> fresh_table s" "table_ok (after_alloc s) P" using e(6) [OF assms(3)] by blast+
  have "page_aligned (fresh_table s)" using table_ok_props(1) [OF e(2,3)] .
  then have "table_cells (physical_to_virtual s P) \<inter> table_cells (physical_to_virtual s (fresh_table s)) = {}"
    using table_cells_disjoint [OF table_ok_props(1) [OF assms(1,3)]] ne(1) by blast
  then have "mem (after_alloc s) p = mem s p" if "p \<in> table_cells (physical_to_virtual s P)" for p
    using that assms(3) by (intro e(5)) (auto simp: table_ok_def)
  with ne show "keeps s (after_alloc s) P" "P \<noteq> fresh_table s" by (simp_all add: keeps_def)
qed

section \<open>The invariant\<close>

lemma vm_invD:
  assumes "vm_inv v"
  shows "pool_ok (mch v)" "r \<in> spaces v \<Longrightarrow> vm_wf (mch v) r"
    "r \<in> spaces v \<Longrightarrow> P \<in> tree_tables (mch v) r \<Longrightarrow> table_ok (mch v) P \<and> page_aligned P"
    "r \<in> spaces v \<Longrightarrow> r' \<in> spaces v \<Longrightarrow> P \<in> tree_tables (mch v) r \<Longrightarrow> P \<in> tree_tables (mch v) r' \<Longrightarrow> r = r'"
    "a \<in> held v \<Longrightarrow> table_ok (mch v) a" "a \<in> held v \<Longrightarrow> r \<in> spaces v \<Longrightarrow> a \<notin> tree_tables (mch v) r"
proof -
  show ok: "pool_ok (mch v)" "r \<in> spaces v \<Longrightarrow> vm_wf (mch v) r" "a \<in> held v \<Longrightarrow> table_ok (mch v) a"
    "a \<in> held v \<Longrightarrow> r \<in> spaces v \<Longrightarrow> a \<notin> tree_tables (mch v) r"
    "r \<in> spaces v \<Longrightarrow> r' \<in> spaces v \<Longrightarrow> P \<in> tree_tables (mch v) r \<Longrightarrow> P \<in> tree_tables (mch v) r' \<Longrightarrow> r = r'"
    using assms unfolding vm_inv_def by blast+
  assume r: "r \<in> spaces v" "P \<in> tree_tables (mch v) r"
  then have "table_ok (mch v) P" using vm_wfD(2) [OF ok(2)] by (auto simp: tree_tables_def)
  then show "table_ok (mch v) P \<and> page_aligned P" using table_ok_props(1) [OF ok(1)] by blast
qed

text \<open>Changes outside all page tables.\<close>

lemma vm_inv_spared:
  assumes "vm_inv v" "pool_ok t" "g_hhdm_offset t = g_hhdm_offset (mch v)"
    "\<And>r P. r \<in> spaces v \<Longrightarrow> P \<in> tree_tables (mch v) r \<Longrightarrow> keeps (mch v) t P"
    "\<And>a. a \<in> H \<Longrightarrow> table_ok t a \<and> (\<forall>r \<in> spaces v. a \<notin> tree_tables (mch v) r)"
  shows "vm_inv (v\<lparr>held := H, mch := t\<rparr>)" "r \<in> spaces v \<Longrightarrow> space_map t r = space_map (mch v) r"
    "r \<in> spaces v \<Longrightarrow> tree_tables t r = tree_tables (mch v) r"
proof -
  have k: "vm_wf t r" "tree_tables t r = tree_tables (mch v) r" "space_map t r = space_map (mch v) r" if "r \<in> spaces v" for r
    using keeps_space [OF vm_invD(2) [OF assms(1) that] assms(2,3)] assms(4) that by blast+
  show "vm_inv (v\<lparr>held := H, mch := t\<rparr>)"
    using assms(1,2,5) k by (simp add: vm_inv_def)
  show "r \<in> spaces v \<Longrightarrow> space_map t r = space_map (mch v) r" "r \<in> spaces v \<Longrightarrow> tree_tables t r = tree_tables (mch v) r"
    by (rule k, assumption)+
qed

text \<open>Growth of the tree under one root.\<close>

lemma vm_inv_extends:
  assumes "vm_inv v" "r \<in> spaces v" "extends (mch v) t r n"
  shows "vm_inv (v\<lparr>mch := t\<rparr>)" "r' \<in> spaces v \<Longrightarrow> r' \<noteq> r \<Longrightarrow> space_map t r' = space_map (mch v) r'"
    "a \<in> held v \<Longrightarrow> keeps (mch v) t a" "frames_of (v\<lparr>mch := t\<rparr>) \<subseteq> frames_of v"
proof -
  have t: "vm_wf t r" "pool_ok t" "g_hhdm_offset t = g_hhdm_offset (mch v)"
    using assms(3) vm_wfD(1) by (auto simp: extends_def)
  have al: "page_aligned Q" if "Q \<in> tree_tables (mch v) r" for Q using vm_invD(3) [OF assms(1,2) that] by blast
  have x: "keeps (mch v) t P" "P \<notin> tree_tables t r" if "table_ok (mch v) P" "P \<notin> tree_tables (mch v) r" for P
    by (rule extends_keeps [OF vm_invD(1) [OF assms(1)] assms(3) that al], assumption)+
  have other: "P \<notin> tree_tables (mch v) r" "table_ok (mch v) P"
    if "r' \<in> spaces v" "r' \<noteq> r" "P \<in> tree_tables (mch v) r'" for r' P
    using vm_invD(3,4) [OF assms(1)] assms(2) that by blast+
  have k: "vm_wf t r'" "tree_tables t r' = tree_tables (mch v) r'" "space_map t r' = space_map (mch v) r'"
    if r': "r' \<in> spaces v" "r' \<noteq> r" for r'
    using keeps_space [OF vm_invD(2) [OF assms(1) r'(1)] t(2,3)] x(1) other [OF r'] by blast+
  show "space_map t r' = space_map (mch v) r'" if "r' \<in> spaces v" "r' \<noteq> r" by (rule k(3) [OF that])
  have f: "free_tables t \<subseteq> free_tables (mch v)" "tree_tables t r \<subseteq> tree_tables (mch v) r \<union> free_tables (mch v)"
    using assms(3) by (auto simp: extends_def free_tables_def tree_tables_def)
  have "tree_tables t r' \<subseteq> frames_of v" if "r' \<in> spaces v" for r'
    using that f(2) k(2) [OF that] assms(2) by (cases "r' = r") (auto simp: frames_of_def)
  then show "frames_of (v\<lparr>mch := t\<rparr>) \<subseteq> frames_of v" using f(1) by (auto simp: frames_of_def)
  show held: "keeps (mch v) t a" if "a \<in> held v" for a using x(1) vm_invD(5,6) [OF assms(1)] that assms(2) by blast
  have d: "tree_tables t r \<inter> tree_tables t r' = {}" if "r' \<in> spaces v" "r' \<noteq> r" for r'
    unfolding k(2) [OF that] using x(2) other [OF that] by blast
  have "tree_tables t r1 \<inter> tree_tables t r2 = {}" if r12: "r1 \<in> spaces v" "r2 \<in> spaces v" "r1 \<noteq> r2" for r1 r2
  proof -
    consider "r1 = r" | "r2 = r" | "r1 \<noteq> r" "r2 \<noteq> r" by blast
    then show ?thesis
    proof cases
      case 3
      then show ?thesis using k(2) [OF r12(1)] k(2) [OF r12(2)] vm_invD(4) [OF assms(1) r12(1,2)] r12(3) by blast
    qed (use d [of r1] d [of r2] r12 in \<open>auto simp: Int_commute\<close>)
  qed
  moreover have "a \<notin> tree_tables t r'" if "a \<in> held v" "r' \<in> spaces v" for a r'
    using that k(2) x(2) vm_invD(5,6) [OF assms(1)] assms(2) by (cases "r' = r") auto
  moreover have "vm_wf t r'" if "r' \<in> spaces v" for r' using that k(1) t(1) by (cases "r' = r") auto
  ultimately show "vm_inv (v\<lparr>mch := t\<rparr>)" using t(2) held by (simp add: vm_inv_def keeps_def)
qed

section \<open>What one step changes\<close>

fun maps_in :: "u64 \<Rightarrow> vm_op \<Rightarrow> bool" where
  "maps_in r (Map r' _ _ _) \<longleftrightarrow> r' = r"
| "maps_in r (MapLarge r' _ _ _) \<longleftrightarrow> r' = r"
| "maps_in r (MapRange r' _ _ _ _) \<longleftrightarrow> r' = r"
| "maps_in r (MapRangeLarge r' _ _ _ _) \<longleftrightarrow> r' = r"
| "maps_in r _ \<longleftrightarrow> False"

fun writes_to :: "ptr \<Rightarrow> vm_op \<Rightarrow> bool" where
  "writes_to p (Write q _) \<longleftrightarrow> q = p"
| "writes_to p _ \<longleftrightarrow> False"

text \<open>
  Every address space keeps its mappings, up to marks, exactly them unless it is the one the step maps in, and a
  held frame that is not released stays held with its contents, but for the cell the step writes.
\<close>

definition step_effect :: "vm_state \<Rightarrow> vm_op \<Rightarrow> vm_state \<Rightarrow> bool" where
  "step_effect v op w \<longleftrightarrow> vm_inv w \<and> spaces v \<subseteq> spaces w \<and> g_hhdm_offset (mch w) = g_hhdm_offset (mch v) \<and>
     frame_count (mch w) = frame_count (mch v) \<and> frames_of w \<subseteq> frames_of v \<and>
     (\<forall>r \<in> spaces v. unmarked (space_map (mch v) r) \<subseteq>\<^sub>m unmarked (space_map (mch w) r) \<and>
        (\<not> maps_in r op \<longrightarrow> unmarked (space_map (mch w) r) = unmarked (space_map (mch v) r))) \<and>
     (\<forall>a \<in> held v. op \<noteq> Free a \<longrightarrow> a \<in> held w \<and>
        (\<forall>p \<in> table_cells (physical_to_virtual (mch v) a). \<not> writes_to p op \<longrightarrow> mem (mch w) p = mem (mch v) p))"

lemma spared_effect:
  assumes "vm_inv v" "pool_ok t" "g_hhdm_offset t = g_hhdm_offset (mch v)" "frame_count t = frame_count (mch v)"
    "\<And>r P. r \<in> spaces v \<Longrightarrow> P \<in> tree_tables (mch v) r \<Longrightarrow> keeps (mch v) t P"
    "\<And>a. a \<in> H \<Longrightarrow> table_ok t a \<and> (\<forall>r \<in> spaces v. a \<notin> tree_tables (mch v) r)"
    "\<And>a. a \<in> held v \<Longrightarrow> op \<noteq> Free a \<Longrightarrow> a \<in> H \<and>
       (\<forall>p \<in> table_cells (physical_to_virtual (mch v) a). \<not> writes_to p op \<longrightarrow> mem t p = mem (mch v) p)"
    "free_tables t \<union> H \<subseteq> free_tables (mch v) \<union> held v"
  shows "step_effect v op (v\<lparr>held := H, mch := t\<rparr>)"
proof -
  have i: "vm_inv (v\<lparr>held := H, mch := t\<rparr>)" "r \<in> spaces v \<Longrightarrow> space_map t r = space_map (mch v) r"
    "r \<in> spaces v \<Longrightarrow> tree_tables t r = tree_tables (mch v) r" for r
    using vm_inv_spared [OF assms(1-3), of H] assms(5,6) by blast+
  have "frames_of (v\<lparr>held := H, mch := t\<rparr>) \<subseteq> frames_of v"
    using assms(8) i(3) assms(6) by (auto simp: frames_of_def)
  then show ?thesis using i assms(3-7) by (simp add: step_effect_def)
qed

lemma alloc_effect:
  assumes "vm_inv v" "alloc_frame (mch v) = (a, t)"
  shows "step_effect v Alloc (v\<lparr>held := (if a = 0 then held v else insert a (held v)), mch := t\<rparr>)"
proof (cases "free_frames (mch v) = {}")
  case True
  then have "a = 0" "t = mch v"
    using assms(2) alloc_frame_spec [OF pool_ok_shape [OF vm_invD(1) [OF assms(1)]]] by simp_all
  then show ?thesis using assms(1) by (simp add: step_effect_def)
next
  case False
  let ?s = "mch v" and ?f = "Min (free_frames (mch v))"
  note inv = vm_invD [OF assms(1)]
  have a: "a = ?f * kPageSize" "t = take_frame ?f ?s"
    using assms(2) False alloc_frame_spec [OF pool_ok_shape [OF inv(1)]] by simp_all
  note k = take_frame_keeps [OF inv(1) Min_in [OF finite_free_frames False], folded a]
  show ?thesis
  proof (rule spared_effect [OF assms(1) k(1)])
    show "g_hhdm_offset t = g_hhdm_offset ?s" "frame_count t = frame_count ?s" by (simp_all add: a(2))
    show "keeps ?s t P" if "r \<in> spaces v" "P \<in> tree_tables ?s r" for r P using k(3) inv(3) that by blast
    show "table_ok t b \<and> (\<forall>r \<in> spaces v. b \<notin> tree_tables ?s r)"
      if "b \<in> (if a = 0 then held v else insert a (held v))" for b
      using that k(2,3) inv(3,5,6) by (auto simp: keeps_def split: if_splits)
    show "b \<in> (if a = 0 then held v else insert a (held v)) \<and>
        (\<forall>p \<in> table_cells (physical_to_virtual ?s b). \<not> writes_to p Alloc \<longrightarrow> mem t p = mem ?s p)" if "b \<in> held v" for b
      using that k(3) [OF inv(5) [OF that]] by (simp add: keeps_def)
    show "free_tables t \<union> (if a = 0 then held v else insert a (held v)) \<subseteq> free_tables ?s \<union> held v"
      using Min_in [OF finite_free_frames False] by (auto simp: free_tables_def a)
  qed
qed

lemma free_effect:
  assumes "vm_inv v" "a \<in> held v"
  shows "step_effect v (Free a) (v\<lparr>held := held v - {a}, mch := free_frame a (mch v)\<rparr>)"
proof -
  let ?s = "mch v" and ?t = "free_frame a (mch v)"
  note inv = vm_invD [OF assms(1)]
  note k = free_frame_keeps [OF inv(1) inv(5) [OF assms(2)]]
  show ?thesis
  proof (rule spared_effect [OF assms(1) k(1)])
    show "g_hhdm_offset ?t = g_hhdm_offset ?s" "frame_count ?t = frame_count ?s" by (simp_all add: free_frame_cases)
    show "keeps ?s ?t P" if "r \<in> spaces v" "P \<in> tree_tables ?s r" for r P using k(2) inv(3,6) assms(2) that by blast
    show "table_ok ?t b \<and> (\<forall>r \<in> spaces v. b \<notin> tree_tables ?s r)" if "b \<in> held v - {a}" for b
      using that k(2) inv(5,6) by (auto simp: keeps_def)
    show "b \<in> held v - {a} \<and>
        (\<forall>p \<in> table_cells (physical_to_virtual ?s b). \<not> writes_to p (Free a) \<longrightarrow> mem ?t p = mem ?s p)"
      if "b \<in> held v" "Free a \<noteq> Free b" for b
      using that k(2) [OF inv(5) [OF that(1)]] by (auto simp: keeps_def)
    obtain f where "a = f * kPageSize" "frame_valid ?s f" "frame_used ?s f" using inv(5) [OF assms(2)] by (rule table_okE)
    then show "free_tables ?t \<union> (held v - {a}) \<subseteq> free_tables ?s \<union> held v"
      using frame_address [OF pool_ok_shape [OF inv(1)], of f] assms(2) by (auto simp: free_frame_cases free_tables_def)
  qed
qed

lemma write_effect:
  assumes "vm_inv v" "a \<in> held v" "p \<in> table_cells (physical_to_virtual (mch v) a)"
  shows "step_effect v (Write p x) (v\<lparr>mch := store p x (mch v)\<rparr>)"
proof -
  let ?s = "mch v" and ?t = "store p x (mch v)"
  note inv = vm_invD [OF assms(1)]
  note k = store_keeps [OF inv(1) inv(5) [OF assms(2)] assms(3), where x = x]
  have "step_effect v (Write p x) (v\<lparr>held := held v, mch := ?t\<rparr>)"
  proof (rule spared_effect [OF assms(1) k(1)])
    show "keeps ?s ?t P" if "r \<in> spaces v" "P \<in> tree_tables ?s r" for r P using k(3) inv(3,6) assms(2) that by blast
    show "table_ok ?t b \<and> (\<forall>r \<in> spaces v. b \<notin> tree_tables ?s r)" if "b \<in> held v" for b
      using that k(2,3) inv(5,6) by (auto simp: keeps_def)
    show "free_tables ?t \<union> held v \<subseteq> free_tables ?s \<union> held v"
      using store_keeps(4) [OF inv(1) inv(5) [OF assms(2)] assms(3)] by (simp add: free_tables_def)
  qed simp_all
  then show ?thesis by simp
qed

lemma mark_effect:
  assumes "vm_inv v" "r \<in> spaces v" "P \<in> tree_tables (mch v) r" "i < 512" "present (table_entry (mch v) P i)" "mark_ok x"
  shows "step_effect v (Mark P i x) (v\<lparr>mch := mark_entry P i x (mch v)\<rparr>)"
proof -
  let ?s = "mch v" and ?t = "mark_entry P i x (mch v)"
  note inv = vm_invD [OF assms(1)]
  have P: "table_ok ?s P" "page_aligned P" using inv(3) [OF assms(2,3)] by blast+
  note k = store_keeps [OF inv(1) P(1) entry_cell_in_table [OF assms(4)],
      where x = "table_entry ?s P i OR x", folded set_entry_def mark_entry_def]
  have same: "table_ok ?t Q \<and> (\<forall>j<512. alike (table_entry ?s Q j) (table_entry ?t Q j))"
    if "r' \<in> spaces v" "Q \<in> tree_tables ?s r'" for r' Q
    using inv(3) [OF that] k(2,3) mark_entry_alike [OF P(2) _ assms(4) _ assms(5,6)] by (cases "Q = P") (auto simp: keeps_def)
  have sp: "vm_wf ?t r'" "tree_tables ?t r' = tree_tables ?s r'" "unmarked (space_map ?t r') = unmarked (space_map ?s r')"
    if "r' \<in> spaces v" for r'
    using alike_space [OF inv(2) [OF that] k(1)] same [OF that] by blast+
  have h: "keeps ?s ?t a" if "a \<in> held v" for a
    using k(3) [OF inv(5) [OF that]] inv(6) [OF that assms(2)] assms(3) by blast
  have "vm_inv (v\<lparr>mch := ?t\<rparr>)"
    using assms(1) k(1) sp(1,2) h by (simp add: vm_inv_def keeps_def)
  moreover have "g_hhdm_offset ?t = g_hhdm_offset ?s" "frame_count ?t = frame_count ?s" by (simp_all add: mark_entry_def set_entry_def)
  moreover have "frames_of (v\<lparr>mch := ?t\<rparr>) \<subseteq> frames_of v" using sp(2) k(4) by (simp add: frames_of_def free_tables_def)
  ultimately show ?thesis using sp(3) h by (simp add: step_effect_def keeps_def)
qed

lemma create_effect:
  assumes "vm_inv v" "free_frames (mch v) \<noteq> {}" "create_address_space out (mch v) = (ok, space, t)"
  shows "step_effect v Create (v\<lparr>spaces := insert (pml4_physical space) (spaces v), mch := t\<rparr>)"
proof -
  let ?s = "mch v" and ?N = "fresh_table (mch v)"
  note inv = vm_invD [OF assms(1)]
  note c = create_address_space_fresh [OF inv(1) assms(2)] and k = create_keeps [OF inv(1) assms(2)]
  note e = after_alloc_effect [OF inv(1) assms(2)]
  have t: "t = after_alloc ?s" "pml4_physical space = ?N" using assms(3) c(1) [of out] by auto
  have kr: "keeps ?s t P" if "r \<in> spaces v" "P \<in> tree_tables ?s r" for r P using k(1) inv(3) that t(1) by blast
  have kh: "keeps ?s t a" if "a \<in> held v" for a using k(1) [OF inv(5) [OF that]] t(1) by simp
  have h: "table_ok t a \<and> (\<forall>r \<in> spaces v. a \<notin> tree_tables ?s r)" if "a \<in> held v" for a
    using kh [OF that] inv(6) [OF that] by (simp add: keeps_def)
  have pt: "pool_ok t" "g_hhdm_offset t = g_hhdm_offset ?s" and fc: "frame_count t = frame_count ?s"
    using e(2) by (simp_all add: t(1))
  have sp: "vm_inv (v\<lparr>mch := t\<rparr>)" "\<And>r. r \<in> spaces v \<Longrightarrow> space_map t r = space_map ?s r"
    "\<And>r. r \<in> spaces v \<Longrightarrow> tree_tables t r = tree_tables ?s r"
    using vm_inv_spared [OF assms(1) pt, of "held v"] kr h by auto
  have "P \<in> tree_tables t ?N \<longleftrightarrow> P = ?N" for P
    using walk_empty [of t ?N] e(4) path_ok_Nil by (auto simp: tree_tables_def t(1) path_ok_def split: if_splits intro!: exI [of _ "[]"])
  then have N: "tree_tables t ?N = {?N}" by blast
  have "?N \<notin> tree_tables t r" if "r \<in> spaces v" for r using sp(3) [OF that] inv(3) [OF that] k(2) by blast
  moreover have "?N \<notin> held v" using k(2) inv(5) by blast
  moreover have "vm_wf t ?N" using c(2) by (simp add: t(1))
  ultimately have "vm_inv (v\<lparr>spaces := insert ?N (spaces v), mch := t\<rparr>)"
    using sp(1) N unfolding vm_inv_def by auto
  moreover have "free_tables t \<subseteq> free_tables ?s" "?N \<in> free_tables ?s"
    using e(1) fresh_frame_free [OF assms(2)] by (auto simp: t(1) free_tables_def fresh_table_def)
  then have "frames_of (v\<lparr>spaces := insert ?N (spaces v), mch := t\<rparr>) \<subseteq> frames_of v"
    using N sp(3) by (auto simp: frames_of_def)
  ultimately show ?thesis
    using sp(2) kh pt(2) fc by (auto simp: step_effect_def t(2) keeps_def)
qed

lemma map_effect:
  assumes "vm_inv v" "r \<in> spaces v" "\<exists>n. extends (mch v) t r n \<and> space_map (mch v) r \<subseteq>\<^sub>m space_map t r" "maps_in r op"
  shows "step_effect v op (v\<lparr>mch := t\<rparr>)"
proof -
  obtain n where n: "extends (mch v) t r n" "space_map (mch v) r \<subseteq>\<^sub>m space_map t r" using assms(3) by blast
  note x = vm_inv_extends [OF assms(1,2) n(1)]
  have m: "unmarked (space_map (mch v) r') \<subseteq>\<^sub>m unmarked (space_map t r') \<and>
      (\<not> maps_in r' op \<longrightarrow> unmarked (space_map t r') = unmarked (space_map (mch v) r'))"
    if "r' \<in> spaces v" for r'
    using x(2) [OF that] unmarked_le [OF n(2)] assms(4) by (cases "r' = r") auto
  have "g_hhdm_offset t = g_hhdm_offset (mch v)" "frame_count t = frame_count (mch v)"
    using n(1) by (simp_all add: extends_def)
  then show ?thesis using x(1,3,4) m by (simp add: step_effect_def keeps_def)
qed

lemma vm_step_effect:
  assumes "vm_inv v" "allowed v op" "vm_step v op w"
  shows "step_effect v op w"
  using assms(3)
proof cases
  case (alloc_step a t)
  show ?thesis unfolding alloc_step(1,2) by (rule alloc_effect [OF assms(1) alloc_step(3)])
next
  case (map_step r virt phys flags ok t)
  have r: "r \<in> spaces v" using assms(2) map_step(1) by (simp add: allowed_def)
  have "\<exists>n. extends (mch v) t r n \<and> space_map (mch v) r \<subseteq>\<^sub>m space_map t r"
    using map_page_grows [OF vm_invD(2) [OF assms(1) r] _ map_step(3)] assms(2) map_step(1) by (auto simp: allowed_def)
  then show ?thesis unfolding map_step(1,2) by (rule map_effect [OF assms(1) r]) simp
next
  case (map_large_step r virt phys flags ok t)
  have r: "r \<in> spaces v" using assms(2) map_large_step(1) by (simp add: allowed_def)
  have "\<exists>n. extends (mch v) t r n \<and> space_map (mch v) r \<subseteq>\<^sub>m space_map t r"
    using map_page_large_grows [OF vm_invD(2) [OF assms(1) r] _ map_large_step(3)] assms(2) map_large_step(1)
    by (auto simp: allowed_def)
  then show ?thesis unfolding map_large_step(1,2) by (rule map_effect [OF assms(1) r]) simp
next
  case (map_range_step space r virt phys size_bytes flags ok t)
  have r: "r \<in> spaces v" "unat size_bytes div 4096 * 3 \<le> card (free_frames (mch v))"
    using assms(2) map_range_step(1) by (simp_all add: allowed_def)
  from map_range_grows [OF vm_invD(2) [OF assms(1) r(1)] map_range_step(3) r(2) map_range_step(4)] show ?thesis
    unfolding map_range_step(1,2) by (rule map_effect [OF assms(1) r(1)]) simp
next
  case (map_range_large_step space r virt phys size_bytes flags ok t)
  have r: "r \<in> spaces v" "unat size_bytes div 2 ^ 21 * 2 \<le> card (free_frames (mch v))"
    using assms(2) map_range_large_step(1) by (simp_all add: allowed_def)
  from map_range_large_grows [OF vm_invD(2) [OF assms(1) r(1)] map_range_large_step(3) r(2) map_range_large_step(4)] show ?thesis
    unfolding map_range_large_step(1,2) by (rule map_effect [OF assms(1) r(1)]) simp
qed (use assms(2) in \<open>auto simp: allowed_def intro: free_effect write_effect create_effect mark_effect assms(1)\<close>)

section \<open>Runs\<close>

text \<open>What a run changes, by rule induction.\<close>

definition run_effect :: "vm_state \<Rightarrow> vm_op list \<Rightarrow> vm_state \<Rightarrow> bool" where
  "run_effect v ops w \<longleftrightarrow> vm_inv w \<and> spaces v \<subseteq> spaces w \<and> g_hhdm_offset (mch w) = g_hhdm_offset (mch v) \<and>
     frame_count (mch w) = frame_count (mch v) \<and> frames_of w \<subseteq> frames_of v \<and>
     (\<forall>r \<in> spaces v. unmarked (space_map (mch v) r) \<subseteq>\<^sub>m unmarked (space_map (mch w) r) \<and>
        ((\<forall>op \<in> set ops. \<not> maps_in r op) \<longrightarrow> unmarked (space_map (mch w) r) = unmarked (space_map (mch v) r))) \<and>
     (\<forall>a \<in> held v. Free a \<notin> set ops \<longrightarrow> a \<in> held w \<and>
        (\<forall>p \<in> table_cells (physical_to_virtual (mch v) a). (\<forall>op \<in> set ops. \<not> writes_to p op) \<longrightarrow>
           mem (mch w) p = mem (mch v) p))"

lemma run_effect_cons:
  assumes "step_effect v op w" "run_effect w ops x"
  shows "run_effect v (op # ops) x"
proof -
  have same: "physical_to_virtual (mch w) a = physical_to_virtual (mch v) a" for a
    using assms(1) by (simp add: step_effect_def physical_to_virtual_def)
  have "unmarked (space_map (mch v) r) \<subseteq>\<^sub>m unmarked (space_map (mch x) r) \<and>
      ((\<forall>o' \<in> set (op # ops). \<not> maps_in r o') \<longrightarrow> unmarked (space_map (mch x) r) = unmarked (space_map (mch v) r))" if "r \<in> spaces v" for r
    using assms that map_le_trans [of "unmarked (space_map (mch v) r)" "unmarked (space_map (mch w) r)" "unmarked (space_map (mch x) r)"]
    by (auto simp: step_effect_def run_effect_def)
  moreover have "a \<in> held x \<and> (\<forall>p \<in> table_cells (physical_to_virtual (mch v) a). (\<forall>o' \<in> set (op # ops). \<not> writes_to p o') \<longrightarrow>
      mem (mch x) p = mem (mch v) p)" if a: "a \<in> held v" "Free a \<notin> set (op # ops)" for a
  proof -
    have "a \<in> held w \<and> (\<forall>p \<in> table_cells (physical_to_virtual (mch v) a). \<not> writes_to p op \<longrightarrow> mem (mch w) p = mem (mch v) p)"
      using assms(1) a unfolding step_effect_def by (metis list.set_intros(1))
    moreover have "a \<in> held w \<Longrightarrow> a \<in> held x \<and> (\<forall>p \<in> table_cells (physical_to_virtual (mch v) a).
        (\<forall>o' \<in> set ops. \<not> writes_to p o') \<longrightarrow> mem (mch x) p = mem (mch w) p)"
      using assms(2) a(2) by (simp add: run_effect_def same)
    ultimately show ?thesis by simp
  qed
  ultimately show ?thesis
    using assms unfolding run_effect_def step_effect_def
    by (intro conjI ballI impI) (blast | simp)+
qed

lemma vm_steps_effect: "vm_steps v ops w \<Longrightarrow> vm_inv v \<Longrightarrow> run_effect v ops w"
proof (induction rule: vm_steps.induct)
  case (steps_nil v)
  then show ?case by (simp add: run_effect_def)
next
  case (steps_cons v op w ops x)
  have e: "step_effect v op w" by (rule vm_step_effect [OF steps_cons.prems steps_cons.hyps(1,2)])
  then show ?case using steps_cons.IH by (intro run_effect_cons) (simp_all add: step_effect_def)
qed

lemma alloc_fresh:
  assumes "vm_inv v" "alloc_frame (mch v) = (a, t)" "a \<noteq> 0"
  shows "a \<notin> held v" "r \<in> spaces v \<Longrightarrow> a \<notin> tree_tables (mch v) r"
proof -
  note inv = vm_invD [OF assms(1)]
  have ne: "free_frames (mch v) \<noteq> {}" and a: "a = Min (free_frames (mch v)) * kPageSize"
    using assms(2,3) alloc_frame_spec [OF pool_ok_shape [OF inv(1)]] by (simp_all split: if_splits)
  note k = take_frame_keeps(3) [OF inv(1) Min_in [OF finite_free_frames ne], folded a]
  show "a \<notin> held v" "r \<in> spaces v \<Longrightarrow> a \<notin> tree_tables (mch v) r" using k inv(3,5) by blast+
qed

lemma vm_inv_single: "vm_wf s r \<Longrightarrow> vm_inv \<lparr>spaces = {r}, held = {}, mch = s\<rparr>"
  using vm_wfD(1) by (simp add: vm_inv_def)

section \<open>Properties\<close>

text \<open>
  C5: Starting from well-formed address spaces that share no table, consider any sequence of calls of
  \<open>alloc_frame\<close>, \<open>free_frame\<close>, \<open>create_address_space\<close>, \<open>map_page\<close>, \<open>map_page_large\<close>, \<open>map_range\<close> and
  \<open>map_range_large\<close>, of stores, and of accessed and dirty bits set by the processor, in which every
  call is \<open>allowed\<close>: it finds the free frames it may need (one for \<open>create_address_space\<close>, one per missing
  table for \<open>map_page\<close> and \<open>map_page_large\<close>, 3 per page for \<open>map_range\<close>, 2 per page for
  \<open>map_range_large\<close>), mappings go to existing address spaces, and only held frames are released or
  stored to. Then the address spaces are still well-formed and disjoint. Every mapping of every address
  space is still there, unchanged but for those two bits; an address space none of the calls mapped in
  translates exactly as before; and a frame that was held and not released is still held, with the old
  contents in every cell its holder did not write. No frame that was not free, held or a table at the
  start is any of these at the end, and a frame that \<open>alloc_frame\<close> hands out in the state reached is
  nobody else's: not held, and not a page table of any address space.
\<close>

theorem memory_steps_isolated:
  assumes "vm_inv v" "vm_steps v ops w"
  shows "vm_inv w \<and> spaces v \<subseteq> spaces w \<and>
    (\<forall>r \<in> spaces v. unmarked (space_map (mch v) r) \<subseteq>\<^sub>m unmarked (space_map (mch w) r) \<and>
       ((\<forall>op \<in> set ops. \<not> maps_in r op) \<longrightarrow> unmarked (space_map (mch w) r) = unmarked (space_map (mch v) r))) \<and>
    (\<forall>a \<in> held v. Free a \<notin> set ops \<longrightarrow> a \<in> held w \<and>
       (\<forall>p \<in> table_cells (physical_to_virtual (mch v) a). (\<forall>op \<in> set ops. \<not> writes_to p op) \<longrightarrow>
          mem (mch w) p = mem (mch v) p)) \<and>
    frames_of w \<subseteq> frames_of v \<and>
    (\<forall>a t. alloc_frame (mch w) = (a, t) \<longrightarrow> a \<noteq> 0 \<longrightarrow> a \<notin> held w \<and> (\<forall>r \<in> spaces w. a \<notin> tree_tables (mch w) r))"
proof -
  note e = vm_steps_effect [OF assms(2,1), unfolded run_effect_def]
  then have "a \<notin> held w" "r \<in> spaces w \<Longrightarrow> a \<notin> tree_tables (mch w) r" if "alloc_frame (mch w) = (a, t)" "a \<noteq> 0" for a t r
    using alloc_fresh that by blast+
  with e show ?thesis by blast
qed

theorem memory_steps_isolated_witness:
  "\<exists>t w. map_page (physical_to_virtual small_space 0x1000) 0x400000 0x5000 PF_Writable small_space = (True, t) \<and>
     vm_steps \<lparr>spaces = {0x1000}, held = {}, mch = t\<rparr> [Create, Alloc] w \<and>
     unmarked (space_map (mch w) 0x1000) 0x400123 = Some (0x5123, flags_or PF_Writable PF_Present)"
proof -
  obtain t where t: "map_page (physical_to_virtual small_space 0x1000) 0x400000 0x5000 PF_Writable small_space = (True, t)"
    "vm_wf t 0x1000" "extends small_space t 0x1000 (missing small_space 0x1000 (indices 0x400000))"
    "space_map t 0x1000 0x400123 = Some (0x5123, flags_or PF_Writable PF_Present)"
    by (rule small_mapped)
  let ?v = "\<lparr>spaces = {0x1000}, held = {}, mch = t\<rparr>"
  have "card (free_frames t) + missing small_space 0x1000 (indices 0x400000) = 62"
    using t(3) small_space(3) by (simp add: extends_def)
  then have "card (free_frames t) \<noteq> 0" using missing_indices_le(1) [of small_space "0x1000" "0x400000"] by linarith
  then have ne: "free_frames (mch ?v) \<noteq> {}" by auto
  obtain ok space u where c: "create_address_space undefined (mch ?v) = (ok, space, u)" by (rule prod_cases3)
  obtain a x where a: "alloc_frame u = (a, x)" by fastforce
  obtain w where w: "vm_steps ?v [Create, Alloc] w"
    using steps_cons [OF _ create_step [OF c] steps_cons [OF _ alloc_step steps_nil]] a ne by (auto simp: allowed_def)
  have "unmarked (space_map (mch w) 0x1000) = unmarked (space_map t 0x1000)"
    using memory_steps_isolated [OF vm_inv_single [OF t(2)] w] by simp
  then have "unmarked (space_map (mch w) 0x1000) 0x400123 = unmarked (space_map t 0x1000) 0x400123" by (rule fun_cong)
  also have "\<dots> = Some (0x5123, flags_or PF_Writable PF_Present)"
    by (simp add: unmarked_def t(4) clear_marks_def flags_or_def PF_Writable_def PF_Present_def PF_Accessed_def PF_Dirty_def)
  finally show ?thesis using t(1) w by blast
qed

end
