(* ===== verification/Boot_Places.thy ===== *)
theory Boot_Places
  imports Boot_Memory Boot_Screen Vmm_Steps
begin

text \<open>
  Where things are in physical memory. The frame bitmap and the page tables lie in usable regions, the
  framebuffer in a framebuffer region and the boot stack in a reclaimable one; when these regions do not
  overlap, drawing and the delivery of an exception change no page table, although all of them are
  stores into the one memory of the machine.
\<close>

section \<open>Regions\<close>

text \<open>
  Usable, reclaimable and framebuffer regions overlap no region of another type. For the first two the
  boot protocol promises it.
\<close>

definition memmap_apart :: "MemoryRegion list \<Rightarrow> bool" where
  "memmap_apart regions \<longleftrightarrow>
     (\<forall>r\<in>set regions. \<forall>q\<in>set regions. type_of r \<in> {Usable, BootloaderReclaimable, Framebuffer} \<and> type_of q \<noteq> type_of r \<longrightarrow>
        unat (base r) + unat (length_of r) \<le> unat (base q) \<or> unat (base q) + unat (length_of q) \<le> unat (base r))"

text \<open>The 8-byte cell at \<open>c\<close> lies inside a region, seen through the direct map, or reaches into it.\<close>

definition inside :: "u64 \<Rightarrow> MemoryRegion \<Rightarrow> ptr \<Rightarrow> bool" where
  "inside hhdm r c \<longleftrightarrow> unat hhdm + unat (base r) \<le> unat c \<and> unat c + 8 \<le> unat hhdm + unat (base r) + unat (length_of r)"

definition overlaps :: "u64 \<Rightarrow> MemoryRegion \<Rightarrow> ptr \<Rightarrow> bool" where
  "overlaps hhdm r c \<longleftrightarrow> unat hhdm + unat (base r) < unat c + 8 \<and> unat c < unat hhdm + unat (base r) + unat (length_of r)"

definition in_usable :: "MemoryRegion list \<Rightarrow> u64 \<Rightarrow> ptr \<Rightarrow> bool" where
  "in_usable regions hhdm c \<longleftrightarrow> (\<exists>r\<in>set regions. type_of r = Usable \<and> inside hhdm r c)"

lemma inside_apart:
  assumes "memmap_apart regions" "r \<in> set regions" "type_of r \<in> {Usable, BootloaderReclaimable, Framebuffer}"
    "q \<in> set regions" "type_of q \<noteq> type_of r" "inside hhdm r c"
  shows "\<not> overlaps hhdm q c"
proof -
  have "unat (base r) + unat (length_of r) \<le> unat (base q) \<or> unat (base q) + unat (length_of q) \<le> unat (base r)"
    using assms(1-5) unfolding memmap_apart_def by blast
  then show ?thesis using assms(6) by (auto simp: inside_def overlaps_def)
qed

lemma in_usable_apart:
  assumes "memmap_apart regions" "in_usable regions hhdm c" "q \<in> set regions" "type_of q \<noteq> Usable"
  shows "\<not> overlaps hhdm q c"
  using inside_apart [OF assms(1) _ _ assms(3)] assms(2,4) by (fastforce simp: in_usable_def)

lemma usable_in_direct:
  assumes "usable_in_range regions" "direct_size regions \<noteq> 0" "r \<in> set regions" "type_of r = Usable"
  shows "unat (base r) + unat (length_of r) \<le> unat (direct_size regions)"
  using unat_usable_top(2) [OF assms(1,3,4)] usable_top_le_highest [of regions 0] direct_size_covers(2) [OF assms(1,2)]
  by (simp add: word_le_nat_alt)

section \<open>The memory managers' memory\<close>

text \<open>The page frames of the usable regions, by address.\<close>

definition usable_tables :: "MemoryRegion list \<Rightarrow> u64 set" where
  "usable_tables regions = {f * kPageSize | f. \<exists>r\<in>set regions. type_of r = Usable \<and> frame_inside f r}"

lemma usable_table_cells:
  assumes "usable_in_range regions" "direct_size regions \<noteq> 0" "unat hhdm + unat (direct_size regions) < 2 ^ 64"
    "P \<in> usable_tables regions" "c \<in> table_cells (hhdm + P)"
  shows "in_usable regions hhdm c"
proof -
  obtain f r where f: "P = f * kPageSize" "r \<in> set regions" "type_of r = Usable" "frame_inside f r"
    using assms(4) by (auto simp: usable_tables_def)
  obtain j where j: "c = hhdm + P + 8 * j" "j < 512" using assms(5) by (auto simp: table_cells_def)
  have u: "unat (8 * j) = 8 * unat j" "unat j < 512" using j(2) cell_offset by (simp_all add: word_less_nat_alt)
  have i: "unat (base r) \<le> 4096 * unat f" "4096 * unat f + 4096 \<le> unat (base r) + unat (length_of r)"
    using f(4) by (simp_all add: frame_inside_def)
  note d = usable_in_direct [OF assms(1,2) f(2,3)]
  have p: "unat P = 4096 * unat f" unfolding f(1) using i d assms(3) by (subst unat_mult_nowrap) simp_all
  have "unat (hhdm + P) = unat hhdm + 4096 * unat f" using i d assms(3) p by (subst unat_add_nowrap) simp_all
  then have "unat c = unat hhdm + 4096 * unat f + 8 * unat j"
    unfolding j(1) using i d assms(3) u by (subst unat_add_nowrap) simp_all
  then have "inside hhdm r c" using i u(2) by (simp add: inside_def)
  with f(2,3) show ?thesis by (auto simp: in_usable_def)
qed

lemma bitmap_cells_usable:
  assumes "usable_in_range regions" "direct_size regions \<noteq> 0" "unat hhdm + unat (direct_size regions) < 2 ^ 64"
    "pmm_init regions hhdm s = Ret u t" "c \<in> bitmap_cells t"
  shows "in_usable regions hhdm c"
proof -
  note sh = pmm_init_shape [OF assms(4)]
  obtain i where i: "c = hhdm + bitmap_phys t + 8 * i" "i < bitmap_words t" using assms(5) by (auto simp: bitmap_cells_def sh(2))
  obtain r where r: "r \<in> set regions" "type_of r = Usable" "bitmap_phys t = base r"
    "4096 * ((unat (bitmap_bytes t) + 4095) div 4096) \<le> unat (length_of r)"
    using pmm_init_bitmap_region [OF assms(1,4)] by blast
  have bytes: "unat (bitmap_bytes t) = 8 * unat (bitmap_words t)" by (simp add: sh(4,6) unat_init_pages(2))
  then have b: "8 * unat (bitmap_words t) \<le> unat (length_of r)"
    using r(4) page_up_le_iff [of "unat (bitmap_bytes t)" "(unat (bitmap_bytes t) + 4095) div 4096"] by simp
  note d = usable_in_direct [OF assms(1,2) r(1,2)]
  have n: "unat i < unat (bitmap_words t)" using i(2) by (simp add: word_less_nat_alt)
  then have m: "unat (8 * i) = 8 * unat i" using b d assms(3) by (subst unat_mult_nowrap) simp_all
  have "unat (hhdm + base r) = unat hhdm + unat (base r)" using d assms(3) by (subst unat_add_nowrap) simp_all
  then have "unat c = unat hhdm + unat (base r) + 8 * unat i"
    unfolding i(1) r(3) using b d n m assms(3) by (subst unat_add_nowrap) simp_all
  then have "inside hhdm r c" using b n by (simp add: inside_def)
  with r(1,2) show ?thesis by (auto simp: in_usable_def)
qed

lemma free_tables_usable:
  assumes "usable_in_range regions" "pmm_init regions hhdm s = Ret u t"
  shows "free_tables t \<subseteq> usable_tables regions"
  using pmm_init_free_frames [OF assms] by (auto simp: free_tables_def usable_tables_def)

text \<open>Translations are read from the page tables only.\<close>

lemma leaf_agree:
  assumes "\<And>P j. P \<in> tree_tables s root \<Longrightarrow> j < 512 \<Longrightarrow> table_entry t P j = table_entry s P j"
  shows "full_path (zs @ ys) \<Longrightarrow> walk s root zs = Some P \<Longrightarrow> leaf t P ys = leaf s P ys"
proof (induction ys arbitrary: zs P)
  case (Cons i ys)
  have "path_ok zs" "i < 512" using Cons.prems(1) by (auto simp: full_path_def path_ok_def)
  then have e: "table_entry t P i = table_entry s P i" using assms tree_tablesI Cons.prems(2) by blast
  show ?case
  proof (cases "present (table_entry s P i) \<and> \<not> huge (table_entry s P i) \<and> ys \<noteq> []")
    case True
    then have "walk s root (zs @ [i]) = Some (page_entry_address (table_entry s P i))" using Cons.prems(2) by (auto simp: walk_snoc)
    then show ?thesis using Cons.IH [of "zs @ [i]"] Cons.prems(1) e True by (simp add: Let_def)
  qed (auto simp: Let_def e)
qed simp

lemma walk_agree:
  assumes "\<And>P j. P \<in> tree_tables s root \<Longrightarrow> j < 512 \<Longrightarrow> table_entry t P j = table_entry s P j"
  shows "path_ok xs \<Longrightarrow> walk t root xs = walk s root xs"
proof (induction xs rule: rev_induct)
  case (snoc i xs)
  then have p: "path_ok xs" "i < 512" by (auto simp: path_ok_def)
  have "walk t root (xs @ [i]) = Some Q \<longleftrightarrow> walk s root (xs @ [i]) = Some Q" for Q
    using snoc.IH [OF p(1)] assms [OF tree_tablesI [OF p(1)] p(2)] by (auto simp: walk_snoc)
  then show ?case by (metis option.exhaust)
qed simp

lemma space_map_agree:
  assumes "g_hhdm_offset t = g_hhdm_offset s"
    "\<And>P c. P \<in> tree_tables s root \<Longrightarrow> c \<in> table_cells (physical_to_virtual s P) \<Longrightarrow> mem t c = mem s c"
  shows "space_map t root = space_map s root" "tree_tables t root = tree_tables s root"
proof -
  have e: "table_entry t P j = table_entry s P j" if "P \<in> tree_tables s root" "j < 512" for P j
    using assms(2) [OF that(1) entry_cell_in_table [OF that(2)]] assms(1) by (simp add: table_entry_def physical_to_virtual_def)
  then have "leaf t root (indices v) = leaf s root (indices v)" for v by (rule leaf_agree [of s root t "[]"]) simp_all
  then show "space_map t root = space_map s root" by (simp add: space_map_def fun_eq_iff)
  have "walk t root xs = walk s root xs" if "path_ok xs" for xs by (rule walk_agree [OF e that])
  then show "tree_tables t root = tree_tables s root" by (auto simp: tree_tables_def)
qed

section \<open>The framebuffer\<close>

definition screen_placed :: "MemoryRegion list \<Rightarrow> u64 \<Rightarrow> framebuffer \<Rightarrow> bool" where
  "screen_placed regions hhdm fb \<longleftrightarrow> (\<exists>r\<in>set regions. type_of r = Framebuffer \<and>
     unat hhdm + unat (base r) \<le> unat (fb_address fb) \<and>
     unat (fb_address fb) + unat (fb_height fb) * unat (fb_pitch fb) \<le> unat hhdm + unat (base r) + unat (length_of r))"

lemma cell_of_bounds: "unat (cell_of a) \<le> unat a" "unat a < unat (cell_of a) + 8"
proof -
  have "cell_of a = a AND NOT (mask 3)" by (simp add: cell_of_def mask_eq_exp_minus_1)
  then have "unat (cell_of a) = unat a div 8 * 8" using unat_and_not_mask [of a 3] by simp
  then show "unat (cell_of a) \<le> unat a" "unat a < unat (cell_of a) + 8" by presburger+
qed

lemma pixel_not_usable:
  assumes "memmap_apart regions" "screen_placed regions hhdm fb" "fb_ok fb" "in_usable regions hhdm c"
  shows "c \<notin> cell_of ` pixel_bytes fb"
proof
  assume "c \<in> cell_of ` pixel_bytes fb"
  then obtain a where a: "a \<in> pixel_bytes fb" "c = cell_of a" by blast
  obtain q where q: "q \<in> set regions" "type_of q = Framebuffer" "unat hhdm + unat (base q) \<le> unat (fb_address fb)"
    "unat (fb_address fb) + unat (fb_height fb) * unat (fb_pitch fb) \<le> unat hhdm + unat (base q) + unat (length_of q)"
    using assms(2) by (auto simp: screen_placed_def)
  have "overlaps hhdm q c"
    using pixel_bytes_extent [OF assms(3) a(1)] q(3,4) cell_of_bounds [of a] by (simp add: overlaps_def a(2))
  moreover have "\<not> overlaps hhdm q c" by (rule in_usable_apart [OF assms(1,4) q(1)]) (simp add: q(2))
  ultimately show False by simp
qed

section \<open>The stack\<close>

text \<open>
  The cells below the interrupted stack pointer that the processor, the stub and the handler write:
  22 for the frame, the return address, and the handler's own.
\<close>

definition stack_cells :: "handler_stack \<Rightarrow> registers \<Rightarrow> ptr set" where
  "stack_cells use regs = {(rg_rsp regs AND NOT 0xF) - 8 * of_nat (Suc i) | i. i < 23 + hs_words use}"

text \<open>They lie in a region that the boot loader marked reclaimable, and in the direct map.\<close>

definition stack_ok :: "u64 \<Rightarrow> MemoryRegion list \<Rightarrow> handler_stack \<Rightarrow> registers \<Rightarrow> bool" where
  "stack_ok hhdm regions use regs \<longleftrightarrow>
     (\<exists>r\<in>set regions. type_of r = BootloaderReclaimable \<and>
        unat hhdm + unat (base r) + 8 * (23 + hs_words use) \<le> unat (rg_rsp regs AND NOT 0xF) \<and>
        unat (rg_rsp regs AND NOT 0xF) \<le> unat hhdm + unat (base r) + unat (length_of r)) \<and>
     unat (rg_rsp regs AND NOT 0xF) \<le> unat hhdm + unat (direct_size regions)"

lemma unat_of_nat_u64: "n < 2 ^ 64 \<Longrightarrow> unat (of_nat n :: u64) = n"
  by (simp add: unsigned_of_nat take_bit_nat_eq_self)

lemma stack_cell_inside:
  assumes "stack_ok hhdm regions use regs"
  obtains r where "r \<in> set regions" "type_of r = BootloaderReclaimable"
    "\<And>c. c \<in> stack_cells use regs \<Longrightarrow> inside hhdm r c"
proof -
  let ?p = "rg_rsp regs AND NOT 0xF"
  obtain r where r: "r \<in> set regions" "type_of r = BootloaderReclaimable"
    "unat hhdm + unat (base r) + 8 * (23 + hs_words use) \<le> unat ?p" "unat ?p \<le> unat hhdm + unat (base r) + unat (length_of r)"
    using assms by (auto simp: stack_ok_def)
  have "inside hhdm r (?p - 8 * of_nat (Suc i))" if i: "i < 23 + hs_words use" for i
  proof -
    have "8 * Suc i \<le> 8 * (23 + hs_words use)" using i by simp
    then have le: "8 * Suc i \<le> unat ?p" using r(3) by (meson add_leE le_trans)
    have "unat (of_nat (8 * Suc i) :: u64) = 8 * Suc i"
      by (rule unat_of_nat_u64) (rule le_less_trans [OF le u64_bound])
    then have "unat (8 * of_nat (Suc i) :: u64) = 8 * Suc i" by simp
    then have "unat (?p - 8 * of_nat (Suc i)) = unat ?p - 8 * Suc i" using le by (simp only: unat_sub_if' if_True)
    moreover have "h \<le> q - 8 * Suc i \<and> q - 8 * Suc i + 8 \<le> e" if "h + 8 * (23 + hs_words use) \<le> q" "q \<le> e" for h q e
      using that i by auto
    ultimately show ?thesis using r(3,4) unfolding inside_def by presburger
  qed
  then show thesis using r(1,2) by (intro that [of r]) (auto simp: stack_cells_def)
qed

lemma stack_not_usable:
  assumes "memmap_apart regions" "stack_ok hhdm regions use regs" "in_usable regions hhdm c"
  shows "c \<notin> stack_cells use regs"
proof
  assume c: "c \<in> stack_cells use regs"
  obtain r where r: "r \<in> set regions" "type_of r = BootloaderReclaimable" "inside hhdm r c"
    using stack_cell_inside [OF assms(2)] c by metis
  then have "overlaps hhdm r c" by (simp add: inside_def overlaps_def)
  moreover have "\<not> overlaps hhdm r c" by (rule in_usable_apart [OF assms(1,3) r(1)]) (simp add: r(2))
  ultimately show False by simp
qed

lemma stack_not_pixel:
  assumes "memmap_apart regions" "stack_ok hhdm regions use regs" "screen_placed regions hhdm fb" "fb_ok fb"
    "a \<in> pixel_bytes fb"
  shows "cell_of a \<notin> stack_cells use regs"
proof
  assume c: "cell_of a \<in> stack_cells use regs"
  obtain r where r: "r \<in> set regions" "type_of r = BootloaderReclaimable" "inside hhdm r (cell_of a)"
    using stack_cell_inside [OF assms(2)] c by metis
  obtain q where q: "q \<in> set regions" "type_of q = Framebuffer" "unat hhdm + unat (base q) \<le> unat (fb_address fb)"
    "unat (fb_address fb) + unat (fb_height fb) * unat (fb_pitch fb) \<le> unat hhdm + unat (base q) + unat (length_of q)"
    using assms(3) by (auto simp: screen_placed_def)
  have "overlaps hhdm q (cell_of a)"
    using pixel_bytes_extent [OF assms(4,5)] q(3,4) cell_of_bounds [of a] by (simp add: overlaps_def)
  moreover have "\<not> overlaps hhdm q (cell_of a)"
    by (rule inside_apart [OF assms(1) r(1) _ q(1) _ r(3)]) (simp_all add: r(2) q(2))
  ultimately show False by simp
qed

end
