(* ===== verification/Boot_Correct.thy ===== *)
theory Boot_Correct
  imports Boot_Places
begin

text \<open>
  What the parts of \<open>kmain\<close> achieve on a machine that the bootloader describes sensibly: the memory
  phase enters the kernel's own address space, which survives every later use of the memory
  managers, and the intentional fault reaches the handler and is reported.
\<close>

section \<open>The memory map\<close>

text \<open>The regions of a memory map all of whose types are known.\<close>

definition memmap_regions :: "memmap_entry list \<Rightarrow> MemoryRegion list" where
  "memmap_regions entries =
     map (\<lambda>e. \<lparr>base = entry_base e, length_of = entry_length e, type_of = the (region_type_of (entry_type e))\<rparr>) entries"

lemma region_type_known: "region_type_of ty \<noteq> None \<longleftrightarrow> unat ty < 8"
proof -
  have "ty = of_nat n" if "unat ty = n" for n using that by auto
  moreover have "unat ty < 8 \<longleftrightarrow> unat ty \<in> {0, 1, 2, 3, 4, 5, 6, 7}" by auto
  ultimately have "unat ty < 8 \<longleftrightarrow> ty \<in> {0, 1, 2, 3, 4, 5, 6, 7}" by fastforce
  then show ?thesis by (auto simp: region_type_of_def)
qed

lemma translate_memmap_known:
  "list_all (\<lambda>e. unat (entry_type e) < 8) entries \<Longrightarrow> translate_memmap entries s = Ret (memmap_regions entries) s"
proof (induction entries)
  case (Cons e entries)
  then obtain ty where "region_type_of (entry_type e) = Some ty" using region_type_known [of "entry_type e"] by auto
  with Cons show ?case by (simp add: memmap_regions_def)
qed (simp add: memmap_regions_def)

lemma translate_memmap_unknown:
  "\<lbrakk> list_all (\<lambda>e. unat (entry_type e) < 8) xs; \<not> unat (entry_type e) < 8 \<rbrakk> \<Longrightarrow>
     translate_memmap (xs @ e # ys) s =
       Halt (log_printf ''fatal: unknown memory map type: %lu\<newline>'' [Word (entry_type e)] s)"
proof (induction xs)
  case Nil
  then have "region_type_of (entry_type e) = None" using region_type_known by blast
  then show ?case by simp
next
  case (Cons x xs)
  then obtain ty where "region_type_of (entry_type x) = Some ty" using region_type_known [of "entry_type x"] by auto
  with Cons show ?case by simp
qed

section \<open>A bootable machine\<close>

text \<open>
  What the kernel relies on, as conditions on its inputs only: a memory map with page-aligned,
  disjoint usable regions below \<open>2 ^ 52\<close>, room for the bitmap, a 2 MiB aligned direct map below the
  image, a linked image layout, and frames for the page tables.
\<close>

definition memory_ok :: "MemoryRegion list \<Rightarrow> u64 \<Rightarrow> KernelLayout \<Rightarrow> bool" where
  "memory_ok regions hhdm layout \<longleftrightarrow> usable_in_range regions \<and> usable_disjoint regions \<and> usable_aligned regions \<and>
     usable_top regions 0 \<noteq> 0 \<and> unat (usable_top regions 0) \<le> 2 ^ 52 \<and>
     find_bitmap_region regions (init_pages regions) \<noteq> None \<and>
     hhdm \<noteq> 0 \<and> range_ok 21 hhdm 0 (direct_size regions) \<and> layout_ok layout \<and>
     unat hhdm + unat (direct_size regions) \<le> unat (image_start layout) \<and>
     1 + unat (direct_size regions) div 2 ^ 21 * 2 + image_pages layout * 3 + unat (init_pages regions) \<le> usable_frames regions"

lemma memory_ok_init:
  assumes "memory_ok regions hhdm layout"
  shows "\<exists>t. pmm_init regions hhdm s = Ret () t \<and> kernel_inputs_ok t regions hhdm layout \<and> g_hhdm_offset t = hhdm \<and>
    4096 * unat (frame_count t) \<le> unat (direct_size regions)"
proof -
  have m: "usable_in_range regions" "usable_disjoint regions" "usable_aligned regions" "usable_top regions 0 \<noteq> 0"
    "unat (usable_top regions 0) \<le> 2 ^ 52" "find_bitmap_region regions (init_pages regions) \<noteq> None" "hhdm \<noteq> 0"
    and r: "range_ok 21 hhdm 0 (direct_size regions)"
    and budget: "1 + unat (direct_size regions) div 2 ^ 21 * 2 + image_pages layout * 3 + unat (init_pages regions) \<le>
      usable_frames regions"
    using assms by (simp_all add: memory_ok_def)
  obtain t where t: "pmm_init regions hhdm s = Ret () t" using pmm_init_returns m(4,6) by blast
  have D: "direct_size regions \<noteq> 0" "unat hhdm + unat (direct_size regions) < 2 ^ 64" using r by (simp_all add: range_ok_def)
  note c = direct_size_covers(1) [OF m(1) D(1)]
  have "pool_ok t" by (rule pmm_init_pool [OF m(1-3) t m(5,7)]) (use c D(2) in linarith)
  moreover have "regions \<noteq> []" using m(4) by auto
  moreover have "1 + unat (direct_size regions) div 2 ^ 21 * 2 + image_pages layout * 3 \<le> card (free_frames t)"
    using budget pmm_init_card_free [OF m(1-3) t] by linarith
  ultimately have "kernel_inputs_ok t regions hhdm layout"
    using assms by (simp add: memory_ok_def kernel_inputs_ok_def)
  then show ?thesis using t c pmm_init_shape(3,5) [OF t] by auto
qed

text \<open>The framebuffer lies in the direct map.\<close>

definition screen_ok :: "framebuffer \<Rightarrow> MemoryRegion list \<Rightarrow> u64 \<Rightarrow> bool" where
  "screen_ok fb regions hhdm \<longleftrightarrow> fb_ok fb \<and> unat hhdm \<le> unat (fb_address fb) \<and>
     unat (fb_address fb) + unat (fb_height fb) * unat (fb_pitch fb) \<le> unat hhdm + unat (direct_size regions)"

section \<open>Entering the address space\<close>

lemma enter_space_same:
  "mem (enter_space space fb hhdm vbase pbase syms s) = mem s"
  "bitmap (enter_space space fb hhdm vbase pbase syms s) = bitmap s"
  "bitmap_words (enter_space space fb hhdm vbase pbase syms s) = bitmap_words s"
  "frame_count (enter_space space fb hhdm vbase pbase syms s) = frame_count s"
  "free_frame_count (enter_space space fb hhdm vbase pbase syms s) = free_frame_count s"
  "g_hhdm_offset (enter_space space fb hhdm vbase pbase syms s) = g_hhdm_offset s"
  "cr3 (enter_space space fb hhdm vbase pbase syms s) = pml4_physical space"
  by (simp_all add: enter_space_def load_address_space_def log_address_space_state)

text \<open>Page tables are read from memory through the direct map; the rest of the state is irrelevant.\<close>

lemma walk_cong: "mem t = mem s \<Longrightarrow> g_hhdm_offset t = g_hhdm_offset s \<Longrightarrow> walk t P xs = walk s P xs"
  by (induction xs arbitrary: P) (simp_all add: Let_def table_entry_def physical_to_virtual_def)

lemma space_map_cong:
  assumes "mem t = mem s" "g_hhdm_offset t = g_hhdm_offset s"
  shows "space_map t root = space_map s root"
proof -
  have "leaf t P xs = leaf s P xs" for P xs
    using assms by (induction xs arbitrary: P) (simp_all add: Let_def table_entry_def physical_to_virtual_def)
  then show ?thesis by (simp add: space_map_def fun_eq_iff)
qed

lemma enter_space_wf:
  assumes "vm_wf s root"
  shows "vm_wf (enter_space space fb hhdm vbase pbase syms s) root"
proof -
  let ?t = "enter_space space fb hhdm vbase pbase syms s"
  have "same_pool ?t s" by (simp add: same_pool_def enter_space_same)
  then have p: "pool_ok ?t" "table_ok s P \<Longrightarrow> table_ok ?t P" for P
    using same_pool_ok same_pool_table_ok vm_wfD(1) [OF assms] by blast+
  have "keeps s ?t P" if "P \<in> tree_tables s root" for P
    using that p(2) vm_wfD(2) [OF assms] by (auto simp: keeps_def tree_tables_def enter_space_same)
  with keeps_space(1) [OF assms p(1)] show ?thesis by (simp add: enter_space_same)
qed

lemma kernel_map_null:
  assumes "memory_ok regions hhdm layout"
  shows "kernel_map regions hhdm layout 0 = None"
proof -
  have "hhdm \<noteq> 0" "unat hhdm + unat (direct_size regions) < 2 ^ 64" "layout_ok layout"
    using assms by (auto simp: memory_ok_def range_ok_def)
  moreover from this(1) have "unat (0 - hhdm) = 2 ^ 64 - unat hhdm" by (subst unat_sub_if') (simp add: unat_eq_0)
  ultimately have "\<not> 0 - hhdm < direct_size regions" by (simp only: word_less_nat_alt)
  moreover have "unat (0 :: u64) < unat (image_start layout)"
    using \<open>layout_ok layout\<close> by (simp add: layout_ok_def segment_ok_def)
  ultimately show ?thesis using image_map_below [OF \<open>layout_ok layout\<close>] by (simp add: kernel_map_def)
qed

lemma log_image_mem: "mem (log_image vbase pbase syms s) = mem s"
  by (simp add: log_image_def log_bases_def log_segment_def Let_def)

text \<open>The construction of the address space works in the frames that were free before it.\<close>

lemma built_frames:
  assumes ok: "kernel_inputs_ok u regions hhdm layout" and root: "root = Min (free_frames u) * kPageSize"
    and x: "extends (after_alloc (enable_nx u)) v root m"
  shows "free_tables v \<union> tree_tables v root \<subseteq> free_tables u"
    "p \<notin> bitmap_cells u \<Longrightarrow> (\<And>P. P \<in> free_tables u \<Longrightarrow> p \<notin> table_cells (physical_to_virtual u P)) \<Longrightarrow> mem v p = mem u p"
proof -
  let ?n = "enable_nx u"
  have n: "pool_ok ?n" "free_frames ?n = free_frames u" using ok enable_nx_pool by (simp_all add: kernel_inputs_ok_def)
  have "free_frames u \<noteq> {}" using ok by (auto simp: kernel_inputs_ok_def)
  then have ne: "free_frames ?n \<noteq> {}" and r: "root = fresh_table ?n" "root \<in> free_tables u"
    using n(2) by (auto simp: root fresh_table_def fresh_frame_def free_tables_def)
  note e = after_alloc_effect [OF n(1) ne]
  have f: "free_tables (after_alloc ?n) \<subseteq> free_tables u" using e(1) n(2) by (auto simp: free_tables_def)
  have "P \<in> tree_tables (after_alloc ?n) root \<longleftrightarrow> P = root" for P
    using walk_empty [of "after_alloc ?n" root] e(4) path_ok_Nil
    by (auto simp: r(1) tree_tables_def path_ok_def split: if_splits intro!: exI [of _ "[]"])
  then have all: "tree_tables (after_alloc ?n) root \<union> free_tables (after_alloc ?n) \<subseteq> free_tables u" using f r(2) by auto
  moreover have "free_tables v \<subseteq> free_tables (after_alloc ?n)" "tree_tables v root \<subseteq> tree_tables (after_alloc ?n) root \<union> free_tables (after_alloc ?n)"
    using x by (auto simp: extends_def free_tables_def tree_tables_def)
  ultimately show "free_tables v \<union> tree_tables v root \<subseteq> free_tables u" by blast
  have same: "bitmap_cells (after_alloc ?n) = bitmap_cells u" "bitmap_cells ?n = bitmap_cells u" "mem ?n = mem u"
    "physical_to_virtual (after_alloc ?n) P = physical_to_virtual u P" "physical_to_virtual ?n P = physical_to_virtual u P" for P
    by (simp_all add: bitmap_cells_def physical_to_virtual_def)
  assume p: "p \<notin> bitmap_cells u" "\<And>P. P \<in> free_tables u \<Longrightarrow> p \<notin> table_cells (physical_to_virtual u P)"
  have "mem v p = mem (after_alloc ?n) p"
    using x p all unfolding extends_def same by blast
  also have "\<dots> = mem ?n p" using e(5) [of p] p r unfolding same by blast
  finally show "mem v p = mem u p" by (simp add: same(3))
qed

lemma start_memory_enters:
  assumes types: "list_all (\<lambda>e. unat (entry_type e) < 8) entries"
    and valid: "kernel_physical_base_valid (memmap_regions entries) pbase"
    and ok: "memory_ok (memmap_regions entries) hhdm (kernel_layout vbase pbase syms)"
  shows "\<exists>space t v. start_memory out fb entries hhdm vbase pbase syms s = Some (Ret space t) \<and>
    t = enter_space space fb hhdm vbase pbase syms v \<and> vm_wf v (pml4_physical space) \<and>
    pml4 space = physical_to_virtual v (pml4_physical space) \<and>
    g_hhdm_offset v = hhdm \<and> 4096 * unat (frame_count v) \<le> unat (direct_size (memmap_regions entries)) \<and>
    space_map v (pml4_physical space) = kernel_map (memmap_regions entries) hhdm (kernel_layout vbase pbase syms) \<and>
    (\<exists>u. pmm_init (memmap_regions entries) hhdm (log_image vbase pbase syms s) = Ret () u \<and> klog v = klog u \<and>
       pml4_physical space = Min (free_frames u) * kPageSize) \<and>
    free_tables v \<union> tree_tables v (pml4_physical space) \<subseteq> usable_tables (memmap_regions entries) \<and>
    (\<forall>c. \<not> in_usable (memmap_regions entries) hhdm c \<longrightarrow> mem v c = mem s c)"
proof -
  let ?r = "memmap_regions entries" and ?l = "kernel_layout vbase pbase syms"
  obtain u where u: "pmm_init ?r hhdm (log_image vbase pbase syms s) = Ret () u" "kernel_inputs_ok u ?r hhdm ?l"
    "g_hhdm_offset u = hhdm" "4096 * unat (frame_count u) \<le> unat (direct_size ?r)"
    using memory_ok_init [OF ok] by blast
  obtain space v m where b: "build_kernel_address_space out (Some ?r) hhdm ?l u = Some (True, space, v)"
    "extends (after_alloc (enable_nx u)) v (pml4_physical space) m"
    "space_map v (pml4_physical space) = kernel_map ?r hhdm ?l" "pml4 space = physical_to_virtual v (pml4_physical space)"
    "pml4_physical space = Min (free_frames u) * kPageSize"
    using build_kernel_result [OF u(2), of out] by blast
  have m: "usable_in_range ?r" "direct_size ?r \<noteq> 0" "unat hhdm + unat (direct_size ?r) < 2 ^ 64"
    using ok by (simp_all add: memory_ok_def range_ok_def)
  note w = built_frames [OF u(2) b(5,2)]
  have f: "free_tables v \<union> tree_tables v (pml4_physical space) \<subseteq> usable_tables ?r"
    using w(1) free_tables_usable [OF m(1) u(1)] by blast
  have "mem v c = mem s c" if c: "\<not> in_usable ?r hhdm c" for c
  proof -
    have "c \<notin> bitmap_cells u" using bitmap_cells_usable [OF m u(1)] c by blast
    moreover have "c \<notin> table_cells (physical_to_virtual u P)" if "P \<in> free_tables u" for P
      using usable_table_cells [OF m, of P c] free_tables_usable [OF m(1) u(1)] that c
      by (auto simp: physical_to_virtual_def u(3))
    ultimately show ?thesis using w(2) [of c] pmm_init_shape(9) [OF u(1), of c] by (simp add: log_image_mem)
  qed
  note frame = f this
  have "klog v = klog u" using quiet_build [OF b(1)] by (simp add: quiet_def)
  moreover have "vm_wf v (pml4_physical space)" "g_hhdm_offset v = hhdm" "frame_count v = frame_count u"
    using b(2) u(3) by (simp_all add: extends_def)
  ultimately show ?thesis
    using translate_memmap_known [OF types, of s] valid u(1,4) b(1,3,4,5) frame
    by (intro exI [of _ space] exI [of _ v] exI conjI) (simp_all add: start_memory_eq)
qed

lemma pixel_in_direct_map:
  assumes "screen_ok fb regions hhdm" "x < fb_width fb" "y < fb_height fb"
  shows "pixel_cell fb x y - hhdm < direct_size regions"
proof -
  have s: "fb_ok fb" "unat hhdm \<le> unat (fb_address fb)"
    "unat (fb_address fb) + unat (fb_height fb) * unat (fb_pitch fb) \<le> unat hhdm + unat (direct_size regions)"
    using assms(1) by (simp_all add: screen_ok_def)
  show ?thesis
    using s unat_pixel_cell [OF s(1) assms(2,3)] pixel_index_bound [OF s(1) assms(2,3)]
    by (simp add: word_less_nat_alt unat_sub_if')
qed

lemma pixel_mapped:
  "\<lbrakk> screen_ok fb regions hhdm; x < fb_width fb; y < fb_height fb \<rbrakk> \<Longrightarrow>
     kernel_map regions hhdm layout (pixel_cell fb x y) = Some (pixel_cell fb x y - hhdm, direct_flags)"
  by (simp add: kernel_map_def pixel_in_direct_map)

section \<open>The run\<close>

text \<open>
  What the linker script \<open>src/linker.lds\<close> provides: the 32 stubs are at different addresses of the text
  segment, and the GDT (in \<open>.data\<close>) and the IDT (in \<open>.bss\<close>) are in the pages of the data segment.
\<close>

definition symbols_ok :: "KernelLayout \<Rightarrow> linker_symbols \<Rightarrow> bool" where
  "symbols_ok layout syms \<longleftrightarrow> distinct (map (sym_isr_stub syms) [0..<32]) \<and>
     list_all (\<lambda>v. text_start layout \<le> sym_isr_stub syms v \<and> sym_isr_stub syms v < rodata_start layout) [0..<32] \<and>
     unat (data_start layout) \<le> unat (sym_gdt syms) \<and> unat (sym_gdt syms) + 40 \<le> unat (data_end_rounded layout) \<and>
     unat (data_start layout) \<le> unat (sym_idt syms) \<and> unat (sym_idt syms) + 4096 \<le> unat (data_end_rounded layout)"

definition boot_ok :: "boot_info \<Rightarrow> linker_symbols \<Rightarrow> framebuffer \<Rightarrow> memmap_entry list \<Rightarrow> u64 \<Rightarrow> u64 \<Rightarrow> u64 \<Rightarrow> bool" where
  "boot_ok boot syms fb entries hhdm vbase pbase \<longleftrightarrow>
     base_revision_supported boot \<and> framebuffer_response boot \<noteq> None \<and> the (framebuffer_response boot) \<noteq> [] \<and>
     hd (the (framebuffer_response boot)) = fb \<and> memmap_response boot = Some entries \<and> length entries \<le> 64 \<and>
     hhdm_response boot = Some hhdm \<and> kernel_address_response boot = Some (vbase, pbase) \<and>
     list_all (\<lambda>e. unat (entry_type e) < 8) entries \<and> kernel_physical_base_valid (memmap_regions entries) pbase \<and>
     memory_ok (memmap_regions entries) hhdm (kernel_layout vbase pbase syms) \<and>
     screen_ok fb (memmap_regions entries) hhdm \<and> symbols_ok (kernel_layout vbase pbase syms) syms"

lemma check_responses_ok:
  assumes "boot_ok boot syms fb entries hhdm vbase pbase"
  shows "check_responses boot s = Ret (fb, entries, hhdm, vbase, pbase)
    (log_serial ''framebuffer acquired\<newline>'' (log_serial ''WaterBuffalo booting\<newline>'' s))"
  using assms by (auto simp: boot_ok_def check_responses_def Let_def hd_conv_nth Suc_le_eq not_less)

lemma kernel_space_entered:
  assumes ok: "boot_ok boot syms fb entries hhdm vbase pbase"
  shows "\<exists>space t. start_memory out fb entries hhdm vbase pbase syms s = Some (Ret space t) \<and> cr3 t = pml4_physical space \<and>
    space_map t (cr3 t) = kernel_map (memmap_regions entries) hhdm (kernel_layout vbase pbase syms) \<and>
    (\<forall>P \<in> tree_tables t (cr3 t). space_map t (cr3 t) (physical_to_virtual t P) = Some (P, direct_flags)) \<and>
    vm_wf t (cr3 t) \<and> g_hhdm_offset t = hhdm \<and> 4096 * unat (frame_count t) \<le> unat (direct_size (memmap_regions entries)) \<and>
    frames_of \<lparr>spaces = {cr3 t}, held = {}, mch = t\<rparr> \<subseteq> usable_tables (memmap_regions entries) \<and>
    (\<forall>c. \<not> in_usable (memmap_regions entries) hhdm c \<longrightarrow> mem t c = mem s c)"
proof -
  let ?r = "memmap_regions entries" and ?l = "kernel_layout vbase pbase syms"
  obtain space t v where t: "start_memory out fb entries hhdm vbase pbase syms s = Some (Ret space t)"
    "t = enter_space space fb hhdm vbase pbase syms v" "vm_wf v (pml4_physical space)" "g_hhdm_offset v = hhdm"
    "4096 * unat (frame_count v) \<le> unat (direct_size ?r)" "space_map v (pml4_physical space) = kernel_map ?r hhdm ?l"
    "free_tables v \<union> tree_tables v (pml4_physical space) \<subseteq> usable_tables ?r" "\<forall>c. \<not> in_usable ?r hhdm c \<longrightarrow> mem v c = mem s c"
    using start_memory_enters [of entries pbase hhdm vbase syms out fb s] ok by (auto simp: boot_ok_def)
  have same: "mem t = mem v" "g_hhdm_offset t = g_hhdm_offset v" "cr3 t = pml4_physical space"
    by (simp_all add: t(2) enter_space_same)
  have m: "space_map t (cr3 t) = kernel_map ?r hhdm ?l" using space_map_cong [OF same(1,2)] t(6) same(3) by simp
  have tt: "tree_tables t (cr3 t) = tree_tables v (pml4_physical space)"
    by (simp add: tree_tables_def same(3) walk_cong [OF same(1,2)])
  have "free_frames t = free_frames v"
    by (simp add: t(2) free_frames_def frame_valid_def frame_used_def bitmap_get_def enter_space_same)
  then have fr: "frames_of \<lparr>spaces = {cr3 t}, held = {}, mch = t\<rparr> \<subseteq> usable_tables ?r"
    using t(7) tt by (simp add: frames_of_def free_tables_def)
  from tt have "space_map t (cr3 t) (physical_to_virtual t P) = Some (P, direct_flags)" if "P \<in> tree_tables t (cr3 t)" for P
    using tree_table_reachable [OF t(3), of P ?r ?l] that t(4-6) m by (simp add: physical_to_virtual_def same(2))
  moreover have "vm_wf t (cr3 t)" using enter_space_wf [OF t(3)] by (simp add: t(2) enter_space_same)
  moreover have "frame_count t = frame_count v" by (simp add: t(2) enter_space_same)
  ultimately show ?thesis using t(1,4,5,8) same m fr by (intro exI [of _ space] exI [of _ t]) simp
qed

text \<open>From here on, whatever the memory managers are asked to do and the processor marks.\<close>

lemma unmarked_kernel_map: "unmarked (kernel_map regions hhdm layout) = kernel_map regions hhdm layout"
proof
  fix w
  have "clear_marks f = f" if "kernel_map regions hhdm layout w = Some (p, f)" for p f
    using that by (auto simp: kernel_map_def image_map_def clear_marks_def flags_or_def PF_defs split: if_splits)
  then show "unmarked (kernel_map regions hhdm layout) w = kernel_map regions hhdm layout w"
    by (cases "kernel_map regions hhdm layout w") (auto simp: unmarked_def)
qed

lemma booted_steps:
  assumes "boot_ok boot syms fb entries hhdm vbase pbase"
    "start_memory out fb entries hhdm vbase pbase syms s = Some (Ret space t)"
    "vm_steps \<lparr>spaces = {cr3 t}, held = {}, mch = t\<rparr> ops w"
  shows "vm_inv w" "kernel_map (memmap_regions entries) hhdm (kernel_layout vbase pbase syms) \<subseteq>\<^sub>m unmarked (space_map (mch w) (cr3 t))"
    "\<forall>op \<in> set ops. \<not> maps_in (cr3 t) op \<Longrightarrow>
       unmarked (space_map (mch w) (cr3 t)) = kernel_map (memmap_regions entries) hhdm (kernel_layout vbase pbase syms)"
    "table_ok (mch w) P \<Longrightarrow> unmarked (space_map (mch w) (cr3 t)) (physical_to_virtual (mch w) P) = Some (P, direct_flags)"
    "frames_of w \<subseteq> usable_tables (memmap_regions entries)" "g_hhdm_offset (mch w) = hhdm" "cr3 t \<in> spaces w"
proof -
  let ?m = "kernel_map (memmap_regions entries) hhdm (kernel_layout vbase pbase syms)"
  have t: "space_map t (cr3 t) = ?m" "vm_wf t (cr3 t)" "g_hhdm_offset t = hhdm"
    "4096 * unat (frame_count t) \<le> unat (direct_size (memmap_regions entries))"
    "frames_of \<lparr>spaces = {cr3 t}, held = {}, mch = t\<rparr> \<subseteq> usable_tables (memmap_regions entries)"
    using kernel_space_entered [OF assms(1), of out s] assms(2) by auto
  note r = vm_steps_effect [OF assms(3) vm_inv_single [OF t(2)], unfolded run_effect_def]
  then show inv: "vm_inv w" and grow: "?m \<subseteq>\<^sub>m unmarked (space_map (mch w) (cr3 t))"
    and "\<forall>op \<in> set ops. \<not> maps_in (cr3 t) op \<Longrightarrow> unmarked (space_map (mch w) (cr3 t)) = ?m"
    by (simp_all add: t(1) unmarked_kernel_map)
  show "frames_of w \<subseteq> usable_tables (memmap_regions entries)" "cr3 t \<in> spaces w" using r t(5) by auto
  show "g_hhdm_offset (mch w) = hhdm" using r t(3) by simp
  have w: "g_hhdm_offset (mch w) = hhdm" "frame_count (mch w) = frame_count t" using r t(3) by simp_all
  assume "table_ok (mch w) P"
  then have "?m (physical_to_virtual (mch w) P) = Some (P, direct_flags)"
    using kernel_map_table [OF vm_invD(1) [OF inv]] t(4) w by metis
  with grow show "unmarked (space_map (mch w) (cr3 t)) (physical_to_virtual (mch w) P) = Some (P, direct_flags)"
    by (rule map_leD)
qed

end
