(* ===== verification/Boot_Faults.thy ===== *)
theory Boot_Faults
  imports Boot_Correct
begin

text \<open>
  Exceptions after the switch of CR3. The tables that \<open>gdt::init\<close> and \<open>idt::init\<close> load, the stubs of
  \<open>isr.S\<close> and the stack are still mapped by the kernel's own page tables, with the rights that the
  delivery of an exception and the handler need, so every one of the 32 exceptions reaches the handler
  and is reported. What is written on the way are stack cells, which are apart from the page tables.
\<close>

section \<open>The exception path in the kernel map\<close>

lemma stub_at_address:
  assumes "distinct (map stubs [0..<32])" "v < 32"
  shows "stub_at stubs (stubs v) = Some v"
proof -
  have "stubs i = stubs v \<longleftrightarrow> i = v" if "i < 32" for i
    using that assms by (auto simp: distinct_map inj_on_def)
  then have "find (\<lambda>i. stubs i = stubs v) [0..<32] = find (\<lambda>i. i = v) [0..<32]"
    by (intro find_cong) simp_all
  also have "\<dots> = Some v"
    unfolding find_Some_iff using assms(2) by (intro exI [of _ v]) simp
  finally show ?thesis by (simp add: stub_at_def)
qed

lemma kernel_map_image:
  assumes "memory_ok regions hhdm layout" "image_start layout \<le> w"
  shows "kernel_map regions hhdm layout w = image_map layout w"
proof -
  have "unat hhdm + unat (direct_size regions) \<le> unat w"
    using assms by (simp add: memory_ok_def word_le_nat_alt)
  then show ?thesis by (auto simp: kernel_map_def word_less_nat_alt unat_sub_if')
qed

lemma layout_order:
  assumes "layout_ok layout"
  shows "unat (image_start layout) \<le> unat (text_start layout)" "unat (text_start layout) \<le> unat (rodata_start layout)"
    "unat (rodata_start layout) \<le> unat (data_start layout)"
  using assms by (simp_all add: layout_ok_def segment_ok_def)

lemma kernel_map_text:
  assumes "memory_ok regions hhdm layout" "text_start layout \<le> w" "w < rodata_start layout"
  shows "kernel_map regions hhdm layout w = Some (image_phys layout w, flags_or PF_None PF_Present)"
proof -
  have o: "layout_ok layout" using assms(1) by (simp add: memory_ok_def)
  with assms layout_order [OF o] show ?thesis
    by (subst kernel_map_image) (auto simp: image_map_def word_le_nat_alt word_less_nat_alt)
qed

lemma kernel_map_data:
  assumes "memory_ok regions hhdm layout" "data_start layout \<le> w" "w < data_end_rounded layout"
  shows "kernel_map regions hhdm layout w =
    Some (image_phys layout w, flags_or (flags_or PF_Writable PF_NoExecute) PF_Present)"
proof -
  have o: "layout_ok layout" using assms(1) by (simp add: memory_ok_def)
  with assms layout_order [OF o] show ?thesis
    by (subst kernel_map_image) (auto simp: image_map_def word_le_nat_alt word_less_nat_alt)
qed

lemma data_readable:
  assumes "memory_ok regions hhdm layout" "kernel_map regions hhdm layout \<subseteq>\<^sub>m unmarked (space_map s (cr3 s))"
    "unat (data_start layout) \<le> unat a" "unat a + n \<le> unat (data_end_rounded layout)"
  shows "readable s a n"
proof -
  have "space_map s (cr3 s) (a + of_nat i) \<noteq> None" if "i < n" for i
  proof -
    have "unat (a + of_nat i) = unat a + i"
      using that assms(4) u64_bound [of "data_end_rounded layout"]
      by (simp add: unat_word_ariths unsigned_of_nat take_bit_nat_eq_self)
    then show ?thesis
      using map_leD [OF assms(2) kernel_map_data [OF assms(1), of "a + of_nat i"]] that assms(3,4)
      by (auto simp: word_le_nat_alt word_less_nat_alt unmarked_def)
  qed
  then show ?thesis by (simp add: readable_def list_all_iff)
qed

lemma unat_sub_le: "unat b \<le> unat a \<Longrightarrow> unat (a - b :: u64) = unat a - unat b"
  by (simp add: unat_sub_if')

lemma direct_writable:
  assumes "kernel_map regions hhdm layout \<subseteq>\<^sub>m unmarked (space_map s (cr3 s))"
    "unat hhdm \<le> unat a" "unat a + n \<le> unat hhdm + unat (direct_size regions)" "unat a + n < 2 ^ 64"
  shows "writable s a n"
proof -
  have "case space_map s (cr3 s) (a + of_nat i) of None \<Rightarrow> False | Some (_, f) \<Rightarrow> bit f 1" if i: "i < n" for i
  proof -
    let ?w = "a + of_nat i"
    have "unat ?w = unat a + i"
      using i assms(4) by (simp add: unat_word_ariths unsigned_of_nat take_bit_nat_eq_self)
    then have "unat (?w - hhdm) < unat (direct_size regions)" using i assms(2,3) by (simp add: unat_sub_if')
    then have "kernel_map regions hhdm layout ?w = Some (?w - hhdm, direct_flags)" by (simp add: kernel_map_def word_less_nat_alt)
    then obtain g where g: "space_map s (cr3 s) ?w = Some (?w - hhdm, g)" "bit g 1 = bit direct_flags 1"
      using unmarkedD [OF map_leD [OF assms(1)]] by fastforce
    have "bit direct_flags 1" by (simp add: flags_or_def bit_or_iff)
    then show ?thesis using g(2) unfolding g(1) by simp
  qed
  then show ?thesis by (simp add: writable_def list_all_iff)
qed

lemma stack_writable:
  assumes "kernel_map regions hhdm layout \<subseteq>\<^sub>m unmarked (space_map s (cr3 s))" "stack_ok hhdm regions use regs"
  shows "writable s ((rg_rsp regs AND NOT 0xF) - 176) 176"
    "writable s (handler_low use ((rg_rsp regs AND NOT 0xF) - 176)) (8 * Suc (hs_words use))"
proof -
  let ?p = "rg_rsp regs AND NOT 0xF" and ?n = "8 * Suc (hs_words use)"
  obtain b where b: "unat hhdm + b + 8 * (23 + hs_words use) \<le> unat ?p" "unat ?p \<le> unat hhdm + unat (direct_size regions)"
    using assms(2) by (auto simp: stack_ok_def)
  have n: "?n + 176 \<le> unat ?p" "unat hhdm + (?n + 176) \<le> unat ?p" using b(1) by simp_all
  have p: "unat (?p - 176) = unat ?p - 176" using n(1) by (simp add: unat_sub_if')
  have "unat (of_nat ?n :: u64) = ?n" by (rule unat_of_nat_u64) (use n(1) u64_bound [of ?p] in linarith)
  then have "unat (8 * of_nat (Suc (hs_words use)) :: u64) = ?n" by simp
  moreover have "?n \<le> unat (?p - 176)" using n(1) p by linarith
  ultimately have l: "unat (handler_low use (?p - 176)) = unat ?p - 176 - ?n"
    unfolding handler_low_def using unat_sub_le [of "8 * of_nat (Suc (hs_words use))" "?p - 176"] p by simp
  show "writable s (?p - 176) 176" by (rule direct_writable [OF assms(1)]) (use n b(2) p u64_bound [of ?p] in linarith)+
  show "writable s (handler_low use (?p - 176)) ?n"
    by (rule direct_writable [OF assms(1)]) (use n b(2) l u64_bound [of ?p] in linarith)+
qed

section \<open>Delivery\<close>

lemma gate_fields:
  "selector (make_entry h sel i attr) = sel" "type_attr (make_entry h sel i attr) = attr"
  by (simp_all add: make_entry_def)

lemma loaded_tables:
  assumes "length (idt g) = 256" "v < 32"
  shows "limit (idtr (idt_init a stubs (gdt_init b g))) = 4095" "pointer_base (idtr (idt_init a stubs (gdt_init b g))) = a"
    "gdtr (idt_init a stubs (gdt_init b g)) = gdt_pointer b"
    "idt (idt_init a stubs (gdt_init b g)) ! v = make_entry (stubs ! v) kKernelCodeSelector 0 0x8E"
  using idt_init_nth(2) [of "gdt_init b g" v a stubs] assms by (simp_all add: idt_init_def lidt_def gdt_init_def)

lemma kernel_deliverable:
  assumes m: "memory_ok regions hhdm layout" "kernel_map regions hhdm layout \<subseteq>\<^sub>m unmarked (space_map (mach k) (cr3 (mach k)))"
    and y: "symbols_ok layout syms" and st: "stack_ok hhdm regions use regs" and v: "v < 32"
    and g: "length (idt g) = 256" "segs k = idt_init (sym_idt syms) (isr_stub_table (sym_isr_stub syms)) (gdt_init (sym_gdt syms) g)"
  shows "deliverable v regs k"
proof -
  note l = loaded_tables [OF g(1) v, of "sym_idt syms" "isr_stub_table (sym_isr_stub syms)" "sym_gdt syms", folded g(2)]
  have u: "unat (sym_idt syms + 16 * of_nat v) = unat (sym_idt syms) + 16 * v" "unat (sym_gdt syms + 8) = unat (sym_gdt syms) + 8"
    using y v u64_bound [of "data_end_rounded layout"]
    by (simp_all add: symbols_ok_def unat_word_ariths unsigned_of_nat take_bit_nat_eq_self)
  have "readable (mach k) (sym_idt syms + 16 * of_nat v) 16"
    by (rule data_readable [OF m]) (use y v in \<open>simp_all add: symbols_ok_def u\<close>)
  moreover have "readable (mach k) (sym_gdt syms + 8) 8"
    by (rule data_readable [OF m]) (use y in \<open>simp_all add: symbols_ok_def u\<close>)
  moreover have "executable (mach k) (sym_isr_stub syms v)"
    using unmarkedD [OF map_leD [OF m(2) kernel_map_text [OF m(1), of "sym_isr_stub syms v"]]] y v
    by (auto simp: executable_def symbols_ok_def list_all_iff flags_or_def bit_or_iff)
  moreover have "\<exists>d. selected gdt (gdt_pointer (sym_gdt syms)) kKernelCodeSelector = Some d \<and> code64 d"
    by (rule kernel_code_selected)
  ultimately show ?thesis
    using stack_writable(1) [OF m(2) st] v
    by (auto simp: deliverable_def Let_def l gate_handler_make_entry gate_fields gdt_pointer_def kKernelCodeSelector_def)
qed

text \<open>What the processor, the stub and the handler write are the stack cells.\<close>

lemma and_minus_16: "take_bit 4 (x :: u64) = 0 \<Longrightarrow> x AND (- 16) = x"
proof -
  assume x: "take_bit 4 x = 0"
  have "(- 16 :: u64) = NOT (mask 4)" by (simp add: mask_eq_exp_minus_1)
  then have e: "x AND (- 16) = x AND NOT (mask 4)" by (simp only:)
  have "\<not> bit x n" if "n < 4" for n using arg_cong [OF x, of "\<lambda>w. bit w n"] that by (simp add: bit_take_bit_iff)
  then show ?thesis unfolding e by (intro bit_word_eqI) (auto simp only: bit_and_iff bit_not_iff bit_mask_iff possible_bit_word)
qed

lemma frame_aligned: "take_bit 4 (((x :: u64) AND NOT 0xF) - 176) = 0"
proof -
  have "(0xF :: u64) = mask 4" by (simp add: mask_eq_exp_minus_1)
  moreover have "x AND NOT (mask 4) = push_bit 4 (drop_bit 4 x)" by (rule bit_word_eqI) (auto simp: bit_simps)
  ultimately have "(x AND NOT 0xF) - 176 = push_bit 4 (drop_bit 4 x) - 176" by (simp only:)
  also have "\<dots> = push_bit 4 (drop_bit 4 x - 11)" by (simp add: push_bit_eq_mult left_diff_distrib)
  finally show ?thesis by (simp only: take_bit_push_bit) simp
qed

lemma handler_entry:
  assumes "st = push_all (isr_pushes v code regs) (rg_rsp regs AND NOT 0xF, m)"
  shows "isr_call_rsp st = (rg_rsp regs AND NOT 0xF) - 176" "c \<notin> stack_cells use regs \<Longrightarrow> snd st c = m c"
proof -
  let ?p = "rg_rsp regs AND NOT 0xF"
  have len: "length (isr_pushes v code regs) = 22" by (simp add: isr_pushes_def)
  have f: "fst st = ?p - 176" using push_all_top [of "isr_pushes v code regs" ?p m] by (simp add: assms len)
  have "(?p - 176) AND (- 16) = ?p - 176" by (rule and_minus_16 [OF frame_aligned])
  then show "isr_call_rsp st = ?p - 176" by (simp add: isr_call_rsp_def f)
  assume c: "c \<notin> stack_cells use regs"
  show "snd st c = m c"
    unfolding assms by (rule push_all_other) (use c in \<open>auto simp: stack_cells_def len\<close>)
qed

lemma scribble_other:
  assumes "c \<notin> stack_cells use regs"
  shows "scribble use ((rg_rsp regs AND NOT 0xF) - 176) s c = mem s c"
proof -
  let ?p = "rg_rsp regs AND NOT 0xF"
  have "c \<noteq> ?p - 176 - 8 * of_nat (Suc i)" if "i < Suc (hs_words use)" for i
  proof -
    have "?p - 176 - 8 * of_nat (Suc i) = ?p - 8 * of_nat (Suc (22 + i))" by (simp add: algebra_simps)
    moreover have "22 + i < 23 + hs_words use" using that by simp
    ultimately show ?thesis using assms unfolding stack_cells_def by blast
  qed
  then show ?thesis by (auto simp: scribble_def list_ex_iff simp del: upt_Suc of_nat_Suc)
qed

lemma raise_exception_reports:
  assumes d: "deliverable v regs k" and u: "distinct (map stubs [0..<32])" "v < 32"
    and g: "length (idt g) = 256" "segs k = idt_init a (isr_stub_table stubs) (gdt_init b g)"
    and w: "\<And>m. (\<And>c. c \<notin> stack_cells use regs \<Longrightarrow> m c = mem (mach k) c) \<Longrightarrow>
      writable ((mach k)\<lparr>mem := m\<rparr>) (handler_low use ((rg_rsp regs AND NOT 0xF) - 176)) (8 * Suc (hs_words use))"
  shows "\<exists>t. raise_exception use stubs v code fault_address regs k = Halted (k\<lparr>mach := t\<rparr>) \<and> cr3 t = cr3 (mach k) \<and>
    g_hhdm_offset t = g_hhdm_offset (mach k) \<and> (\<forall>c. c \<notin> stack_cells use regs \<longrightarrow> mem t c = mem (mach k) c) \<and>
    prints (mach k) t (report_text fault_address (frame_of v code regs))"
proof -
  have e: "gate_handler (idt (segs k) ! v) = stubs v"
    using loaded_tables(4) [OF g(1) u(2)] u(2) by (simp add: g(2) gate_handler_make_entry)
  obtain stub where stub: "isr_stub v = Some stub"
    "isr_common_push regs (stub (cpu_deliver v code regs (mem (mach k)))) =
       push_all (isr_pushes v code regs) (rg_rsp regs AND NOT 0xF, mem (mach k))"
    using isr_entry_pushes [OF u(2)] by blast
  let ?st = "isr_common_push regs (stub (cpu_deliver v code regs (mem (mach k))))"
  let ?s = "(mach k)\<lparr>mem := snd ?st\<rparr>" and ?m = "scribble use (isr_call_rsp ?st) ((mach k)\<lparr>mem := snd ?st\<rparr>)"
  note h = handler_entry [OF stub(2)]
  have f: "frame_at (snd ?st) (fst ?st) = frame_of v code regs"
    using isr_frame_contents [OF u(2), of regs code "mem (mach k)"] stub(1) by auto
  obtain t where t: "isr_handler fault_address (frame_of v code regs) ?s = Halt t" "t = ?s\<lparr>klog := klog t\<rparr>"
    "prints ?s t (report_text fault_address (frame_of v code regs))"
    using isr_handler_halts [of fault_address "frame_of v code regs" ?s] by auto
  have "writable ?s (handler_low use (isr_call_rsp ?st)) (8 * Suc (hs_words use))" unfolding h(1) by (rule w) (rule h(2))
  then have "raise_exception use stubs v code fault_address regs k = Halted (k\<lparr>mach := t\<lparr>mem := ?m\<rparr>\<rparr>)"
    using t(1) f stub_at_address [OF u] stub(1) d by (simp add: raise_exception_def Let_def e)
  moreover have "cr3 t = cr3 (mach k)" "g_hhdm_offset t = g_hhdm_offset (mach k)" by (subst t(2), simp)+
  moreover have "?m c = mem (mach k) c" if "c \<notin> stack_cells use regs" for c
    unfolding h(1) using scribble_other [OF that, of ?s] h(2) [OF that] by simp
  ultimately show ?thesis using t(3) by (intro exI [of _ "t\<lparr>mem := ?m\<rparr>"]) (simp add: prints_def)
qed

text \<open>Under the kernel's own page tables.\<close>

lemma stack_spares_tables:
  assumes "memory_ok regions hhdm layout" "memmap_apart regions" "stack_ok hhdm regions use regs"
    "g_hhdm_offset s = hhdm" "P \<in> usable_tables regions" "c \<in> table_cells (physical_to_virtual s P)"
  shows "c \<notin> stack_cells use regs"
  using usable_table_cells [of regions hhdm P c] assms stack_not_usable [OF assms(2,3)]
  by (simp add: memory_ok_def range_ok_def physical_to_virtual_def)

lemma kernel_exception:
  assumes m: "memory_ok regions hhdm layout" "kernel_map regions hhdm layout \<subseteq>\<^sub>m unmarked (space_map (mach k) (cr3 (mach k)))"
    and y: "symbols_ok layout syms" and st: "memmap_apart regions" "stack_ok hhdm regions use regs" and v: "v < 32"
    and g: "length (idt g) = 256" "segs k = idt_init (sym_idt syms) (isr_stub_table (sym_isr_stub syms)) (gdt_init (sym_gdt syms) g)"
    and h: "g_hhdm_offset (mach k) = hhdm" "tree_tables (mach k) (cr3 (mach k)) \<subseteq> usable_tables regions"
  shows "\<exists>t. raise_exception use (sym_isr_stub syms) v code fault_address regs k = Halted (k\<lparr>mach := t\<rparr>) \<and>
    cr3 t = cr3 (mach k) \<and> g_hhdm_offset t = hhdm \<and> (\<forall>c. c \<notin> stack_cells use regs \<longrightarrow> mem t c = mem (mach k) c) \<and>
    prints (mach k) t (report_text fault_address (frame_of v code regs))"
proof -
  have d: "distinct (map (sym_isr_stub syms) [0..<32])" using y by (simp add: symbols_ok_def)
  have w: "writable ((mach k)\<lparr>mem := n\<rparr>) (handler_low use ((rg_rsp regs AND NOT 0xF) - 176)) (8 * Suc (hs_words use))"
    if n: "\<And>c. c \<notin> stack_cells use regs \<Longrightarrow> n c = mem (mach k) c" for n
  proof -
    have "space_map ((mach k)\<lparr>mem := n\<rparr>) (cr3 (mach k)) = space_map (mach k) (cr3 (mach k))"
      by (rule space_map_agree(1)) (use n h(2) stack_spares_tables [OF m(1) st h(1)] in auto)
    then show ?thesis using stack_writable(2) [of regions hhdm layout "(mach k)\<lparr>mem := n\<rparr>" use regs] m(2) st(2) by simp
  qed
  show ?thesis
    using raise_exception_reports [OF kernel_deliverable [OF m y st(2) v g] d v g w, of code fault_address] h(1) by auto
qed

section \<open>CR3 and the memory managers\<close>

lemma free_frame_cr3 [simp]: "cr3 (free_frame a s) = cr3 s"
  by (simp add: free_frame_def Let_def bitmap_set_def)

lemma vm_step_cr3: "vm_step v op w \<Longrightarrow> cr3 (mch w) = cr3 (mch v)"
proof (induction rule: vm_step.induct)
  case (alloc_step v a t)
  then show ?case using quiet_alloc_scan [of "mch v" 0] by (simp add: alloc_frame_def quiet_def)
qed (auto simp: quiet_def mark_entry_def set_entry_def dest: quiet_create_address_space quiet_map_page quiet_map_page_large quiet_map_range quiet_map_range_large)

lemma vm_steps_cr3: "vm_steps v ops w \<Longrightarrow> cr3 (mch w) = cr3 (mch v)"
  by (induction rule: vm_steps.induct) (simp_all add: vm_step_cr3)

end
