(* ===== verification/Boot_Console.thy ===== *)
theory Boot_Console
  imports Boot_Faults
begin

text \<open>
  The console text of a successful start, as a function of the bootloader's answers: what \<open>kmain\<close>,
  \<open>mm::init\<close> and the diagnostics before the switch of CR3 print, with the numbers they must show.
\<close>

section \<open>The text\<close>

definition map_text :: "MemoryRegion \<Rightarrow> string" where
  "map_text r = ''  '' @ pointer_string (base r) @ '' - '' @ pointer_string (base r + length_of r) @
     ''  length='' @ dec (length_of r) @ ''  type='' @ region_type_name (type_of r) @ ''\<newline>''"

definition segment_text :: "string \<Rightarrow> u64 \<Rightarrow> u64 \<Rightarrow> (u64 \<Rightarrow> u64) \<Rightarrow> string" where
  "segment_text name a b g = name @ ''virt='' @ pointer_string a @ ''-'' @ pointer_string b @ '' size='' @ dec (b - a) @
     '' phys='' @ pointer_string (g a) @ ''-'' @ pointer_string (g b) @ ''\<newline>''"

definition translation_text :: "string \<Rightarrow> u64 \<Rightarrow> u64 \<Rightarrow> string" where
  "translation_text name a p = name @ pointer_string a @ '' -> '' @ pointer_string p @ '' (expect '' @ pointer_string p @ '')\<newline>''"

definition image_text :: "u64 \<Rightarrow> u64 \<Rightarrow> linker_symbols \<Rightarrow> string" where
  "image_text vbase pbase syms =
     (let g = image_virtual_to_physical vbase pbase
      in ''kernel virtual base:  '' @ pointer_string vbase @ ''\<newline>kernel physical base: '' @ pointer_string pbase @
         ''\<newline>kernel physical base verified\<newline>'' @
         segment_text ''.text:   '' (sym_text_start syms) (sym_text_end syms) g @
         segment_text ''.rodata: '' (sym_rodata_start syms) (sym_rodata_end syms) g @
         segment_text ''.data:   '' (sym_data_start syms) (sym_data_end syms) g)"

text \<open>The frames that are free after initialisation, from the memory map alone.\<close>

definition bitmap_base :: "MemoryRegion list \<Rightarrow> u64" where
  "bitmap_base regions = the (find_bitmap_region regions (init_pages regions))"

definition initial_free :: "MemoryRegion list \<Rightarrow> u64 set" where
  "initial_free regions = {f. (\<exists>r \<in> set regions. type_of r = Usable \<and> frame_inside f r) \<and>
     \<not> (unat (bitmap_base regions) div 4096 \<le> unat f \<and>
        unat f < unat (bitmap_base regions) div 4096 + unat (init_pages regions))}"

definition memmap_text :: "MemoryRegion list \<Rightarrow> string" where
  "memmap_text regions = ''\<newline>Memory map:\<newline>'' @ concat (map map_text regions) @
     ''Total usable memory: '' @ dec (usable_sum regions 0) @ '' bytes\<newline>''"

definition pmm_text :: "MemoryRegion list \<Rightarrow> u64 \<Rightarrow> string" where
  "pmm_text regions hhdm =
     (let n = of_nat (card (initial_free regions))
      in memmap_text regions @ ''PMM:\<newline>  highest usable: '' @
         pointer_string (usable_top regions 0) @ ''\<newline>  frame count:    '' @ dec (init_frame_count regions) @
         ''\<newline>  bitmap phys:    '' @ pointer_string (bitmap_base regions) @
         ''\<newline>  bitmap virt:    '' @ pointer_string (hhdm + bitmap_base regions) @
         ''\<newline>  bitmap bytes:   '' @ dec (init_words regions * 8) @ ''\<newline>  bitmap words:   '' @ dec (init_words regions) @
         ''\<newline>  bitmap pages:   '' @ dec (init_pages regions) @ ''\<newline>  free frames:    '' @ dec n @
         ''\<newline>  free memory:    '' @ dec (n * kPageSize) @ '' bytes\<newline>  bitmap initialized\<newline>'')"

definition space_text :: "u64 \<Rightarrow> framebuffer \<Rightarrow> u64 \<Rightarrow> (u64 \<Rightarrow> u64) \<Rightarrow> linker_symbols \<Rightarrow> string" where
  "space_text root fb hhdm g syms =
     ''pml4 physical:   '' @ pointer_string root @ ''\<newline>direct map:      '' @ pointer_string (hhdm + 0x1000) @ '' -> '' @
     pointer_string 0x1000 @ '' (expect 0x1000)\<newline>'' @
     translation_text ''framebuffer:     '' (fb_address fb) (fb_address fb - hhdm) @
     translation_text ''image:           '' (sym_limine_requests_start syms) (g (sym_limine_requests_start syms)) @
     translation_text ''.text:           '' (sym_text_start syms) (g (sym_text_start syms)) @
     translation_text ''.data:           '' (sym_data_start syms) (g (sym_data_start syms)) @
     ''loading cr3...\<newline>cr3 loaded\<newline>''"

definition boot_text :: "framebuffer \<Rightarrow> memmap_entry list \<Rightarrow> u64 \<Rightarrow> u64 \<Rightarrow> u64 \<Rightarrow> linker_symbols \<Rightarrow> string" where
  "boot_text fb entries hhdm vbase pbase syms =
     (let regions = memmap_regions entries
      in ''WaterBuffalo booting\<newline>framebuffer acquired\<newline>'' @ image_text vbase pbase syms @ pmm_text regions hhdm @
         space_text (Min (initial_free regions) * kPageSize) fb hhdm (image_virtual_to_physical vbase pbase) syms @ ''done\<newline>'')"

section \<open>The calls print it\<close>

lemma prints_printf': "prints s t x \<Longrightarrow> render f a = Inr y \<Longrightarrow> z = x @ y \<Longrightarrow> prints s (log_printf f a t) z"
  by (simp add: prints_printf)

lemma prints_segment:
  assumes "prints s t x" "plain name"
  shows "prints s (log_segment name a b g t) (x @ segment_text name a b g)"
  unfolding log_segment_def using render_append_plain [OF assms(2)]
  by (intro prints_printf [OF assms(1)]) (simp add: print_conversions segment_text_def)

lemma prints_translation:
  assumes "prints s t x" "plain name"
  shows "prints s (log_translation name a p p t) (x @ translation_text name a p)"
  unfolding log_translation_def using render_append_plain [OF assms(2)]
  by (intro prints_printf [OF assms(1)]) (simp add: print_conversions translation_text_def)

lemma log_image_prints: "prints s (log_image vbase pbase syms s) (image_text vbase pbase syms)"
proof -
  let ?x = "''kernel virtual base:  '' @ pointer_string vbase @ ''\<newline>kernel physical base: '' @ pointer_string pbase @
    ''\<newline>kernel physical base verified\<newline>''"
  have "prints s (log_printf ''kernel physical base verified\<newline>'' [] (log_bases vbase pbase s)) ?x"
    unfolding log_bases_def
    by (rule prints_printf' [OF prints_printf' [OF prints_printf' [OF prints_refl]]]) (simp add: print_conversions)+
  then have "prints s (log_image vbase pbase syms s)
      (((?x @ segment_text ''.text:   '' (sym_text_start syms) (sym_text_end syms) (image_virtual_to_physical vbase pbase)) @
        segment_text ''.rodata: '' (sym_rodata_start syms) (sym_rodata_end syms) (image_virtual_to_physical vbase pbase)) @
       segment_text ''.data:   '' (sym_data_start syms) (sym_data_end syms) (image_virtual_to_physical vbase pbase))"
    unfolding log_image_def Let_def by (intro prints_segment) simp_all
  then show ?thesis by (simp add: image_text_def Let_def)
qed

lemma console_text_map: "console_text (map map_line regions) = Inr (concat (map map_text regions))"
  by (induction regions) (simp_all add: map_line_def map_text_def print_conversions)

text \<open>The calls of \<open>init\<close>.\<close>

lemma pmm_init_log:
  assumes "pmm_init regions hhdm s = Ret u t"
  shows "klog t = klog s @ [Kprintf ''\<newline>Memory map:\<newline>'' []] @ map map_line regions @
    [Kprintf ''Total usable memory: %lu bytes\<newline>'' [Word (usable_sum regions 0)],
     Kprintf (''PMM:\<newline>'' @ ''  highest usable: %p\<newline>'' @ ''  frame count:    %lu\<newline>'' @
         ''  bitmap phys:    %p\<newline>'' @ ''  bitmap virt:    %p\<newline>'' @ ''  bitmap bytes:   %lu\<newline>'' @
         ''  bitmap words:   %lu\<newline>'' @ ''  bitmap pages:   %lu\<newline>'')
       [Ptr (usable_top regions 0), Word (init_frame_count regions), Ptr (bitmap_base regions),
        Ptr (hhdm + bitmap_base regions), Word (init_words regions * 8), Word (init_words regions), Word (init_pages regions)],
     Kprintf ''  free frames:    %lu\<newline>'' [Word (free_frame_count t)],
     Kprintf ''  free memory:    %lu bytes\<newline>'' [Word (free_frame_count t * kPageSize)],
     Kprintf ''  bitmap initialized\<newline>'' []]"
proof -
  obtain phys where f: "usable_top regions 0 \<noteq> 0" "find_bitmap_region regions (init_pages regions) = Some phys"
    using pmm_init_Ret [OF assms] by blast
  then have b: "bitmap_base regions = phys" by (simp add: bitmap_base_def)
  obtain s0 where s0: "t = init_fill_bitmap regions (init_pages regions) s0"
    and k: "klog s0 = klog s @ [Kprintf ''\<newline>Memory map:\<newline>'' []] @ map map_line regions @
      [Kprintf ''Total usable memory: %lu bytes\<newline>'' [Word (usable_sum regions 0)],
       Kprintf (''PMM:\<newline>'' @ ''  highest usable: %p\<newline>'' @ ''  frame count:    %lu\<newline>'' @
           ''  bitmap phys:    %p\<newline>'' @ ''  bitmap virt:    %p\<newline>'' @ ''  bitmap bytes:   %lu\<newline>'' @
           ''  bitmap words:   %lu\<newline>'' @ ''  bitmap pages:   %lu\<newline>'')
         [Ptr (usable_top regions 0), Word (init_frame_count regions), Ptr phys,
          Ptr (hhdm + phys), Word (init_words regions * 8), Word (init_words regions), Word (init_pages regions)]]"
    using assms f unfolding pmm_init_def Let_def init_scan_eq init_sizes by (auto simp: log_printf_def)
  show ?thesis unfolding s0 init_fill_bitmap_log k b by (simp flip: s0)
qed

lemma pmm_init_prints:
  assumes "usable_in_range regions" "usable_disjoint regions" "pmm_init regions hhdm s = Ret u t"
  shows "free_frames t = initial_free regions" "prints s t (pmm_text regions hhdm)"
proof -
  obtain s0 phys where s0: "init_ready regions hhdm phys s s0" "find_bitmap_region regions (init_pages regions) = Some phys"
    "t = init_fill_bitmap regions (init_pages regions) s0"
    using pmm_init_Ret [OF assms(3)] by blast
  have "bitmap_phys t = bitmap_base regions"
    using init_fill_bitmap_effect(4) [OF init_shape [OF s0(1)], of regions "init_pages regions"] s0
    by (simp add: bitmap_base_def init_ready_def)
  then have "unat f \<in> reserved_frames t \<longleftrightarrow> unat (bitmap_base regions) div 4096 \<le> unat f \<and>
      unat f < unat (bitmap_base regions) div 4096 + unat (init_pages regions)" for f :: u64
    by (simp add: reserved_frames_def pmm_init_shape(4,6) [OF assms(3)] unat_init_pages)
  then show free: "free_frames t = initial_free regions"
    using pmm_init_free_frames [OF assms(1,3)] by (auto simp: initial_free_def)
  have n: "free_frame_count t = of_nat (card (initial_free regions))"
    using pmm_init_wf [OF assms] free by (simp add: pmm_wf_def)
  show "prints s t (pmm_text regions hhdm)"
    unfolding prints_def pmm_init_log [OF assms(3)] n
    by (intro exI conjI, rule refl) (simp add: console_text_append console_text_map print_conversions pmm_text_def memmap_text_def Let_def)
qed

lemma translate_cong: "mem t = mem s \<Longrightarrow> g_hhdm_offset t = g_hhdm_offset s \<Longrightarrow> translate space v t = translate space v s"
  by (simp add: translate_def Let_def physical_to_virtual_def)

lemma translate_log [simp]: "translate space v (log_printf f a s) = translate space v s"
  by (rule translate_cong) simp_all

lemma translate_log_translation: "translate space w (log_translation name a b c s) = translate space w s"
  by (rule translate_cong) (simp_all add: log_translation_def)

lemma enter_space_prints:
  assumes "translate space (hhdm + 0x1000) v = 0x1000" "translate space (fb_address fb) v = fb_address fb - hhdm"
    "\<And>a. a \<in> {sym_limine_requests_start syms, sym_text_start syms, sym_data_start syms} \<Longrightarrow>
       translate space a v = image_virtual_to_physical vbase pbase a"
  shows "prints v (enter_space space fb hhdm vbase pbase syms v)
    (space_text (pml4_physical space) fb hhdm (image_virtual_to_physical vbase pbase) syms)"
proof -
  let ?g = "image_virtual_to_physical vbase pbase"
  let ?x = "''pml4 physical:   '' @ pointer_string (pml4_physical space) @ ''\<newline>direct map:      '' @ pointer_string (hhdm + 0x1000) @
    '' -> '' @ pointer_string 0x1000 @ '' (expect 0x1000)\<newline>''"
  let ?d = "log_printf ''direct map:      %p -> %p (expect 0x1000)\<newline>'' [Word (hhdm + 0x1000), Word 0x1000]
    (log_printf ''pml4 physical:   %p\<newline>'' [Word (pml4_physical space)] v)"
  let ?y = "(((?x @ translation_text ''framebuffer:     '' (fb_address fb) (fb_address fb - hhdm)) @
    translation_text ''image:           '' (sym_limine_requests_start syms) (?g (sym_limine_requests_start syms))) @
    translation_text ''.text:           '' (sym_text_start syms) (?g (sym_text_start syms))) @
    translation_text ''.data:           '' (sym_data_start syms) (?g (sym_data_start syms))"
  have "prints v ?d ?x"
    by (rule prints_printf' [OF prints_printf' [OF prints_refl]]) (simp add: print_conversions)+
  then have "prints v (log_address_space space fb hhdm ?g syms v) ?y"
    unfolding log_address_space_def Let_def translate_log_translation translate_log assms(1,2)
    by (simp only: assms(3) insertI1 insertI2) (intro prints_translation, simp_all)
  then have "prints v (log_printf ''loading cr3...\<newline>'' [] (log_address_space space fb hhdm ?g syms v)) (?y @ ''loading cr3...\<newline>'')"
    by (rule prints_printf) simp
  then have "prints v (load_address_space space (log_printf ''loading cr3...\<newline>'' [] (log_address_space space fb hhdm ?g syms v)))
      (?y @ ''loading cr3...\<newline>'')" by (simp add: prints_def load_address_space_def)
  then have "prints v (enter_space space fb hhdm vbase pbase syms v) ((?y @ ''loading cr3...\<newline>'') @ ''cr3 loaded\<newline>'')"
    unfolding enter_space_def by (rule prints_printf) simp
  then show ?thesis by (simp add: space_text_def)
qed

section \<open>The start as a whole\<close>

text \<open>The diagnostics ask \<open>translate\<close> and get the addresses they expect.\<close>

lemma kernel_translations:
  assumes ok: "memory_ok regions hhdm (kernel_layout vbase pbase syms)"
    and screen: "screen_ok fb regions hhdm" "0 < fb_width fb" "0 < fb_height fb"
    and v: "vm_wf v root" "pml4 space = physical_to_virtual v root"
      "space_map v root = kernel_map regions hhdm (kernel_layout vbase pbase syms)"
  shows "translate space (hhdm + 0x1000) v = 0x1000" "translate space (fb_address fb) v = fb_address fb - hhdm"
    "a \<in> {sym_limine_requests_start syms, sym_text_start syms, sym_data_start syms} \<Longrightarrow>
       translate space a v = image_virtual_to_physical vbase pbase a"
proof -
  let ?l = "kernel_layout vbase pbase syms"
  have below: "unat hhdm + unat (direct_size regions) \<le> unat (image_start ?l)" and lay: "layout_ok ?l"
    and d: "range_ok 21 hhdm 0 (direct_size regions)"
    using ok by (simp_all add: memory_ok_def)
  note tr = kernel_map_translate [OF v below]
  have "take_bit 21 (direct_size regions) = 0" "direct_size regions \<noteq> 0" using d by (simp_all add: range_ok_def)
  then have "unat (direct_size regions) mod 2 ^ 21 = 0" "unat (direct_size regions) \<noteq> 0"
    using unat_take_bit [of 21 "direct_size regions"] by (simp_all add: unat_eq_0)
  then have "2 ^ 21 \<le> unat (direct_size regions)" by (metis mod_less not_less)
  then have "0x1000 < direct_size regions" by (simp add: word_less_nat_alt)
  then show "translate space (hhdm + 0x1000) v = 0x1000" by (rule tr(1))
  have "fb_address fb - hhdm < direct_size regions"
    using pixel_in_direct_map [OF screen] by (simp add: pixel_cell_def)
  then show "translate space (fb_address fb) v = fb_address fb - hhdm" using tr(1) [of "fb_address fb - hhdm"] by simp
  assume "a \<in> {sym_limine_requests_start syms, sym_text_start syms, sym_data_start syms}"
  then have "image_start ?l \<le> a" "a < data_end_rounded ?l"
    using lay by (auto simp: layout_ok_def segment_ok_def word_le_nat_alt word_less_nat_alt kernel_layout_def)
  then show "translate space a v = image_virtual_to_physical vbase pbase a"
    by (simp add: tr(2) image_phys_def image_virtual_to_physical_def kernel_layout_def)
qed

lemma start_memory_prints:
  assumes ok: "boot_ok boot syms fb entries hhdm vbase pbase" "0 < fb_width fb" "0 < fb_height fb"
    and run: "start_memory out fb entries hhdm vbase pbase syms s = Some (Ret space t)"
  shows "prints s t (image_text vbase pbase syms @ pmm_text (memmap_regions entries) hhdm @
    space_text (Min (initial_free (memmap_regions entries)) * kPageSize) fb hhdm (image_virtual_to_physical vbase pbase) syms)"
proof -
  let ?r = "memmap_regions entries"
  have o: "list_all (\<lambda>e. unat (entry_type e) < 8) entries" "kernel_physical_base_valid ?r pbase"
    "memory_ok ?r hhdm (kernel_layout vbase pbase syms)" "screen_ok fb ?r hhdm" "usable_in_range ?r" "usable_disjoint ?r"
    using ok(1) by (simp_all add: boot_ok_def memory_ok_def)
  obtain v u where v: "t = enter_space space fb hhdm vbase pbase syms v" "vm_wf v (pml4_physical space)"
    "pml4 space = physical_to_virtual v (pml4_physical space)"
    "space_map v (pml4_physical space) = kernel_map ?r hhdm (kernel_layout vbase pbase syms)"
    and u: "pmm_init ?r hhdm (log_image vbase pbase syms s) = Ret () u" "klog v = klog u"
      "pml4_physical space = Min (free_frames u) * kPageSize"
    using start_memory_enters [OF o(1-3), of out fb s] run by auto
  note i = pmm_init_prints [OF o(5,6) u(1)]
  have "prints u v []" by (rule prints_refl [OF u(2)])
  moreover have "prints v t (space_text (pml4_physical space) fb hhdm (image_virtual_to_physical vbase pbase) syms)"
    unfolding v(1) by (rule enter_space_prints; rule kernel_translations [OF o(3,4) ok(2,3) v(2-4)]; assumption)
  ultimately show ?thesis
    using prints_trans [OF prints_trans [OF log_image_prints i(2)]] prints_trans u(3) i(1) by fastforce
qed

text \<open>Drawing under the kernel's own page tables.\<close>

lemma write_fault_None: "write_fault s a n = None \<longleftrightarrow> writable s a n"
  by (auto simp: write_fault_def writable_def find_None_iff list_all_iff split: option.splits)

lemma drawn_tables:
  assumes "memory_ok regions hhdm layout" "memmap_apart regions" "screen_placed regions hhdm fb" "fb_ok fb"
    "g_hhdm_offset t = hhdm" "tree_tables t root \<subseteq> usable_tables regions" "spares fb (mem t) m"
  shows "space_map (t\<lparr>mem := m\<rparr>) root = space_map t root" "tree_tables (t\<lparr>mem := m\<rparr>) root = tree_tables t root"
proof -
  have o: "usable_in_range regions" "direct_size regions \<noteq> 0" "unat hhdm + unat (direct_size regions) < 2 ^ 64"
    using assms(1) by (simp_all add: memory_ok_def range_ok_def)
  have "m c = mem t c" if "P \<in> tree_tables t root" "c \<in> table_cells (physical_to_virtual t P)" for P c
  proof -
    have "in_usable regions hhdm c"
      using usable_table_cells [OF o, of P c] that assms(5,6) by (auto simp: physical_to_virtual_def)
    from pixel_not_usable [OF assms(2-4) this] show ?thesis using assms(7) by (simp add: spares_def)
  qed
  then show "space_map (t\<lparr>mem := m\<rparr>) root = space_map t root" "tree_tables (t\<lparr>mem := m\<rparr>) root = tree_tables t root"
    using space_map_agree [of "t\<lparr>mem := m\<rparr>" t root] by simp_all
qed

lemma kernel_drawable:
  assumes "memory_ok regions hhdm layout" "memmap_apart regions" "screen_placed regions hhdm fb" "screen_ok fb regions hhdm"
    "g_hhdm_offset t = hhdm" "tree_tables t (cr3 t) \<subseteq> usable_tables regions"
    "space_map t (cr3 t) = kernel_map regions hhdm layout"
  shows "drawable (\<lambda>m p. write_fault (t\<lparr>mem := m\<rparr>) p 4) fb (mem t)"
proof -
  have f: "fb_ok fb" "unat hhdm \<le> unat (fb_address fb)"
    "unat (fb_address fb) + unat (fb_height fb) * unat (fb_pitch fb) \<le> unat hhdm + unat (direct_size regions)"
    using assms(4) by (simp_all add: screen_ok_def)
  have D: "unat hhdm + unat (direct_size regions) < 2 ^ 64" using assms(1) by (simp add: memory_ok_def range_ok_def)
  have "writable (t\<lparr>mem := m\<rparr>) (pixel_cell fb x y) 4" if xy: "x < fb_width fb" "y < fb_height fb" and m: "spares fb (mem t) m" for x y m
  proof (rule direct_writable)
    show "kernel_map regions hhdm layout \<subseteq>\<^sub>m unmarked (space_map (t\<lparr>mem := m\<rparr>) (cr3 (t\<lparr>mem := m\<rparr>)))"
      using drawn_tables(1) [OF assms(1-3) f(1) assms(5,6) m] assms(7) unmarked_kernel_map by simp
    show "unat hhdm \<le> unat (pixel_cell fb x y)" using f(2) unat_pixel_cell [OF f(1) xy] by simp
    show "unat (pixel_cell fb x y) + 4 \<le> unat hhdm + unat (direct_size regions)"
      using f(3) pixel_extent(3) [OF f(1) xy, of "pixel_cell fb x y"] by simp
    then show "unat (pixel_cell fb x y) + 4 < 2 ^ 64" using D by linarith
  qed
  then show ?thesis by (simp add: drawable_def write_fault_None)
qed

text \<open>What the machine's memory is when it stops, relative to that at the start.\<close>

definition booted_memory ::
  "MemoryRegion list \<Rightarrow> u64 \<Rightarrow> framebuffer \<Rightarrow> handler_stack \<Rightarrow> registers \<Rightarrow> (ptr \<Rightarrow> u64) \<Rightarrow> (ptr \<Rightarrow> u64) \<Rightarrow> bool" where
  "booted_memory regions hhdm fb use regs m m' \<longleftrightarrow>
     (\<forall>x y. x < fb_width fb \<and> y < fb_height fb \<longrightarrow> load32 m' (pixel_cell fb x y) = pixel_color fb x y) \<and>
     (\<forall>c. \<not> in_usable regions hhdm c \<and> c \<notin> cell_of ` pixel_bytes fb \<and> c \<notin> stack_cells use regs \<longrightarrow> m' c = m c)"

lemma kmain_body_boots:
  assumes ok: "boot_ok boot syms fb entries hhdm vbase pbase" "0 < fb_width fb" "0 < fb_height fb"
    and pl: "memmap_apart (memmap_regions entries)" "screen_placed (memmap_regions entries) hhdm fb"
      "stack_ok hhdm (memmap_regions entries) use regs"
    and g: "length (idt g) = 256" "segs k = idt_init (sym_idt syms) (isr_stub_table (sym_isr_stub syms)) (gdt_init (sym_gdt syms) g)"
  shows "\<exists>t. kmain_body out boot syms use regs k = Some (Halted (k\<lparr>mach := t\<rparr>)) \<and>
    prints (mach k) t (boot_text fb entries hhdm vbase pbase syms @ report_text 0 (frame_of 14 2 regs)) \<and>
    space_map t (cr3 t) = kernel_map (memmap_regions entries) hhdm (kernel_layout vbase pbase syms) \<and>
    booted_memory (memmap_regions entries) hhdm fb use regs (mem (mach k)) (mem t)"
proof -
  let ?r = "memmap_regions entries" and ?l = "kernel_layout vbase pbase syms"
  let ?s = "log_serial ''framebuffer acquired\<newline>'' (log_serial ''WaterBuffalo booting\<newline>'' (mach k))"
  have o: "memory_ok ?r hhdm ?l" "symbols_ok ?l syms" "screen_ok fb ?r hhdm" "fb_ok fb"
    using ok(1) by (simp_all add: boot_ok_def screen_ok_def)
  obtain space t where t: "start_memory out fb entries hhdm vbase pbase syms ?s = Some (Ret space t)"
    "space_map t (cr3 t) = kernel_map ?r hhdm ?l" "g_hhdm_offset t = hhdm" "tree_tables t (cr3 t) \<subseteq> usable_tables ?r"
    "\<And>c. \<not> in_usable ?r hhdm c \<Longrightarrow> mem t c = mem (mach k) c"
    using kernel_space_entered [OF ok(1), of out ?s] by (auto simp: frames_of_def)
  let ?m = "paint_rows fb 0 (mem t)"
  have draw: "draw_rows (\<lambda>m p. write_fault (t\<lparr>mem := m\<rparr>) p 4) fb 0 (mem t) = Inr ?m" and sp: "spares fb (mem t) ?m"
    using draw_rows_paints [OF kernel_drawable [OF o(1) pl(1,2) o(3) t(3,4,2)]] spares_paint_rows by (simp_all add: spares_def)
  let ?k = "k\<lparr>mach := log_serial ''done\<newline>'' (t\<lparr>mem := ?m\<rparr>)\<rparr>"
  note d = drawn_tables [OF o(1) pl(1,2) o(4) t(3,4) sp]
  have map: "space_map (mach ?k) (cr3 (mach ?k)) = kernel_map ?r hhdm ?l"
    and tt: "tree_tables (mach ?k) (cr3 (mach ?k)) = tree_tables t (cr3 t)"
    using d t(2) space_map_cong [of "mach ?k" "t\<lparr>mem := ?m\<rparr>"] walk_cong [of "mach ?k" "t\<lparr>mem := ?m\<rparr>"]
    by (simp_all add: tree_tables_def)
  have "prints (mach k) ?s (([] @ ''WaterBuffalo booting\<newline>'') @ ''framebuffer acquired\<newline>'')"
    by (intro prints_serial prints_refl) simp
  from prints_trans [OF this start_memory_prints [OF ok t(1)]]
  have "prints (mach k) (t\<lparr>mem := ?m\<rparr>) ((([] @ ''WaterBuffalo booting\<newline>'') @ ''framebuffer acquired\<newline>'') @
      image_text vbase pbase syms @ pmm_text ?r hhdm @
      space_text (Min (initial_free ?r) * kPageSize) fb hhdm (image_virtual_to_physical vbase pbase) syms)"
    by (simp add: prints_def)
  from prints_serial [OF this]
  have p: "prints (mach k) (mach ?k) (boot_text fb entries hhdm vbase pbase syms)" by (simp add: boot_text_def Let_def)
  have "write_fault (mach ?k) 0 4 = Some (0, 2)"
    using kernel_map_null [OF o(1)] map by (simp add: write_fault_def upt_rec)
  then have e: "kmain_body out boot syms use regs k = Some (raise_exception use (sym_isr_stub syms) 14 2 0 regs ?k)"
    using t(1) check_responses_ok [OF ok(1), of "mach k"] draw by (simp add: kmain_body_def null_store_def)
  have seg: "segs ?k = idt_init (sym_idt syms) (isr_stub_table (sym_isr_stub syms)) (gdt_init (sym_gdt syms) g)" using g(2) by simp
  have sub: "kernel_map ?r hhdm ?l \<subseteq>\<^sub>m unmarked (space_map (mach ?k) (cr3 (mach ?k)))" unfolding map unmarked_kernel_map by simp
  have h: "g_hhdm_offset (mach ?k) = hhdm" "tree_tables (mach ?k) (cr3 (mach ?k)) \<subseteq> usable_tables ?r" using t(3,4) tt by simp_all
  obtain u where u: "raise_exception use (sym_isr_stub syms) 14 2 0 regs ?k = Halted (?k\<lparr>mach := u\<rparr>)"
    "cr3 u = cr3 (mach ?k)" "g_hhdm_offset u = hhdm" "\<And>c. c \<notin> stack_cells use regs \<Longrightarrow> mem u c = ?m c"
    "prints (mach ?k) u (report_text 0 (frame_of 14 2 regs))"
    using kernel_exception [OF o(1) sub o(2) pl(1,3) _ g(1) seg h, of 14 2 0] by auto
  have "space_map u (cr3 u) = space_map (mach ?k) (cr3 u)"
    by (rule space_map_agree(1)) (use u(2-4) h stack_spares_tables [OF o(1) pl(1,3) h(1)] in auto)
  then have m: "space_map u (cr3 u) = kernel_map ?r hhdm ?l" using map u(2) by simp
  have "load32 (mem u) (pixel_cell fb x y) = pixel_color fb x y" if xy: "x < fb_width fb" "y < fb_height fb" for x y
  proof -
    have "read8 (mem u) a = read8 ?m a" if "a \<in> dword (pixel_cell fb x y)" for a
    proof -
      have "a \<in> pixel_bytes fb" using that xy unfolding pixel_bytes_def by blast
      then show ?thesis using u(4) stack_not_pixel [OF pl(1,3,2) o(4)] by (simp add: read8_def)
    qed
    then have "load32 (mem u) (pixel_cell fb x y) = load32 ?m (pixel_cell fb x y)" by (rule load32_cong)
    then show ?thesis using paint_rows_hit [OF o(4) xy(2,1), of 0 "mem t"] by simp
  qed
  moreover have "mem u c = mem (mach k) c"
    if "\<not> in_usable ?r hhdm c" "c \<notin> cell_of ` pixel_bytes fb" "c \<notin> stack_cells use regs" for c
    using that u(4) t(5) sp by (simp add: spares_def)
  ultimately have b: "booted_memory ?r hhdm fb use regs (mem (mach k)) (mem u)" by (simp add: booted_memory_def)
  show ?thesis using e u(1) prints_trans [OF p u(5)] m b by auto
qed

end
