(* ===== verification/Boot_Refusals.thy ===== *)
theory Boot_Refusals
  imports Boot_Console
begin

text \<open>
  The machines \<open>kmain\<close> refuses before it writes to memory, with the text it prints: a missing answer
  of the bootloader, a memory map it cannot use, a kernel outside the kernel region, or no room for
  the frame allocator.
\<close>

abbreviation untouched :: "machine \<Rightarrow> machine \<Rightarrow> bool" where
  "untouched s t \<equiv> cr3 t = cr3 s \<and> mem t = mem s"

lemma log_bases_mem: "mem (log_bases vbase pbase s) = mem s"
  by (simp add: log_bases_def)

text \<open>The message for a memory map the kernel does not accept.\<close>

definition pmm_failure :: "MemoryRegion list \<Rightarrow> string option" where
  "pmm_failure regions =
     (if usable_top regions 0 = 0 then Some (memmap_text regions @ ''fatal: no usable memory\<newline>'')
      else if find_bitmap_region regions (init_pages regions) = None
      then Some (memmap_text regions @ ''fatal: no usable region large enough for bitmap\<newline>'') else None)"

definition memmap_failure :: "memmap_entry list \<Rightarrow> u64 \<Rightarrow> u64 \<Rightarrow> linker_symbols \<Rightarrow> string option" where
  "memmap_failure entries vbase pbase syms =
     (case filter (\<lambda>e. \<not> unat (entry_type e) < 8) entries of
        e # _ \<Rightarrow> Some (''fatal: unknown memory map type: '' @ dec (entry_type e) @ ''\<newline>'')
      | [] \<Rightarrow>
          if \<exists>e \<in> set entries. entry_type e = 6 \<and> entry_base e \<le> pbase \<and> pbase < entry_base e + entry_length e
          then map_option ((@) (image_text vbase pbase syms)) (pmm_failure (memmap_regions entries))
          else Some (''kernel virtual base:  '' @ pointer_string vbase @ ''\<newline>kernel physical base: '' @ pointer_string pbase @
            ''\<newline>fatal: kernel physical base is not inside KERNEL_AND_MODULES region\<newline>''))"

text \<open>
  The console text with which \<open>kmain\<close> refuses a machine before it writes to memory, in the order of
  the checks; \<open>None\<close> when all of them pass.
\<close>

definition boot_failure :: "boot_info \<Rightarrow> linker_symbols \<Rightarrow> string option" where
  "boot_failure boot syms =
     (let start = ''WaterBuffalo booting\<newline>''; ready = start @ ''framebuffer acquired\<newline>''
      in if \<not> base_revision_supported boot then Some (start @ ''fatal: bootloader rejected base revision\<newline>'')
      else if framebuffer_response boot = None \<or> framebuffer_response boot = Some []
      then Some (start @ ''fatal: no framebuffer from bootloader\<newline>'')
      else map_option ((@) ready)
        (case (memmap_response boot, hhdm_response boot, kernel_address_response boot) of
           (None, _, _) \<Rightarrow> Some ''fatal: no memory map from bootloader\<newline>''
         | (Some entries, None, _) \<Rightarrow> Some ''fatal: no HHDM response from bootloader\<newline>''
         | (Some entries, Some hhdm, None) \<Rightarrow> Some ''fatal: no kernel address response from bootloader\<newline>''
         | (Some entries, Some hhdm, Some (vbase, pbase)) \<Rightarrow>
             if length entries > 64 then Some ''fatal: memory map has too many entries\<newline>''
             else memmap_failure entries vbase pbase syms))"

lemma filter_first: "filter P xs = e # rest \<Longrightarrow> \<exists>us vs. xs = us @ e # vs \<and> list_all (\<lambda>x. \<not> P x) us \<and> P e"
  by (auto simp: filter_eq_Cons_iff list_all_iff)

lemma kernel_base_valid_iff:
  "list_all (\<lambda>e. unat (entry_type e) < 8) entries \<Longrightarrow> kernel_physical_base_valid (memmap_regions entries) pbase \<longleftrightarrow>
     (\<exists>e \<in> set entries. entry_type e = 6 \<and> entry_base e \<le> pbase \<and> pbase < entry_base e + entry_length e)"
proof (induction entries)
  case (Cons e entries)
  have "the (region_type_of (entry_type e)) = KernelAndModules \<longleftrightarrow> entry_type e = 6"
    using Cons.prems region_type_known [of "entry_type e"] by (auto simp: region_type_of_def split: if_splits)
  with Cons show ?case by (auto simp: memmap_regions_def Let_def)
qed (simp add: memmap_regions_def)

lemma start_memory_refuses:
  assumes "start_memory out fb entries hhdm vbase pbase syms s = Some r" "prints k s x"
  shows "filter (\<lambda>e. \<not> unat (entry_type e) < 8) entries = e # rest \<Longrightarrow>
      \<exists>t. r = Halt t \<and> prints k t (x @ ''fatal: unknown memory map type: '' @ dec (entry_type e) @ ''\<newline>'') \<and> untouched s t"
    "filter (\<lambda>e. \<not> unat (entry_type e) < 8) entries = [] \<Longrightarrow>
      \<not> (\<exists>e \<in> set entries. entry_type e = 6 \<and> entry_base e \<le> pbase \<and> pbase < entry_base e + entry_length e) \<Longrightarrow>
      \<exists>t. r = Halt t \<and> prints k t (x @ ''kernel virtual base:  '' @ pointer_string vbase @ ''\<newline>kernel physical base: '' @
        pointer_string pbase @ ''\<newline>fatal: kernel physical base is not inside KERNEL_AND_MODULES region\<newline>'') \<and> untouched s t"
proof -
  assume "filter (\<lambda>e. \<not> unat (entry_type e) < 8) entries = e # rest"
  then obtain us vs where "entries = us @ e # vs" "list_all (\<lambda>x. unat (entry_type x) < 8) us" "\<not> unat (entry_type e) < 8"
    using filter_first [of "\<lambda>e. \<not> unat (entry_type e) < 8" entries e rest] by auto
  then have "translate_memmap entries s = Halt (log_printf ''fatal: unknown memory map type: %lu\<newline>'' [Word (entry_type e)] s)"
    using translate_memmap_unknown by blast
  then have r: "r = Halt (log_printf ''fatal: unknown memory map type: %lu\<newline>'' [Word (entry_type e)] s)"
    using assms(1) by (simp add: start_memory_eq)
  have "prints k (log_printf ''fatal: unknown memory map type: %lu\<newline>'' [Word (entry_type e)] s)
      (x @ ''fatal: unknown memory map type: '' @ dec (entry_type e) @ ''\<newline>'')"
    by (rule prints_printf [OF assms(2)]) (simp add: print_conversions)
  then show "\<exists>t. r = Halt t \<and> prints k t (x @ ''fatal: unknown memory map type: '' @ dec (entry_type e) @ ''\<newline>'') \<and> untouched s t"
    using r by (simp add: log_bases_mem)
next
  let ?m = "''fatal: kernel physical base is not inside KERNEL_AND_MODULES region\<newline>''"
  assume f: "filter (\<lambda>e. \<not> unat (entry_type e) < 8) entries = []"
    and n: "\<not> (\<exists>e \<in> set entries. entry_type e = 6 \<and> entry_base e \<le> pbase \<and> pbase < entry_base e + entry_length e)"
  have l: "list_all (\<lambda>e. unat (entry_type e) < 8) entries" using f by (simp add: filter_empty_conv list_all_iff)
  have r: "r = Halt (log_printf ?m [] (log_bases vbase pbase s))"
    using assms(1) translate_memmap_known [OF l, of s] n kernel_base_valid_iff [OF l, of pbase]
    by (simp add: start_memory_eq fatal_def)
  have "prints k (log_printf ?m [] (log_bases vbase pbase s))
      (((x @ ''kernel virtual base:  '' @ pointer_string vbase @ ''\<newline>'') @ ''kernel physical base: '' @ pointer_string pbase @ ''\<newline>'') @ ?m)"
    unfolding log_bases_def by (intro prints_printf assms(2)) (simp_all add: print_conversions)
  then have "prints k (log_printf ?m [] (log_bases vbase pbase s)) (x @ ''kernel virtual base:  '' @ pointer_string vbase @
      ''\<newline>kernel physical base: '' @ pointer_string pbase @ ''\<newline>fatal: kernel physical base is not inside KERNEL_AND_MODULES region\<newline>'')"
    by simp
  then show "\<exists>t. r = Halt t \<and> prints k t (x @ ''kernel virtual base:  '' @ pointer_string vbase @ ''\<newline>kernel physical base: '' @
        pointer_string pbase @ ''\<newline>fatal: kernel physical base is not inside KERNEL_AND_MODULES region\<newline>'') \<and> untouched s t"
    using r by (simp add: log_bases_mem)
qed

lemma pmm_init_refuses:
  assumes "pmm_failure regions = Some m"
  shows "\<exists>t. pmm_init regions hhdm s = Halt t \<and> prints s t m \<and> untouched s t"
proof -
  obtain t msg where t: "pmm_init regions hhdm s = Halt t" "untouched s t" "m = memmap_text regions @ msg" "call_text (Kprintf msg []) = Inr msg"
    and k: "klog t = klog s @ Kprintf ''\<newline>Memory map:\<newline>'' [] # map map_line regions @
      [Kprintf ''Total usable memory: %lu bytes\<newline>'' [Word (usable_sum regions 0)], Kprintf msg []]"
    using assms by (auto simp: pmm_failure_def pmm_init_def Let_def init_scan_eq init_sizes log_printf_def split: if_splits)
  have "prints s t m" unfolding prints_def k t(3)
    by (intro exI conjI, rule refl) (use t(4) in \<open>simp add: console_text_append console_text_map print_conversions memmap_text_def\<close>)
  with t(1,2) show ?thesis by blast
qed

lemma start_memory_refuses_memory:
  assumes "start_memory out fb entries hhdm vbase pbase syms s = Some r" "prints k s x"
    "filter (\<lambda>e. \<not> unat (entry_type e) < 8) entries = []"
    "\<exists>e \<in> set entries. entry_type e = 6 \<and> entry_base e \<le> pbase \<and> pbase < entry_base e + entry_length e"
    "pmm_failure (memmap_regions entries) = Some m"
  shows "\<exists>t. r = Halt t \<and> prints k t (x @ image_text vbase pbase syms @ m) \<and> untouched s t"
proof -
  have l: "list_all (\<lambda>e. unat (entry_type e) < 8) entries" using assms(3) by (simp add: filter_empty_conv list_all_iff)
  obtain t where t: "pmm_init (memmap_regions entries) hhdm (log_image vbase pbase syms s) = Halt t"
    "prints (log_image vbase pbase syms s) t m" "untouched (log_image vbase pbase syms s) t"
    using pmm_init_refuses [OF assms(5)] by blast
  have "r = Halt t"
    using assms(1) translate_memmap_known [OF l, of s] kernel_base_valid_iff [OF l, of pbase] assms(4) t(1)
    by (simp add: start_memory_eq)
  moreover have "prints k t (x @ image_text vbase pbase syms @ m)"
    using prints_trans [OF assms(2) prints_trans [OF log_image_prints t(2)]] by simp
  ultimately show ?thesis using t(3) by (simp add: log_image_mem)
qed

lemma start_memory_refused:
  assumes "start_memory out fb entries hhdm vbase pbase syms s = Some r" "prints k s x" "memmap_failure entries vbase pbase syms = Some m"
  shows "\<exists>t. r = Halt t \<and> prints k t (x @ m) \<and> untouched s t"
proof (cases "filter (\<lambda>e. \<not> unat (entry_type e) < 8) entries")
  case (Cons e rest)
  then show ?thesis using start_memory_refuses(1) [OF assms(1,2) Cons] assms(3) by (simp add: memmap_failure_def)
next
  case Nil
  show ?thesis
  proof (cases "\<exists>e \<in> set entries. entry_type e = 6 \<and> entry_base e \<le> pbase \<and> pbase < entry_base e + entry_length e")
    case True
    then obtain m' where "pmm_failure (memmap_regions entries) = Some m'" "m = image_text vbase pbase syms @ m'"
      using assms(3) Nil by (auto simp: memmap_failure_def)
    then show ?thesis using start_memory_refuses_memory [OF assms(1,2) Nil True] by simp
  next
    case False
    then have "m = ''kernel virtual base:  '' @ pointer_string vbase @ ''\<newline>kernel physical base: '' @ pointer_string pbase @
        ''\<newline>fatal: kernel physical base is not inside KERNEL_AND_MODULES region\<newline>''"
      using assms(3) unfolding memmap_failure_def Nil list.case if_not_P [OF False] by (metis option.inject)
    then show ?thesis using start_memory_refuses(2) [OF assms(1,2) Nil False] by metis
  qed
qed

text \<open>A run that ends in \<open>hcf\<close> with the given console text, CR3 and memory untouched.\<close>

definition refused :: "'d kernel \<Rightarrow> 'd ending option \<Rightarrow> string \<Rightarrow> bool" where
  "refused k e text \<longleftrightarrow> (\<exists>t. e = Some (Halted (k\<lparr>mach := t\<rparr>)) \<and> prints (mach k) t text \<and> untouched (mach k) t)"

lemma refused_fatal:
  assumes "check_responses boot (mach k) = fatal m s" "prints (mach k) s x" "untouched (mach k) s" "plain m"
    "text = x @ m"
  shows "refused k (kmain_body out boot syms use regs k) text"
proof -
  have "prints (mach k) (log_printf m [] s) text"
    unfolding assms(5) using render_append_plain [OF assms(4), of "[]" "[]"] by (intro prints_printf assms(2)) simp
  then show ?thesis using assms(1,3) unfolding refused_def
    by (intro exI [of _ "log_printf m [] s"]) (simp add: kmain_body_def fatal_def)
qed

lemma refused_memmap:
  assumes "check_responses boot (mach k) = Ret (fb, entries, hhdm, vbase, pbase) s" "prints (mach k) s x" "untouched (mach k) s"
    "memmap_failure entries vbase pbase syms = Some m" "text = x @ m"
  shows "refused k (kmain_body out boot syms use regs k) text"
proof -
  obtain r where r: "start_memory out fb entries hhdm vbase pbase syms s = Some r" using start_memory_returns by blast
  obtain t where "r = Halt t" "prints (mach k) t (x @ m)" "untouched s t" using start_memory_refused [OF r assms(2,4)] by blast
  then show ?thesis using assms(1,3,5) r unfolding refused_def by (intro exI [of _ t]) (simp add: kmain_body_def)
qed

text \<open>The checks after a framebuffer has been found.\<close>

lemma kmain_body_refuses_late:
  assumes "boot_failure boot syms = Some text" "base_revision_supported boot" "framebuffer_response boot = Some (fb # fbs)"
  shows "refused k (kmain_body out boot syms use regs k) text"
proof -
  let ?b = "log_serial ''framebuffer acquired\<newline>'' (log_serial ''WaterBuffalo booting\<newline>'' (mach k))"
  let ?y = "''WaterBuffalo booting\<newline>'' @ ''framebuffer acquired\<newline>''"
  have a: "prints (mach k) (log_serial ''WaterBuffalo booting\<newline>'' (mach k)) ''WaterBuffalo booting\<newline>''"
    using prints_serial [OF prints_refl [OF refl]] by simp
  have b: "prints (mach k) ?b ?y" "untouched (mach k) ?b" using prints_serial [OF a] by simp_all
  note late = refused_fatal [OF _ b, of boot] and last = refused_memmap [OF _ b, of boot]
  note f = assms(1) [unfolded boot_failure_def Let_def] and d = check_responses_def [of boot "mach k"]
  consider "memmap_response boot = None"
    | entries where "memmap_response boot = Some entries" "hhdm_response boot = None"
    | entries hhdm where "memmap_response boot = Some entries" "hhdm_response boot = Some hhdm" "kernel_address_response boot = None"
    | entries hhdm vbase pbase where "memmap_response boot = Some entries" "hhdm_response boot = Some hhdm"
        "kernel_address_response boot = Some (vbase, pbase)" "length entries > 64"
    | entries hhdm vbase pbase m where "memmap_response boot = Some entries" "hhdm_response boot = Some hhdm"
        "kernel_address_response boot = Some (vbase, pbase)" "\<not> length entries > 64"
        "memmap_failure entries vbase pbase syms = Some m" "text = ?y @ m"
    using f assms(2,3) by (auto split: option.splits if_splits)
  then show ?thesis
  proof cases
    case 1
    then show ?thesis using f assms by (intro late [of "''fatal: no memory map from bootloader\<newline>''"]) (simp_all add: d)
  next
    case 2
    then show ?thesis using f assms by (intro late [of "''fatal: no HHDM response from bootloader\<newline>''"]) (simp_all add: d)
  next
    case 3
    then show ?thesis using f assms by (intro late [of "''fatal: no kernel address response from bootloader\<newline>''"]) (simp_all add: d)
  next
    case 4
    then show ?thesis using f assms by (intro late [of "''fatal: memory map has too many entries\<newline>''"]) (simp_all add: d)
  next
    case (5 entries hhdm vbase pbase m)
    then have "check_responses boot (mach k) = Ret (fb, entries, hhdm, vbase, pbase) ?b" using assms(2,3) by (simp add: d)
    then show ?thesis using 5(5,6) by (rule last)
  qed
qed

lemma kmain_body_refuses:
  assumes "boot_failure boot syms = Some text"
  shows "refused k (kmain_body out boot syms use regs k) text"
proof -
  let ?a = "log_serial ''WaterBuffalo booting\<newline>'' (mach k)"
  have a: "prints (mach k) ?a ''WaterBuffalo booting\<newline>''" "untouched (mach k) ?a"
    using prints_serial [OF prints_refl [OF refl]] by simp_all
  note early = refused_fatal [OF _ a, of boot]
  note f = assms [unfolded boot_failure_def Let_def] and d = check_responses_def [of boot "mach k"]
  consider "\<not> base_revision_supported boot"
    | "base_revision_supported boot" "framebuffer_response boot = None \<or> framebuffer_response boot = Some []"
    | fb fbs where "base_revision_supported boot" "framebuffer_response boot = Some (fb # fbs)"
    by (metis list.exhaust option.exhaust)
  then show ?thesis
  proof cases
    case 1
    then show ?thesis using f by (intro early [of "''fatal: bootloader rejected base revision\<newline>''"]) (simp_all add: d)
  next
    case 2
    then show ?thesis using f by (intro early [of "''fatal: no framebuffer from bootloader\<newline>''"]) (auto simp: d)
  next
    case 3
    then show ?thesis by (rule kmain_body_refuses_late [OF assms])
  qed
qed

end
