(* ===== verification/Boot_Properties.thy ===== *)
theory Boot_Properties
  imports Boot_Refusals
begin

text \<open>
  The properties of \<open>kmain\<close> as a whole: it boots a machine that is described sensibly, refuses any
  other with a message, always stops, and loads CR3 only after every step before it succeeded.
\<close>

section \<open>The state at the start of the body\<close>

text \<open>The kernel after \<open>gdt::init\<close>, \<open>idt::init\<close>, \<open>serial::init\<close> and \<open>print::set_sink\<close>.\<close>

definition early_kernel :: "'d port_io \<Rightarrow> linker_symbols \<Rightarrow> 'd kernel \<Rightarrow> 'd kernel" where
  "early_kernel io syms k = k\<lparr>segs := idt_init (sym_idt syms) (isr_stub_table (sym_isr_stub syms)) (gdt_init (sym_gdt syms) (segs k)),
     uart := snd (serial_init io 115200 (uart k)), output_sink := Some (serial_putc io)\<rparr>"

lemma kmain_eq: "kmain io out boot syms use regs k = map_option (flush_console io) (kmain_body out boot syms use regs (early_kernel io syms k))"
  by (simp add: kmain_def early_kernel_def Let_def set_sink_def)

lemma early_kernel_fields [simp]:
  "mach (early_kernel io syms k) = mach k"
  "output_sink (early_kernel io syms k) = Some (serial_putc io)"
  "uart (early_kernel io syms k) = snd (serial_init io 115200 (uart k))"
  "segs (early_kernel io syms k) = idt_init (sym_idt syms) (isr_stub_table (sym_isr_stub syms)) (gdt_init (sym_gdt syms) (segs k))"
  by (simp_all add: early_kernel_def)

lemma gdt_init_idt [simp]: "idt (gdt_init a s) = idt s"
  by (simp add: gdt_init_def)

text \<open>What the console shows once the calls of a run that started with an empty log are played.\<close>

definition sends :: "'d port_io \<Rightarrow> string \<Rightarrow> 'd serial \<Rightarrow> 'd serial" where
  "sends io text u = emit_chars (Some (serial_putc io)) text (snd (serial_init io 115200 u))"

lemma sends_bytes:
  assumes "transmits io good sent" "fst (serial_init io 115200 u)" "good (device (snd (serial_init io 115200 u)))"
  shows "sent (device (sends io text u)) = sent (device (snd (serial_init io 115200 u))) @ map byte_of (crlf text)"
proof -
  have "initialized (snd (serial_init io 115200 u))" using assms(2) serial_init_initialized by blast
  then show ?thesis using emit_serial_sends [OF assms(1) _ assms(3), of "text"] by (simp add: sends_def)
qed

lemma flush_halted:
  assumes "prints (mach k) (mach k') text" "klog (mach k) = []" "output_sink k' = Some (serial_putc io)"
    "uart k' = snd (serial_init io 115200 u)"
  shows "flush_console io (Halted k') = Halted (k'\<lparr>uart := sends io text u\<rparr>)"
  using assms by (auto simp: prints_def run_console_eq sends_def)

section \<open>Guards\<close>

text \<open>
  The steps before the page tables: the bootloader accepts the base revision and answers every request,
  with a framebuffer and a memory map of at most 64 entries of known types, the kernel lies in a kernel
  region, and the frame allocator starts on that map. Then \<open>build_kernel_address_space\<close> answers \<open>ok\<close> with
  the address space \<open>space\<close> and leaves the machine \<open>v\<close>.
\<close>

definition memory_started :: "AddressSpace \<Rightarrow> boot_info \<Rightarrow> linker_symbols \<Rightarrow> machine \<Rightarrow> bool \<Rightarrow> AddressSpace \<Rightarrow> machine \<Rightarrow> bool" where
  "memory_started out boot syms s ok space v \<longleftrightarrow>
     (\<exists>fb fbs entries hhdm vbase pbase t u. base_revision_supported boot \<and> framebuffer_response boot = Some (fb # fbs) \<and>
        memmap_response boot = Some entries \<and> length entries \<le> 64 \<and> hhdm_response boot = Some hhdm \<and>
        kernel_address_response boot = Some (vbase, pbase) \<and> list_all (\<lambda>e. unat (entry_type e) < 8) entries \<and>
        kernel_physical_base_valid (memmap_regions entries) pbase \<and>
        pmm_init (memmap_regions entries) hhdm t = Ret () u \<and> mem t = mem s \<and>
        build_kernel_address_space out (Some (memmap_regions entries)) hhdm (kernel_layout vbase pbase syms) u = Some (ok, space, v))"

lemma translate_memmap_Ret:
  "translate_memmap entries s = Ret regions t \<Longrightarrow>
     regions = memmap_regions entries \<and> list_all (\<lambda>e. unat (entry_type e) < 8) entries"
proof (induction entries arbitrary: regions)
  case (Cons e entries)
  then have "region_type_of (entry_type e) \<noteq> None" by (auto split: option.splits)
  then have "unat (entry_type e) < 8" by (auto simp: region_type_of_def split: if_splits)
  with Cons show ?case by (auto simp: memmap_regions_def split: option.splits exec.splits)
qed (simp add: memmap_regions_def)

lemma check_responses_Ret:
  assumes "check_responses boot s = Ret (fb, entries, hhdm, vbase, pbase) t"
  shows "base_revision_supported boot" "\<exists>fbs. framebuffer_response boot = Some (fb # fbs)"
    "memmap_response boot = Some entries" "length entries \<le> 64" "hhdm_response boot = Some hhdm"
    "kernel_address_response boot = Some (vbase, pbase)" "untouched s t"
proof -
  have *: "length xs < 1 \<longleftrightarrow> xs = []" "xs \<noteq> [] \<Longrightarrow> \<exists>ys. xs = xs ! 0 # ys" for xs :: "framebuffer list"
    by (cases xs; simp)+
  show "base_revision_supported boot" "\<exists>fbs. framebuffer_response boot = Some (fb # fbs)"
    "memmap_response boot = Some entries" "length entries \<le> 64" "hhdm_response boot = Some hhdm"
    "kernel_address_response boot = Some (vbase, pbase)" "untouched s t"
    using assms *(2) by (auto simp: check_responses_def Let_def fatal_def *(1) split: if_splits option.splits)
qed

lemma check_responses_Halt: "check_responses boot s = Halt t \<Longrightarrow> untouched s t"
  by (auto simp: check_responses_def Let_def fatal_def split: if_splits option.splits)

lemma translate_memmap_Halt: "translate_memmap entries s = Halt t \<Longrightarrow> untouched s t"
  by (induction entries) (auto split: option.splits exec.splits)

lemma pmm_init_Halt: "pmm_init regions hhdm s = Halt t \<Longrightarrow> untouched s t"
  by (auto simp: pmm_init_def Let_def init_scan_eq split: if_splits option.splits)

text \<open>Where the memory phase ends.\<close>

lemma start_memory_started:
  assumes "check_responses boot s = Ret (fb, entries, hhdm, vbase, pbase) t"
    "start_memory out fb entries hhdm vbase pbase syms t = Some r"
  shows "case r of Ret space u \<Rightarrow> (\<exists>v. memory_started out boot syms s True space v) \<and> cr3 u = pml4_physical space
    | Halt u \<Rightarrow> untouched s u \<or> (\<exists>space v. memory_started out boot syms s False space v \<and> cr3 u = cr3 s \<and> mem u = mem v)"
proof -
  note c = check_responses_Ret [OF assms(1)]
  obtain fbs where fbs: "framebuffer_response boot = Some (fb # fbs)" using c(2) by blast
  have started: "memory_started out boot syms s ok space v"
    if "translate_memmap entries t = Ret regions t" "kernel_physical_base_valid regions pbase"
      "pmm_init regions hhdm (log_image vbase pbase syms t) = Ret () u"
      "build_kernel_address_space out (Some regions) hhdm (kernel_layout vbase pbase syms) u = Some (ok, space, v)"
    for ok space v regions u
  proof -
    have "regions = memmap_regions entries" "list_all (\<lambda>e. unat (entry_type e) < 8) entries"
      using translate_memmap_Ret [OF that(1)] by simp_all
    moreover have "mem (log_image vbase pbase syms t) = mem s" using c(7) by (simp add: log_image_mem)
    ultimately show ?thesis unfolding memory_started_def using that c(1,3-6) fbs by blast
  qed
  from assms(2) show ?thesis
  proof (cases rule: start_memory_cases)
    case bad_type
    then show ?thesis using c(7) translate_memmap_Halt by fastforce
  next
    case bad_base
    then show ?thesis using c(7) by (simp add: fatal_def log_bases_mem)
  next
    case (no_frames regions u)
    then show ?thesis using c(7) pmm_init_Halt [OF no_frames(3)] by (simp add: log_image_mem)
  next
    case (not_built regions u space v)
    then show ?thesis
      using started [OF not_built(1-4)] start_memory_cr3 [OF assms(2)] c(7) by (auto simp: fatal_def)
  next
    case (built regions u space v)
    then show ?thesis using started [OF built(1-4)] start_memory_cr3 [OF assms(2)] by auto
  qed
qed

fun ending_kernel :: "'d ending \<Rightarrow> 'd kernel option" where
  "ending_kernel (Halted k) = Some k"
| "ending_kernel (TripleFault k) = Some k"
| "ending_kernel (Undefined e) = None"

lemma isr_handler_cr3: "\<exists>t. isr_handler a f s = Halt t \<and> cr3 t = cr3 s"
proof -
  obtain u where u: "isr_handler a f s = Halt u" "u = s\<lparr>klog := klog u\<rparr>" using isr_handler_halts [of a f s] by blast
  have "cr3 u = cr3 s" by (subst u(2)) simp
  with u(1) show ?thesis by blast
qed

lemma raise_exception_cr3:
  "ending_kernel (raise_exception use stubs v code fault_address regs k) = Some k' \<Longrightarrow> cr3 (mach k') = cr3 (mach k)"
proof -
  assume k': "ending_kernel (raise_exception use stubs v code fault_address regs k) = Some k'"
  have "cr3 (case isr_handler a f s of Halt t \<Rightarrow> t | Ret x t \<Rightarrow> t) = cr3 s" for a f s
    using isr_handler_cr3 [of a f s] by auto
  then show ?thesis using k' by (auto simp: raise_exception_def Let_def split: if_splits option.splits)
qed

lemma null_store_cr3: "ending_kernel (null_store use stubs regs k) = Some k' \<Longrightarrow> cr3 (mach k') = cr3 (mach k)"
  by (auto simp: null_store_def raise_exception_cr3 split: option.splits)

text \<open>What a run leaves that stopped before the switch of CR3, and what one leaves that got there.\<close>

definition switch_guarded :: "AddressSpace \<Rightarrow> boot_info \<Rightarrow> linker_symbols \<Rightarrow> machine \<Rightarrow> machine \<Rightarrow> bool" where
  "switch_guarded out boot syms s t \<longleftrightarrow> cr3 t = cr3 s \<and> mem t = mem s \<or>
     (\<exists>space v. memory_started out boot syms s False space v \<and> cr3 t = cr3 s \<and> mem t = mem v) \<or>
     (\<exists>space v. memory_started out boot syms s True space v \<and> cr3 t = pml4_physical space)"

lemma kmain_body_guarded:
  assumes "kmain_body out boot syms use regs k = Some e" "ending_kernel e = Some k'"
  shows "switch_guarded out boot syms (mach k) (mach k')"
proof (cases "check_responses boot (mach k)")
  case (Halt s)
  then show ?thesis using assms check_responses_Halt [OF Halt] by (auto simp: kmain_body_def switch_guarded_def)
next
  case (Ret x s)
  obtain fb entries hhdm vbase pbase where x: "x = (fb, entries, hhdm, vbase, pbase)" by (cases x) auto
  note c = Ret [unfolded x]
  obtain r where r: "start_memory out fb entries hhdm vbase pbase syms s = Some r" using start_memory_returns by blast
  note started = start_memory_started [OF c r]
  show ?thesis
  proof (cases r)
    case (Halt u)
    then have "mach k' = u" using assms c r by (auto simp: kmain_body_def)
    then show ?thesis using started unfolding Halt switch_guarded_def exec.case by blast
  next
    case (Ret space u)
    have "cr3 (mach k') = cr3 u"
      using assms c r Ret by (auto simp: kmain_body_def Let_def split: sum.splits dest: null_store_cr3 raise_exception_cr3)
    then show ?thesis using started Ret by (auto simp: switch_guarded_def)
  qed
qed

lemma flush_keeps: "ending_kernel (flush_console io e) = Some k' \<Longrightarrow> \<exists>k. ending_kernel e = Some k \<and> mach k' = mach k"
  by (cases e) (auto split: sum.splits)

lemma kmain_ends:
  assumes "klog (mach k) = []"
  shows "\<exists>e k' msg. kmain io out boot syms use regs k = Some e \<and> ending_kernel e = Some k' \<and>
    console_text (klog (mach k')) = Inr msg \<and> uart k' = sends io msg (uart k) \<and> list_all call_sound (klog (mach k'))"
proof -
  let ?k = "early_kernel io syms k"
  obtain e where e: "kmain_body out boot syms use regs ?k = Some e" "tidy_ending ?k e" using kmain_body_tidy by blast
  have n: "klog (mach ?k) = []" using assms by simp
  from flush_tidy [OF e(2) n early_kernel_fields(2)] obtain k' str where
    k': "e = Halted k' \<and> flush_console io e = Halted (k'\<lparr>uart := emit_chars (Some (serial_putc io)) str (uart ?k)\<rparr>) \<or>
      e = TripleFault k' \<and> flush_console io e = TripleFault (k'\<lparr>uart := emit_chars (Some (serial_putc io)) str (uart ?k)\<rparr>)"
    "prints (mach ?k) (mach k') str" by blast
  have "tidy (mach ?k) (mach k')" using k'(1) e(2) by (auto simp: tidy_kernel_def)
  then have "list_all call_sound (klog (mach k'))" using n by (auto simp: tidy_def)
  moreover have "console_text (klog (mach k')) = Inr str" using k'(2) n by (auto simp: prints_def)
  ultimately show ?thesis using k'(1) by (auto simp: kmain_eq e(1) sends_def)
qed

section \<open>A small machine\<close>

text \<open>Just under 1 MiB of usable memory, the boot stack in reclaimable memory above it, the kernel image and a
  framebuffer of 16 by 4 pixels.\<close>

definition demo_entries :: "memmap_entry list" where
  "demo_entries = [\<lparr>entry_base = 0x1000, entry_length = 0xEF000, entry_type = 0\<rparr>,
     \<lparr>entry_base = 0xF0000, entry_length = 0x10000, entry_type = 5\<rparr>,
     \<lparr>entry_base = 0x100000, entry_length = 0x10000, entry_type = 6\<rparr>,
     \<lparr>entry_base = 0x110000, entry_length = 0x10000, entry_type = 7\<rparr>]"

definition demo_fb :: framebuffer where
  "demo_fb = \<lparr>fb_address = 0xFFFF800000110000, fb_width = 16, fb_height = 4, fb_pitch = 64\<rparr>"

definition demo_boot :: boot_info where
  "demo_boot = \<lparr>base_revision_supported = True, framebuffer_response = Some [demo_fb],
     memmap_response = Some demo_entries, hhdm_response = Some 0xFFFF800000000000,
     kernel_address_response = Some (0xFFFFFFFF80000000, 0x100000)\<rparr>"

definition demo_symbols :: linker_symbols where
  "demo_symbols = \<lparr>sym_text_start = 0xFFFFFFFF80001000, sym_text_end = 0xFFFFFFFF80001F00,
     sym_rodata_start = 0xFFFFFFFF80002000, sym_rodata_end = 0xFFFFFFFF80002800,
     sym_data_start = 0xFFFFFFFF80003000, sym_data_end = 0xFFFFFFFF80004800,
     sym_limine_requests_start = 0xFFFFFFFF80000000, sym_gdt = 0xFFFFFFFF80003000, sym_idt = 0xFFFFFFFF80003100,
     sym_isr_stub = (\<lambda>n. 0xFFFFFFFF80001100 + 16 * of_nat n)\<rparr>"

lemma demo_regions_eq:
  "memmap_regions demo_entries = [\<lparr>base = 0x1000, length_of = 0xEF000, type_of = Usable\<rparr>,
     \<lparr>base = 0xF0000, length_of = 0x10000, type_of = BootloaderReclaimable\<rparr>,
     \<lparr>base = 0x100000, length_of = 0x10000, type_of = KernelAndModules\<rparr>,
     \<lparr>base = 0x110000, length_of = 0x10000, type_of = Framebuffer\<rparr>]"
  by (simp add: memmap_regions_def demo_entries_def region_type_of_def)

lemma demo_memory_ok: "memory_ok (memmap_regions demo_entries) 0xFFFF800000000000 (kernel_layout 0xFFFFFFFF80000000 0x100000 demo_symbols)"
proof -
  let ?r = "memmap_regions demo_entries" and ?l = "kernel_layout 0xFFFFFFFF80000000 0x100000 demo_symbols"
  have d: "direct_size ?r = 0x200000" by (simp add: demo_regions_eq direct_size_def align_up_def kLargePageSize_def)
  have p: "init_pages ?r = 1"
    by (simp add: demo_regions_eq init_pages_def init_words_def init_frame_count_def align_up_def kPageSize_def kWordBits_def)
  have e: "data_end_rounded ?l = 0xFFFFFFFF80005000"
    by (simp add: data_end_rounded_def kernel_layout_def demo_symbols_def align_up_def kPageSize_def)
  have l: "layout_ok ?l"
    unfolding layout_ok_def e segment_ok_def page_aligned_iff by (simp add: kernel_layout_def demo_symbols_def image_phys_def)
  have i: "image_pages ?l = 5" unfolding image_pages_def e by (simp add: kernel_layout_def demo_symbols_def)
  have u: "usable_in_range ?r" "usable_disjoint ?r" "usable_aligned ?r" "usable_frames ?r = 239"
    by (simp_all add: demo_regions_eq usable_in_range_def usable_aligned_def usable_frames_def page_aligned_iff)
  have r: "range_ok 21 0xFFFF800000000000 0 0x200000" unfolding range_ok_def by simp
  show ?thesis
    unfolding memory_ok_def d p i u(4) using l u r
    by (simp add: demo_regions_eq kPageSize_def) (simp add: kernel_layout_def demo_symbols_def)
qed

lemma demo_symbols_ok: "symbols_ok (kernel_layout 0xFFFFFFFF80000000 0x100000 demo_symbols) demo_symbols"
proof -
  have "data_end_rounded (kernel_layout 0xFFFFFFFF80000000 0x100000 demo_symbols) = 0xFFFFFFFF80005000"
    by (simp add: data_end_rounded_def kernel_layout_def demo_symbols_def align_up_def kPageSize_def)
  then show ?thesis by (simp add: symbols_ok_def demo_symbols_def kernel_layout_def upt_rec)
qed

lemma demo_boot_ok: "boot_ok demo_boot demo_symbols demo_fb demo_entries 0xFFFF800000000000 0xFFFFFFFF80000000 0x100000"
proof -
  have "screen_ok demo_fb (memmap_regions demo_entries) 0xFFFF800000000000"
    by (simp add: screen_ok_def fb_ok_def demo_fb_def demo_regions_eq direct_size_def align_up_def kLargePageSize_def)
  moreover have "kernel_physical_base_valid (memmap_regions demo_entries) 0x100000" by (simp add: demo_regions_eq)
  moreover have "list_all (\<lambda>e. unat (entry_type e) < 8) demo_entries" "length demo_entries \<le> 64" by (simp_all add: demo_entries_def)
  moreover have "symbols_ok (kernel_layout 0xFFFFFFFF80000000 0x100000 demo_symbols) demo_symbols" by (rule demo_symbols_ok)
  ultimately show ?thesis using demo_memory_ok by (simp add: boot_ok_def demo_boot_def)
qed

definition demo_kernel :: "'d serial \<Rightarrow> 'd kernel" where
  "demo_kernel u = \<lparr>mach = \<lparr>mem = \<lambda>a. 0, bitmap = 0, bitmap_phys = 0, bitmap_words = 0, bitmap_bytes = 0, frame_count = 0,
      free_frame_count = 0, g_hhdm_offset = 0, msrs = \<lambda>n. 0, cr3 = 0, klog = []\<rparr>,
     segs = \<lparr>gdtr = \<lparr>limit = 0, pointer_base = 0\<rparr>, idtr = \<lparr>limit = 0, pointer_base = 0\<rparr>, seg_cs = 0, seg_ds = 0, seg_es = 0,
      seg_fs = 0, seg_gs = 0, seg_ss = 0, idt = replicate 256 empty_entry\<rparr>,
     output_sink = None, uart = u\<rparr>"

definition demo_registers :: registers where
  "demo_registers = isr_common_pop 0xFFFF8000000FF000 (\<lambda>a. a)"

text \<open>A handler that needs 4 KiB of stack.\<close>

definition demo_handler :: handler_stack where
  "demo_handler = \<lparr>hs_words = 512, hs_contents = \<lambda>a. 0, hs_calls = 0\<rparr>"

lemma demo_places:
  "memmap_apart (memmap_regions demo_entries)" "screen_placed (memmap_regions demo_entries) 0xFFFF800000000000 demo_fb"
  "stack_ok 0xFFFF800000000000 (memmap_regions demo_entries) demo_handler demo_registers"
proof -
  show "memmap_apart (memmap_regions demo_entries)" by (simp add: memmap_apart_def demo_regions_eq)
  show "screen_placed (memmap_regions demo_entries) 0xFFFF800000000000 demo_fb"
    by (simp add: screen_placed_def demo_regions_eq demo_fb_def)
  show "stack_ok 0xFFFF800000000000 (memmap_regions demo_entries) demo_handler demo_registers"
    by (simp add: stack_ok_def demo_handler_def demo_registers_def isr_common_pop_def demo_regions_eq direct_size_def align_up_def
        kLargePageSize_def)
qed

definition no_space :: AddressSpace where
  "no_space = \<lparr>pml4 = 0, pml4_physical = 0\<rparr>"

section \<open>Properties\<close>

text \<open>
  C1: on a machine that the bootloader describes sensibly the kernel boots. The hypotheses: \<open>boot_ok\<close>;
  usable, reclaimable and framebuffer regions overlap no region of another type; the framebuffer lies
  in a framebuffer region; and the stack, down to what the exception handler uses, lies in a
  reclaimable region inside the direct map. The kernel stops in the report of its intentional page
  fault. CR3 then holds an address space that translates exactly as the kernel map, although pixels
  and page tables share one memory; every pixel has its colour; and memory outside the usable regions,
  the pixels and that part of the stack is as it was. The serial driver has been given exactly this
  text: the boot messages (\<open>boot_text\<close>, which shows the memory map, the number of free frames it
  implies, the PML4's frame and the expected translations, and ends with the line of \<open>main.cpp:511\<close>),
  then the complete report of a supervisor write to address 0, which shows the registers at the fault.
  On a UART that honours its contract and passes the loopback test the bytes of this text, with
  newlines expanded, are the bytes sent after the initialisation.
\<close>

theorem kmain_boots:
  assumes "boot_ok boot syms fb entries hhdm vbase pbase" "0 < fb_width fb" "0 < fb_height fb"
    "memmap_apart (memmap_regions entries)" "screen_placed (memmap_regions entries) hhdm fb"
    "stack_ok hhdm (memmap_regions entries) use regs" "klog (mach k) = []" "length (idt (segs k)) = 256"
  shows "\<exists>k'. kmain io out boot syms use regs k = Some (Halted k') \<and>
    space_map (mach k') (cr3 (mach k')) = kernel_map (memmap_regions entries) hhdm (kernel_layout vbase pbase syms) \<and>
    booted_memory (memmap_regions entries) hhdm fb use regs (mem (mach k)) (mem (mach k')) \<and>
    uart k' = sends io (boot_text fb entries hhdm vbase pbase syms @ report_text 0 (frame_of 14 2 regs)) (uart k) \<and>
    (\<forall>good sent. transmits io good sent \<longrightarrow> fst (serial_init io 115200 (uart k)) \<longrightarrow>
       good (device (snd (serial_init io 115200 (uart k)))) \<longrightarrow>
       sent (device (uart k')) = sent (device (snd (serial_init io 115200 (uart k)))) @
         map byte_of (crlf (boot_text fb entries hhdm vbase pbase syms @ report_text 0 (frame_of 14 2 regs))))"
proof -
  let ?k = "early_kernel io syms k" and ?msg = "boot_text fb entries hhdm vbase pbase syms @ report_text 0 (frame_of 14 2 regs)"
  from kmain_body_boots [OF assms(1-6,8) early_kernel_fields(4), of out io]
  obtain t where t: "kmain_body out boot syms use regs ?k = Some (Halted (?k\<lparr>mach := t\<rparr>))" "prints (mach ?k) t ?msg"
    "space_map t (cr3 t) = kernel_map (memmap_regions entries) hhdm (kernel_layout vbase pbase syms)"
    "booted_memory (memmap_regions entries) hhdm fb use regs (mem (mach k)) (mem t)" by auto
  have "flush_console io (Halted (?k\<lparr>mach := t\<rparr>)) = Halted (?k\<lparr>mach := t, uart := sends io ?msg (uart k)\<rparr>)"
    using flush_halted [of ?k "?k\<lparr>mach := t\<rparr>" _ io "uart k"] t(2) assms(7) by simp
  then have "kmain io out boot syms use regs k = Some (Halted (?k\<lparr>mach := t, uart := sends io ?msg (uart k)\<rparr>))"
    using t(1) by (simp add: kmain_eq)
  then show ?thesis using t(3,4) by (intro exI conjI allI impI) (assumption | simp add: sends_bytes)+
qed

theorem kmain_boots_witness:
  "\<exists>k'. kmain sample_io no_space demo_boot demo_symbols demo_handler demo_registers (demo_kernel sample_serial) = Some (Halted k') \<and>
     booted_memory (memmap_regions demo_entries) 0xFFFF800000000000 demo_fb demo_handler demo_registers (\<lambda>a. 0) (mem (mach k'))"
proof -
  have d: "0 < fb_width demo_fb" "0 < fb_height demo_fb" by (simp_all add: demo_fb_def)
  have k: "klog (mach (demo_kernel sample_serial)) = []" "length (idt (segs (demo_kernel sample_serial))) = 256"
    "mem (mach (demo_kernel sample_serial)) = (\<lambda>a. 0)"
    by (simp_all add: demo_kernel_def)
  from kmain_boots [OF demo_boot_ok d demo_places k(1,2), of sample_io no_space] show ?thesis
    unfolding k(3) by auto
qed

text \<open>
  C2: on such a machine the memory phase of \<open>kmain\<close> succeeds and CR3 holds an address space whose
  translation is exactly the intended kernel map. In it every page table is reachable through the
  direct map at its own address, every pixel of the framebuffer is mapped writable and no-execute,
  and address 0 is not mapped.
\<close>

theorem kernel_enters_address_space:
  assumes "boot_ok boot syms fb entries hhdm vbase pbase"
  shows "\<exists>space t. start_memory out fb entries hhdm vbase pbase syms s = Some (Ret space t) \<and> cr3 t = pml4_physical space \<and>
    space_map t (cr3 t) = kernel_map (memmap_regions entries) hhdm (kernel_layout vbase pbase syms) \<and>
    (\<forall>P \<in> tree_tables t (cr3 t). space_map t (cr3 t) (physical_to_virtual t P) = Some (P, direct_flags)) \<and>
    (\<forall>x y. x < fb_width fb \<longrightarrow> y < fb_height fb \<longrightarrow>
       space_map t (cr3 t) (pixel_cell fb x y) = Some (pixel_cell fb x y - hhdm, direct_flags)) \<and>
    space_map t (cr3 t) 0 = None"
proof -
  have o: "screen_ok fb (memmap_regions entries) hhdm"
    "memory_ok (memmap_regions entries) hhdm (kernel_layout vbase pbase syms)" using assms by (simp_all add: boot_ok_def)
  obtain space t where t: "start_memory out fb entries hhdm vbase pbase syms s = Some (Ret space t)" "cr3 t = pml4_physical space"
    "space_map t (cr3 t) = kernel_map (memmap_regions entries) hhdm (kernel_layout vbase pbase syms)"
    "\<forall>P \<in> tree_tables t (cr3 t). space_map t (cr3 t) (physical_to_virtual t P) = Some (P, direct_flags)"
    using kernel_space_entered [OF assms] by blast
  have "space_map t (cr3 t) (pixel_cell fb x y) = Some (pixel_cell fb x y - hhdm, direct_flags)"
    if "x < fb_width fb" "y < fb_height fb" for x y
    unfolding t(3) by (rule pixel_mapped [OF o(1) that])
  moreover have "space_map t (cr3 t) 0 = None" unfolding t(3) by (rule kernel_map_null [OF o(2)])
  ultimately show ?thesis using t by blast
qed

theorem kernel_enters_address_space_witness:
  "\<exists>space t. start_memory no_space demo_fb demo_entries 0xFFFF800000000000 0xFFFFFFFF80000000 0x100000 demo_symbols
       (mach (demo_kernel sample_serial)) = Some (Ret space t) \<and> cr3 t = pml4_physical space \<and>
     space_map t (cr3 t) 0xFFFF800000110084 = Some (0x110084, direct_flags) \<and> space_map t (cr3 t) 0 = None"
proof -
  have c: "pixel_cell demo_fb 1 2 = 0xFFFF800000110084" "(1 :: u64) < fb_width demo_fb" "(2 :: u64) < fb_height demo_fb"
    by (simp_all add: pixel_cell_def demo_fb_def)
  obtain space t where t: "start_memory no_space demo_fb demo_entries 0xFFFF800000000000 0xFFFFFFFF80000000 0x100000 demo_symbols
       (mach (demo_kernel sample_serial)) = Some (Ret space t)" "cr3 t = pml4_physical space" "space_map t (cr3 t) 0 = None"
    "\<And>x y. x < fb_width demo_fb \<Longrightarrow> y < fb_height demo_fb \<Longrightarrow>
       space_map t (cr3 t) (pixel_cell demo_fb x y) = Some (pixel_cell demo_fb x y - 0xFFFF800000000000, direct_flags)"
    using kernel_enters_address_space [OF demo_boot_ok] by blast
  show ?thesis using t(1-3) t(4) [OF c(2,3)] by (intro exI [of _ space] exI [of _ t]) (simp add: c(1))
qed

text \<open>
  C3: after a successful start the kernel's address space survives what the memory managers are then
  asked to do, as long as frames suffice. After any sequence of allocations, releases, new address
  spaces, mappings in any of them, stores and accessed and dirty bits set by the processor, in which
  every call is \<open>allowed\<close> (it finds the free frames it may need: one for \<open>create_address_space\<close>, one per
  missing table for \<open>map_page\<close> and \<open>map_page_large\<close>, 3 per page for \<open>map_range\<close> and 2 per page for
  \<open>map_range_large\<close>; mappings go to existing address spaces; only held frames are released or stored
  to), all address spaces are well-formed and disjoint, every mapping of the kernel map is still in the
  address space CR3 points to, but for those two bits, exactly the kernel map when none of the calls
  mapped there, and every page table of every address space and every held frame is mapped writable at
  its own address in the direct map, where the code reaches it. Without the frames the code overwrites
  frame 0 (\<open>Vmm_Exhaustion\<close>).
\<close>

theorem booted_memory_isolated:
  assumes "boot_ok boot syms fb entries hhdm vbase pbase"
    "start_memory out fb entries hhdm vbase pbase syms s = Some (Ret space t)"
    "vm_steps \<lparr>spaces = {cr3 t}, held = {}, mch = t\<rparr> ops w"
  shows "vm_inv w \<and>
    kernel_map (memmap_regions entries) hhdm (kernel_layout vbase pbase syms) \<subseteq>\<^sub>m unmarked (space_map (mch w) (cr3 t)) \<and>
    ((\<forall>op \<in> set ops. \<not> maps_in (cr3 t) op) \<longrightarrow>
       unmarked (space_map (mch w) (cr3 t)) = kernel_map (memmap_regions entries) hhdm (kernel_layout vbase pbase syms)) \<and>
    (\<forall>P \<in> held w \<union> (\<Union>r \<in> spaces w. tree_tables (mch w) r).
       unmarked (space_map (mch w) (cr3 t)) (physical_to_virtual (mch w) P) = Some (P, direct_flags))"
proof -
  note b = booted_steps [OF assms]
  have "table_ok (mch w) P" if "P \<in> held w \<union> (\<Union>r \<in> spaces w. tree_tables (mch w) r)" for P
    using that vm_invD(3,5) [OF b(1)] by blast
  with b show ?thesis by blast
qed

theorem booted_memory_isolated_witness:
  "\<exists>space t w. start_memory no_space demo_fb demo_entries 0xFFFF800000000000 0xFFFFFFFF80000000 0x100000 demo_symbols
       (mach (demo_kernel sample_serial)) = Some (Ret space t) \<and>
     vm_steps \<lparr>spaces = {cr3 t}, held = {}, mch = t\<rparr> [Alloc] w \<and>
     unmarked (space_map (mch w) (cr3 t)) =
       kernel_map (memmap_regions demo_entries) 0xFFFF800000000000 (kernel_layout 0xFFFFFFFF80000000 0x100000 demo_symbols)"
proof -
  obtain space t where t: "start_memory no_space demo_fb demo_entries 0xFFFF800000000000 0xFFFFFFFF80000000 0x100000 demo_symbols
       (mach (demo_kernel sample_serial)) = Some (Ret space t)"
    using kernel_space_entered [OF demo_boot_ok] by blast
  obtain a u where "alloc_frame (mch \<lparr>spaces = {cr3 t}, held = {}, mch = t\<rparr>) = (a, u)" by fastforce
  from steps_cons [OF _ alloc_step [OF this] steps_nil]
  obtain w where w: "vm_steps \<lparr>spaces = {cr3 t}, held = {}, mch = t\<rparr> [Alloc] w" by (auto simp: allowed_def)
  from booted_memory_isolated [OF demo_boot_ok t w] t w show ?thesis by auto
qed

text \<open>
  C4: once the kernel runs on its own page tables every exception is reported, and stays so after any
  sequence of memory operations of which every one is \<open>allowed\<close> (it finds the free frames it may need, maps
  in an existing address space and releases or stores to held frames only). For each of the 32 vectors, each error code and all register contents: if the stack below the
  interrupted one, down to what the stub and the handler use of it, lies in a reclaimable region inside
  the direct map, and usable and reclaimable regions do not overlap regions of other types, then the
  gate, the code segment descriptor, the stub and the stack are mapped with the rights that delivery
  needs, the gate leads to the stub of that vector, and the machine halts after the complete report of
  that exception. On the way no cell of a free frame, a held frame or a page table changes, and every
  address space translates as before.
\<close>

theorem exceptions_reported:
  assumes "boot_ok boot syms fb entries hhdm vbase pbase"
    "start_memory out fb entries hhdm vbase pbase syms s = Some (Ret space t)"
    "vm_steps \<lparr>spaces = {cr3 t}, held = {}, mch = t\<rparr> ops w" "mach k = mch w"
    "segs k = idt_init (sym_idt syms) (isr_stub_table (sym_isr_stub syms)) (gdt_init (sym_gdt syms) g)" "length (idt g) = 256"
    "memmap_apart (memmap_regions entries)" "stack_ok hhdm (memmap_regions entries) use regs" "v < 32"
  shows "deliverable v regs k \<and>
    (\<exists>u. raise_exception use (sym_isr_stub syms) v code fault_address regs k = Halted (k\<lparr>mach := u\<rparr>) \<and>
       prints (mach k) u (report_text fault_address (frame_of v code regs)) \<and>
       (\<forall>P \<in> frames_of w. \<forall>c \<in> table_cells (physical_to_virtual (mch w) P). mem u c = mem (mch w) c) \<and>
       (\<forall>r \<in> spaces w. space_map u r = space_map (mch w) r))"
proof -
  let ?r = "memmap_regions entries" and ?l = "kernel_layout vbase pbase syms"
  have o: "memory_ok ?r hhdm ?l" "symbols_ok ?l syms" using assms(1) by (simp_all add: boot_ok_def)
  note b = booted_steps [OF assms(1-3)] and st = assms(7,8)
  have m: "kernel_map ?r hhdm ?l \<subseteq>\<^sub>m unmarked (space_map (mach k) (cr3 (mach k)))"
    using b(2) vm_steps_cr3 [OF assms(3)] by (simp add: assms(4))
  have h: "g_hhdm_offset (mach k) = hhdm" "tree_tables (mach k) (cr3 (mach k)) \<subseteq> usable_tables ?r"
    using b(5-7) vm_steps_cr3 [OF assms(3)] by (auto simp: assms(4) frames_of_def)
  obtain u where u: "raise_exception use (sym_isr_stub syms) v code fault_address regs k = Halted (k\<lparr>mach := u\<rparr>)"
    "g_hhdm_offset u = hhdm" "\<And>c. c \<notin> stack_cells use regs \<Longrightarrow> mem u c = mem (mch w) c"
    "prints (mach k) u (report_text fault_address (frame_of v code regs))"
    using kernel_exception [OF o(1) m o(2) st assms(9,6,5) h, of code fault_address] by (auto simp: assms(4))
  have c: "mem u c = mem (mch w) c" if "P \<in> frames_of w" "c \<in> table_cells (physical_to_virtual (mch w) P)" for P c
    using stack_spares_tables [OF o(1) st b(6)] b(5) that u(3) by blast
  have "space_map u r = space_map (mch w) r" if "r \<in> spaces w" for r
    by (rule space_map_agree(1)) (use u(2) b(6) c that in \<open>auto simp: frames_of_def\<close>)
  moreover have "deliverable v regs k" by (rule kernel_deliverable [OF o(1) m o(2) st(2) assms(9,6,5)])
  ultimately show ?thesis using u(1,4) c by blast
qed

theorem exceptions_reported_witness:
  "\<exists>space t k u. start_memory no_space demo_fb demo_entries 0xFFFF800000000000 0xFFFFFFFF80000000 0x100000 demo_symbols
       (mach (demo_kernel sample_serial)) = Some (Ret space t) \<and> k = (demo_kernel sample_serial)\<lparr>mach := t, segs := segs k\<rparr> \<and>
     raise_exception demo_handler (sym_isr_stub demo_symbols) 13 0x18 0 demo_registers k = Halted (k\<lparr>mach := u\<rparr>) \<and>
     prints t u (report_text 0 (frame_of 13 0x18 demo_registers)) \<and> space_map u (cr3 t) = space_map t (cr3 t)"
proof -
  let ?g = "segs (demo_kernel sample_serial)"
  obtain space t where t: "start_memory no_space demo_fb demo_entries 0xFFFF800000000000 0xFFFFFFFF80000000 0x100000 demo_symbols
       (mach (demo_kernel sample_serial)) = Some (Ret space t)"
    using kernel_space_entered [OF demo_boot_ok] by blast
  define k where "k = (demo_kernel sample_serial)\<lparr>mach := t, segs := idt_init (sym_idt demo_symbols)
    (isr_stub_table (sym_isr_stub demo_symbols)) (gdt_init (sym_gdt demo_symbols) ?g)\<rparr>"
  have k: "mach k = mch \<lparr>spaces = {cr3 t}, held = {}, mch = t\<rparr>" "length (idt ?g) = 256"
    "segs k = idt_init (sym_idt demo_symbols) (isr_stub_table (sym_isr_stub demo_symbols)) (gdt_init (sym_gdt demo_symbols) ?g)"
    by (simp_all add: k_def demo_kernel_def)
  have "(13 :: nat) < 32" by simp
  from exceptions_reported [OF demo_boot_ok t steps_nil k(1,3,2) demo_places(1,3) this, of "0x18" 0] obtain u where
    "raise_exception demo_handler (sym_isr_stub demo_symbols) 13 0x18 0 demo_registers k = Halted (k\<lparr>mach := u\<rparr>)"
    "prints (mach k) u (report_text 0 (frame_of 13 0x18 demo_registers))" "space_map u (cr3 t) = space_map t (cr3 t)" by auto
  moreover have "k = (demo_kernel sample_serial)\<lparr>mach := t, segs := segs k\<rparr>" by (simp add: k_def)
  ultimately show ?thesis using t k(1) by (intro exI [of _ space] exI [of _ t] exI [of _ k] exI [of _ u] conjI) simp_all
qed



text \<open>
  C13: \<open>kmain\<close> stops for every answer of the bootloader and every device: all its loops end, it ends in
  \<open>hcf\<close> or a processor shutdown, and whatever it printed has gone to the serial device. Every console
  call of the run is \<open>call_sound\<close>: it never reads past its format string or its arguments, each
  conversion finds its value in the argument slot that the System V calling convention passes, and the
  type of the argument is the one \<open>va_arg\<close> names but for 64-bit integers passed for \<open>%p\<close> and the five
  page-fault flags, 64-bit integers passed for \<open>%u\<close>. Those two mismatches are undefined in C++ and
  defined only by that convention.
\<close>

theorem kmain_stops:
  assumes "klog (mach k) = []"
  shows "\<exists>k' msg. (kmain io out boot syms use regs k = Some (Halted k') \<or> kmain io out boot syms use regs k = Some (TripleFault k')) \<and>
    console_text (klog (mach k')) = Inr msg \<and> uart k' = sends io msg (uart k) \<and> list_all call_sound (klog (mach k'))"
proof -
  obtain e k' msg where "kmain io out boot syms use regs k = Some e" "ending_kernel e = Some k'"
    "console_text (klog (mach k')) = Inr msg" "uart k' = sends io msg (uart k)" "list_all call_sound (klog (mach k'))"
    using kmain_ends [OF assms] by blast
  then show ?thesis by (cases e) auto
qed

theorem kmain_stops_witness:
  "\<exists>k' msg. (kmain sample_io no_space demo_boot (demo_symbols\<lparr>sym_isr_stub := \<lambda>n. 0\<rparr>) demo_handler demo_registers (demo_kernel sample_serial) =
       Some (Halted k') \<or>
     kmain sample_io no_space demo_boot (demo_symbols\<lparr>sym_isr_stub := \<lambda>n. 0\<rparr>) demo_handler demo_registers (demo_kernel sample_serial) =
       Some (TripleFault k')) \<and> uart k' = sends sample_io msg sample_serial \<and> list_all call_sound (klog (mach k'))"
proof -
  have "klog (mach (demo_kernel sample_serial)) = []" "uart (demo_kernel sample_serial) = sample_serial"
    by (simp_all add: demo_kernel_def)
  with kmain_stops show ?thesis by metis
qed

text \<open>
  C11: however \<open>kmain\<close> ends, CR3 is as the bootloader left it unless every earlier step succeeded: the
  base revision is supported, there are a framebuffer, a memory map of at most 64 entries of known
  types, a direct map and a kernel address, the kernel lies in a kernel region of the map, the frame
  allocator started on that map, and the page tables were built. Then CR3 holds the PML4 that was
  built. Otherwise nothing has been drawn: memory is as the bootloader left it, or, when it was the
  construction of the page tables that failed, as that left it.
\<close>

theorem kmain_cr3_guarded:
  assumes "kmain io out boot syms use regs k = Some e" "ending_kernel e = Some k'"
  shows "cr3 (mach k') = cr3 (mach k) \<and> mem (mach k') = mem (mach k) \<or>
    (\<exists>space v. memory_started out boot syms (mach k) False space v \<and> cr3 (mach k') = cr3 (mach k) \<and> mem (mach k') = mem v) \<or>
    (\<exists>space v. memory_started out boot syms (mach k) True space v \<and> cr3 (mach k') = pml4_physical space)"
proof -
  obtain e' where e': "kmain_body out boot syms use regs (early_kernel io syms k) = Some e'" "e = flush_console io e'"
    using assms(1) by (auto simp: kmain_eq)
  obtain k'' where "ending_kernel e' = Some k''" "mach k' = mach k''" using flush_keeps assms(2) e'(2) by blast
  with kmain_body_guarded [OF e'(1)] show ?thesis by (simp add: switch_guarded_def)
qed

theorem kmain_cr3_guarded_witness:
  "\<exists>e k'. kmain sample_io no_space (demo_boot\<lparr>base_revision_supported := False\<rparr>) demo_symbols demo_handler demo_registers
       (demo_kernel sample_serial) = Some e \<and> ending_kernel e = Some k' \<and> cr3 (mach k') = 0 \<and> mem (mach k') = (\<lambda>p. 0)"
proof -
  let ?b = "demo_boot\<lparr>base_revision_supported := False\<rparr>" and ?k = "demo_kernel sample_serial"
  have "klog (mach ?k) = []" "cr3 (mach ?k) = 0" "mem (mach ?k) = (\<lambda>p. 0)" by (simp_all add: demo_kernel_def)
  moreover obtain e k' where e: "kmain sample_io no_space ?b demo_symbols demo_handler demo_registers ?k = Some e" "ending_kernel e = Some k'"
    using kmain_ends [OF calculation(1)] by blast
  moreover have "\<not> memory_started no_space ?b demo_symbols (mach ?k) ok space v" for ok space v
    by (simp add: memory_started_def)
  ultimately show ?thesis using kmain_cr3_guarded [OF e] by auto
qed

end
