(* ===== verification/Spec2Isabelle.thy ===== *)
theory Spec2Isabelle
  imports Host_Tests Boot_Properties
begin

text \<open>
  \<^bold>\<open>WaterBuffalo: a verified model of an x86-64 kernel.\<close>

  WaterBuffalo is a freestanding C++ kernel started by the Limine boot protocol. \<open>kmain\<close>
  (\<open>src/src/main.cpp\<close>) installs the descriptor tables, starts the serial console, checks the
  bootloader's answers, starts the physical memory manager on the memory map, builds page tables of
  its own, loads CR3, draws a gradient on the framebuffer and provokes a page fault whose handler
  reports the machine state and halts. All of this is modelled. Machine integers are words of their
  width throughout and arithmetic wraps as in the source.

  \<^bold>\<open>Theories and sources.\<close>

  \<^item> \<open>Prelude\<close>: the word types, the result type \<open>exec\<close> of code that may halt the machine, and the
    shared lemmas on words, options and lists.
  \<^item> \<open>Paging\<close>: the vocabulary of \<open>src/src/mm/vmm.hpp\<close>: alignment, page flags, entry encoding, the
    parts of a virtual address, canonical addresses.
  \<^item> \<open>Print\<close>: \<open>src/src/lib/print.cpp\<close>, every routine, over an arbitrary character sink and a format
    array that includes the terminating NUL. Variadic arguments carry their type; \<open>va_arg\<close> reads the
    slots of the System V calling convention, and \<open>type_mismatches\<close> lists the reads of a call whose type
    is not the argument's, which C++ leaves undefined. The locale \<open>char_sink\<close> is the contract of a sink.
  \<^item> \<open>Machine\<close>: the state of the memory managers: one 64-bit cell memory shared by the bitmap and the
    page tables (and, in \<open>Boot\<close>, the framebuffer and the stack), the static variables of \<open>pmm.cpp\<close>, MSRs, CR3 and the console calls made so far.
  \<^item> \<open>Pmm\<close>, \<open>Pmm_Init\<close>: \<open>src/src/mm/pmm.cpp\<close>: the bitmap allocator and its initialisation. The locale
    \<open>frame_allocator\<close> is what the allocator promises to its clients.
  \<^item> \<open>Msr\<close>: \<open>src/src/arch/x86_64/msr.hpp\<close>.
  \<^item> \<open>Vmm\<close>: \<open>src/src/mm/vmm.cpp\<close>, every function. \<open>Page_Tables\<close> holds the abstract address space (the
    partial function \<open>space_map\<close> from virtual addresses to a physical address and flags, read off the
    tables as the processor does) and the well-formedness of a table tree; \<open>Vmm_Map\<close>, \<open>Vmm_Range\<close> and
    \<open>Vmm_Kernel\<close> show that a page, a range and the kernel's address space are mapped as specified.
    The locale \<open>page_range\<close> proves the range loops once for 4 KiB and 2 MiB pages, on success and when
    a page of the range is taken. \<open>Vmm_Exhaustion\<close> states what happens without free frames. \<open>Vmm_Marks\<close>
    shows that the accessed and dirty bits the processor sets in entries do not matter. \<open>Vmm_Steps\<close>
    is a step relation over the calls of both memory managers, the stores of frame holders and the
    processor's marks, with any number of address spaces; its invariant \<open>vm_inv\<close> is kept by every step
    that is \<open>allowed\<close>: with enough free frames for the tables it may need, and releasing or storing to
    held frames only.
  \<^item> \<open>Freestanding\<close>: \<open>src/src/lib/string.cpp\<close>: \<open>memcpy\<close>, \<open>memset\<close>, \<open>memmove\<close>, \<open>memcmp\<close> on byte memory where
    the operands may overlap.
  \<^item> \<open>Serial\<close>: \<open>src/src/arch/x86_64/serial.cpp\<close> and the 8-bit accessors of \<open>io.hpp\<close>, over an arbitrary
    device; the driver is an instance of \<open>char_sink\<close> on each device that honours the contract
    \<open>transmits\<close>. \<open>Console\<close> plays recorded console calls on the driver.
  \<^item> \<open>Descriptors\<close>: \<open>gdt.hpp\<close>, \<open>gdt.cpp\<close>, \<open>idt.hpp\<close>, \<open>idt.cpp\<close> of \<open>src/src/arch/x86_64\<close>.
  \<^item> \<open>Interrupts\<close>: the stubs of \<open>isr.S\<close> and the table of their addresses, the frame of \<open>interrupts.hpp\<close> and the handler of
    \<open>interrupts.cpp\<close>.
  \<^item> \<open>Cell_Bytes\<close>: bytes and 32-bit words in the 64-bit cells of memory, for the stores to the framebuffer.
  \<^item> \<open>Boot\<close>: \<open>src/src/main.cpp\<close>. \<open>Boot_Screen\<close> proves the drawing loops, \<open>Boot_Places\<close> that framebuffer and
    stack do not meet the memory managers' memory when the regions of the memory map do not overlap, \<open>Boot_Output\<close> that every console
    call stays inside its format and arguments and that every step returns, \<open>Boot_Memory\<close> the frame budget, \<open>Boot_Correct\<close> the
    memory phase, \<open>Boot_Faults\<close> that the kernel's page tables map what the delivery of an exception
    needs, \<open>Boot_Console\<close> the text of a successful start and the run of \<open>kmain\<close> that prints it,
    \<open>Boot_Refusals\<close> the text of every refusal, and \<open>Boot_Properties\<close> states the properties.
  \<^item> \<open>Host_Tests\<close>: the checks of the host tests under \<open>src/tests\<close> as lemmas on the model.

  \<^bold>\<open>What is shown.\<close>

  \<^item> \<^emph>\<open>Boot.\<close> On a machine that satisfies \<open>boot_ok\<close> (a condition on the bootloader's answers and the
    linker's addresses only), whose memory map keeps usable, reclaimable and framebuffer regions apart
    from others, with the framebuffer and the stack where they belong, \<open>kmain\<close> boots, draws and stops in the
    report of its fault, and the serial device has received exactly \<open>boot_text\<close> and that report; CR3 then
    holds exactly the intended address space. While frames suffice for what the memory managers are
    asked to do afterwards, the kernel map stays in it, all tables stay reachable and each of the 32
    exceptions is delivered and reported without a store into any table or frame. Every failed check
    stops with its message before CR3 or memory is touched. For every input whatsoever \<open>kmain\<close> stops,
    and its console calls read only what they were given; the calls whose argument types are not those
    \<open>va_arg\<close> names are known.
  \<^item> \<^emph>\<open>Virtual memory.\<close> Mapping a page, a range or the kernel changes exactly the intended part of the
    abstract address space, refuses to replace a mapping, and, given enough free frames, writes
    only page tables, free frames and the bitmap; the rights the processor computes over all levels of
    a mapped page are those asked for; no kernel page is both
    writable and executable; \<open>translate\<close> reads the abstract address space. Over any sequence of
    \<open>allowed\<close> calls, interleaved with the processor's updates of accessed and dirty bits, mappings are never lost or changed, address spaces do not influence each other, and a held frame
    is private to its holder. A range that meets a mapped page stops there with the pages before it
    mapped. Without free frames \<open>map_page\<close> reports a success that is none (the exhaustion value of
    \<open>alloc_frame\<close> is not the one \<open>allocate_table\<close> tests for); in no state does the allocation of a
    table report a failure.
  \<^item> \<^emph>\<open>Physical memory.\<close> \<open>init\<close> frees exactly the frames inside usable regions and outside the bitmap,
    if usable regions start on page boundaries (otherwise one frame of the bitmap may stay free);
    \<open>alloc_frame\<close> returns the least free frame and, while one is free, never one its client holds; \<open>free_frame\<close> on each
    branch; when the answer 0 of \<open>alloc_frame\<close> is a frame and not exhaustion.
  \<^item> \<^emph>\<open>Processor interface.\<close> Descriptors and gates decode to what was encoded; the segment registers
    select valid descriptors; the pushes of processor and stub lay out the frame the handler reads;
    the handler prints the complete report and halts.
  \<^item> \<^emph>\<open>Console.\<close> \<open>kprintf\<close> equals a reference rendering; waiting for the UART is bounded; the driver
    sends the text with newlines expanded.

  \<^bold>\<open>Conventions and bounds.\<close> Code that may halt returns \<open>exec\<close>. The range mappers loop over 64-bit
  cursors and are partial functions into \<open>option\<close>; they are proved to return on every input, so
  no fuel is needed anywhere; all other loops are total functions. Frame budgets count three tables
  per 4 KiB page and two per 2 MiB page, one PML4 and the frames of the bitmap, which is the most the
  mappers can take. Console calls are recorded in order and played on the serial device when the run
  has ended: nothing in the kernel reads the device's answer to a call, and the driver's state is
  used by console calls only. There is one memory, indexed by direct-map addresses: pixels, page tables, bitmap and stack
  are cells of it, and that stores to one of them leave the others alone is proved from the memory map.
  A store of a pixel goes through the page tables that memory holds at that moment.

  \<^bold>\<open>Parameters.\<close> The UART (port input and output), the bootloader's answers, the addresses chosen by
  the linker (for the segments, the descriptor tables and each exception stub), the values of the registers at the fault and of the uninitialised local \<open>space\<close>, and what the
  compiled exception handler does with the stack (\<open>handler_stack\<close>: how much of it, what it leaves there). What
  the processor does on an exception, on a store through the page tables and with descriptors is
  written from the architecture.

  \<^bold>\<open>Not modelled.\<close> \<open>src/third_party/limine/limine.h\<close> (vendored declarations; the fields read are the
  parameters above), the framework of the host tests (\<open>test.hpp\<close>, \<open>runner.cpp\<close>), the 16- and 32-bit instances of the class
  template \<open>Port\<close> (no user in the kernel), the accessed bits the processor sets in
  segment descriptors, and the translation lookaside buffer: CR3 is loaded once, after
  the last change to the tables, and later mappings only add translations. Sequences of
  \<open>Vmm_Steps\<close> consist of \<open>allowed\<close> calls; \<open>Vmm_Exhaustion\<close> covers one call without free frames. Stack
  use before the exception is not modelled.
\<close>

end
